(* ===== verification/Prelude.thy ===== *)
theory Prelude
  imports Main "HOL-Library.Multiset"
begin

text \<open>
  Shared vocabulary of the development: Go errors and fallible results, Go's integer
  division, stable sorting with a comparison callback (\<open>sort.SliceStable\<close>), and
  transition systems with reachable states and invariants.
\<close>

named_theorems table_simps \<open>equations of the SQL table operations\<close>
named_theorems inv_intros \<open>preservation facts of the component invariants\<close>

section \<open>Fallible results\<close>

text \<open>
  A Go function returning \<open>(T, error)\<close> is a value of \<open>'a res\<close>. The constraint
  errors are the ones SQLite raises; \<open>Msg\<close> is an error built by the program, and
  \<open>Panic\<close> a run-time panic of the Go runtime.
\<close>

datatype go_error =
    Unique_Violation
  | Check_Violation
  | Foreign_Key_Violation
  | No_Rows
  | Msg string
  | Panic string

type_synonym 'a res = "go_error + 'a"

fun and_then :: "'a res \<Rightarrow> ('a \<Rightarrow> 'b res) \<Rightarrow> 'b res" where
  "and_then (Inl e) f = Inl e"
| "and_then (Inr x) f = f x"

fun is_ok :: "'a res \<Rightarrow> bool" where
  "is_ok (Inl e) = False"
| "is_ok (Inr x) = True"

lemma and_then_Inr_iff:
  "and_then r f = Inr y \<longleftrightarrow> (\<exists>x. r = Inr x \<and> f x = Inr y)"
  by (cases r) auto

text \<open>Early returns: an accepted input has passed every guard.\<close>

lemma guard_Inr: "(if c then Inl e else r) = Inr y \<longleftrightarrow> \<not> c \<and> r = Inr y"
  by simp

lemma guard_dropped: "(if c then Inr None else Inr (Some x)) = Inr (Some y) \<longleftrightarrow> \<not> c \<and> x = y"
  by simp

lemma and_then_Inl_iff:
  "and_then r f = Inl e \<longleftrightarrow> r = Inl e \<or> (\<exists>x. r = Inr x \<and> f x = Inl e)"
  by (cases r) auto

lemma is_ok_iff: "is_ok r \<longleftrightarrow> (\<exists>x. r = Inr x)"
  by (cases r) auto

text \<open>A loop whose body may return early with an error.\<close>

fun fold_res :: "('a \<Rightarrow> 's \<Rightarrow> 's res) \<Rightarrow> 'a list \<Rightarrow> 's \<Rightarrow> 's res" where
  "fold_res f [] s = Inr s"
| "fold_res f (x # xs) s = and_then (f x s) (fold_res f xs)"

lemma fold_res_append:
  "fold_res f (xs @ ys) s = and_then (fold_res f xs s) (fold_res f ys)"
proof (induction xs arbitrary: s)
  case Nil
  then show ?case by simp
next
  case (Cons x xs)
  then show ?case by (cases "f x s") auto
qed

lemma fold_res_invariant:
  assumes "fold_res f xs s = Inr t" and "P s"
    and "\<And>x s t. x \<in> set xs \<Longrightarrow> P s \<Longrightarrow> f x s = Inr t \<Longrightarrow> P t"
  shows "P t"
  using assms
proof (induction xs arbitrary: s)
  case Nil
  then show ?case by simp
next
  case (Cons x xs)
  then obtain u where u: "f x s = Inr u" "fold_res f xs u = Inr t"
    by (auto simp: and_then_Inr_iff)
  with Cons.prems have "P u" by auto
  with Cons u show ?case by auto
qed

fun map_res :: "('a \<Rightarrow> 'b res) \<Rightarrow> 'a list \<Rightarrow> 'b list res" where
  "map_res f [] = Inr []"
| "map_res f (x # xs) = and_then (f x) (\<lambda>y. and_then (map_res f xs) (\<lambda>ys. Inr (y # ys)))"

lemma map_res_Inr:
  "map_res f xs = Inr ys \<Longrightarrow> length ys = length xs \<and> (\<forall>i < length xs. f (xs ! i) = Inr (ys ! i))"
proof (induction xs arbitrary: ys)
  case Nil
  then show ?case by simp
next
  case (Cons x xs)
  then obtain y zs where "f x = Inr y" "map_res f xs = Inr zs" "ys = y # zs"
    by (auto simp: and_then_Inr_iff)
  with Cons.IH show ?case by (auto simp: nth_Cons split: nat.splits)
qed

lemma map_res_all:
  assumes "map_res f xs = Inr ys" and "\<And>x y. f x = Inr y \<Longrightarrow> P y"
  shows "\<forall>y \<in> set ys. P y"
  using assms(1)
proof (induction xs arbitrary: ys)
  case Nil
  then show ?case by simp
next
  case (Cons x xs)
  then show ?case using assms(2) by (auto simp: and_then_Inr_iff)
qed

section \<open>Go integers\<close>

text \<open>Go's \<open>/\<close> and \<open>%\<close> truncate towards zero; a zero divisor is a panic.\<close>

definition go_div :: "int \<Rightarrow> int \<Rightarrow> int" where
  "go_div a b = sgn a * sgn b * (\<bar>a\<bar> div \<bar>b\<bar>)"

definition go_mod :: "int \<Rightarrow> int \<Rightarrow> int" where
  "go_mod a b = a - b * go_div a b"

lemma go_div_nonneg: "0 \<le> a \<Longrightarrow> 0 < b \<Longrightarrow> go_div a b = a div b"
  by (cases "a = 0") (auto simp: go_div_def sgn_if)

lemma go_mod_nonneg: "0 \<le> a \<Longrightarrow> 0 < b \<Longrightarrow> go_mod a b = a mod b"
  by (simp add: go_mod_def go_div_nonneg minus_mult_div_eq_mod)

lemma go_div_neg: "a < 0 \<Longrightarrow> 0 < b \<Longrightarrow> go_div a b = - ((- a) div b)"
  by (auto simp: go_div_def sgn_if)

lemma go_mod_neg: "a < 0 \<Longrightarrow> 0 < b \<Longrightarrow> go_mod a b = - ((- a) mod b)"
  by (simp add: go_mod_def go_div_neg minus_mult_div_eq_mod [symmetric] algebra_simps)

lemma div_add_up_bounds:
  fixes n c :: int
  assumes "0 < n" "0 < c"
  shows "n \<le> ((n + c - 1) div c) * c" and "((n + c - 1) div c - 1) * c < n"
proof -
  have eq: "(n + c - 1) div c * c + (n + c - 1) mod c = n + c - 1"
    by simp
  have lt: "(n + c - 1) mod c < c" and ge: "0 \<le> (n + c - 1) mod c"
    using assms by simp_all
  from eq lt show "n \<le> ((n + c - 1) div c) * c" by linarith
  from eq ge have "(n + c - 1) div c * c \<le> n + c - 1" by linarith
  then show "((n + c - 1) div c - 1) * c < n"
    by (simp add: left_diff_distrib)
qed

section \<open>Transition systems\<close>

text \<open>The states a component can reach, by steps that concurrent processes interleave.\<close>

inductive reachable :: "('s \<Rightarrow> bool) \<Rightarrow> ('s \<Rightarrow> 's \<Rightarrow> bool) \<Rightarrow> 's \<Rightarrow> bool"
  for init :: "'s \<Rightarrow> bool" and step :: "'s \<Rightarrow> 's \<Rightarrow> bool" where
  reachable_init: "init s \<Longrightarrow> reachable init step s"
| reachable_step: "reachable init step s \<Longrightarrow> step s t \<Longrightarrow> reachable init step t"

text \<open>
  An inductive invariant with the history properties a component relies on: \<open>keeps\<close> is
  a relation between a state and its successors that composes along a run.
\<close>

locale transition_system =
  fixes init :: "'s \<Rightarrow> bool" and step :: "'s \<Rightarrow> 's \<Rightarrow> bool"
    and inv :: "'s \<Rightarrow> bool" and keeps :: "'s \<Rightarrow> 's \<Rightarrow> bool"
  assumes init_inv: "init s \<Longrightarrow> inv s"
    and step_inv: "inv s \<Longrightarrow> step s t \<Longrightarrow> inv t"
    and keeps_refl: "keeps s s"
    and keeps_trans: "keeps s t \<Longrightarrow> keeps t u \<Longrightarrow> keeps s u"
    and step_keeps: "inv s \<Longrightarrow> step s t \<Longrightarrow> keeps s t"
begin

lemma reachable_inv: "reachable init step s \<Longrightarrow> inv s"
  by (induction rule: reachable.induct) (auto intro: init_inv step_inv)

lemma run_inv: "step\<^sup>*\<^sup>* s t \<Longrightarrow> inv s \<Longrightarrow> inv t"
  by (induction rule: rtranclp_induct) (auto intro: step_inv)

lemma run_keeps: "step\<^sup>*\<^sup>* s t \<Longrightarrow> inv s \<Longrightarrow> keeps s t"
proof (induction rule: rtranclp_induct)
  case base
  show ?case by (rule keeps_refl)
next
  case (step t u)
  then have "inv t" using run_inv by blast
  with step show ?case using keeps_trans step_keeps by blast
qed

lemma reachable_run: "reachable init step s \<Longrightarrow> step\<^sup>*\<^sup>* s t \<Longrightarrow> keeps s t"
  using reachable_inv run_keeps by blast

end

section \<open>Stores that ignore what they know\<close>

text \<open>
  A client that got no answer sends its batch again. The operations that record entries ignore
  those they already hold, so the second submission of an accepted batch changes nothing.
  \<open>ignored e s\<close>: the store \<open>s\<close> drops the entry \<open>e\<close>.
\<close>

locale retry_store =
  fixes add :: "'e \<Rightarrow> int \<times> 's \<Rightarrow> (int \<times> 's) res" and ignored :: "'e \<Rightarrow> 's \<Rightarrow> bool"
  assumes add_ignored: "ignored e s \<Longrightarrow> add e (n, s) = Inr (n, s)"
    and add_keeps: "add e (n, s) = Inr (n', s') \<Longrightarrow> ignored d s \<Longrightarrow> ignored d s'"
    and add_done: "add e (n, s) = Inr (n', s') \<Longrightarrow> ignored e s'"
begin

lemma batch_ignored:
  "fold_res add es (n, s) = Inr (n', s') \<Longrightarrow> \<forall>d. d \<in> set es \<or> ignored d s \<longrightarrow> ignored d s'"
proof (induction es arbitrary: n s)
  case (Cons e es)
  then obtain m u where u: "add e (n, s) = Inr (m, u)" "fold_res add es (m, u) = Inr (n', s')"
    by (auto simp: and_then_Inr_iff)
  then show ?case
    using Cons.IH [OF u(2)] add_keeps [OF u(1)] add_done [OF u(1)] by auto
qed simp

lemma batch_known: "\<forall>e \<in> set es. ignored e s \<Longrightarrow> fold_res add es (n, s) = Inr (n, s)"
  by (induction es) (simp_all add: add_ignored)

lemma batch_retry:
  assumes "fold_res add es (n, s) = Inr (n', s')" and "\<And>e. ignored e s' \<Longrightarrow> ignored e t"
  shows "fold_res add es (k, t) = Inr (k, t)"
  using batch_ignored [OF assms(1)] assms(2) by (intro batch_known) blast

end

section \<open>SQL tables\<close>

text \<open>
  A table is the list of its rows in insertion order, which is the order of a scan;
  \<open>key\<close> reads the primary key of a row and \<open>check\<close> its CHECK constraints.
\<close>

definition update_where :: "('r \<Rightarrow> bool) \<Rightarrow> ('r \<Rightarrow> 'r) \<Rightarrow> 'r list \<Rightarrow> 'r list" where
  "update_where p f rows = map (\<lambda>r. if p r then f r else r) rows"

definition affected_rows :: "('r \<Rightarrow> bool) \<Rightarrow> 'r list \<Rightarrow> nat" where
  "affected_rows p rows = length (filter p rows)"

text \<open>An UPDATE whose rows are checked; a violation undoes the statement.\<close>

definition update_checked :: "('r \<Rightarrow> bool) \<Rightarrow> ('r \<Rightarrow> bool) \<Rightarrow> ('r \<Rightarrow> 'r) \<Rightarrow> 'r list \<Rightarrow> 'r list res" where
  "update_checked check p f rows =
     (if list_all check (map f (filter p rows)) then Inr (update_where p f rows)
      else Inl Check_Violation)"

definition insert_row :: "('r \<Rightarrow> 'k) \<Rightarrow> ('r \<Rightarrow> bool) \<Rightarrow> 'r \<Rightarrow> 'r list \<Rightarrow> 'r list res" where
  "insert_row key check r rows =
     (if \<not> check r then Inl Check_Violation
      else if key r \<in> set (map key rows) then Inl Unique_Violation
      else Inr (rows @ [r]))"

definition insert_or_ignore :: "('r \<Rightarrow> 'k) \<Rightarrow> ('r \<Rightarrow> bool) \<Rightarrow> 'r \<Rightarrow> 'r list \<Rightarrow> 'r list" where
  "insert_or_ignore key check r rows =
     (if \<not> check r \<or> key r \<in> set (map key rows) then rows else rows @ [r])"

text \<open>\<open>INSERT ... ON CONFLICT(key) DO UPDATE\<close>: the old row is merged with the new one.\<close>

definition upsert_row :: "('r \<Rightarrow> 'k) \<Rightarrow> ('r \<Rightarrow> 'r \<Rightarrow> 'r) \<Rightarrow> 'r \<Rightarrow> 'r list \<Rightarrow> 'r list" where
  "upsert_row key mrg r rows =
     (if key r \<in> set (map key rows) then update_where (\<lambda>x. key x = key r) (\<lambda>x. mrg x r) rows
      else rows @ [r])"

text \<open>The same with the CHECK constraints of the row that results.\<close>

definition upsert_checked ::
    "('r \<Rightarrow> 'k) \<Rightarrow> ('r \<Rightarrow> bool) \<Rightarrow> ('r \<Rightarrow> 'r \<Rightarrow> 'r) \<Rightarrow> 'r \<Rightarrow> 'r list \<Rightarrow> 'r list res" where
  "upsert_checked key check mrg r rows =
     (if check r \<and> list_all (\<lambda>x. key x = key r \<longrightarrow> check (mrg x r)) rows
      then Inr (upsert_row key mrg r rows) else Inl Check_Violation)"

definition delete_where :: "('r \<Rightarrow> bool) \<Rightarrow> 'r list \<Rightarrow> 'r list" where
  "delete_where p rows = filter (\<lambda>r. \<not> p r) rows"

text \<open>\<open>WHERE p ORDER BY lt LIMIT 1\<close>; a tie goes to the row scanned first.\<close>

fun first_by :: "('r \<Rightarrow> 'r \<Rightarrow> bool) \<Rightarrow> 'r list \<Rightarrow> 'r option" where
  "first_by lt [] = None"
| "first_by lt (r # rs) =
     (case first_by lt rs of
        None \<Rightarrow> Some r
      | Some m \<Rightarrow> if lt m r then Some m else Some r)"

definition lookup_row :: "('r \<Rightarrow> 'k) \<Rightarrow> 'k \<Rightarrow> 'r list \<Rightarrow> 'r option" where
  "lookup_row key k rows = find (\<lambda>r. key r = k) rows"

definition unique_key :: "('r \<Rightarrow> 'k) \<Rightarrow> 'r list \<Rightarrow> bool" where
  "unique_key key rows \<longleftrightarrow> distinct (map key rows)"

lemma set_update_where: "set (update_where p f rows) = (\<lambda>r. if p r then f r else r) ` set rows"
  by (simp add: update_where_def)

lemma bex_update_where:
  "(\<exists>r \<in> set (update_where p f rows). P r) \<longleftrightarrow> (\<exists>r \<in> set rows. P (if p r then f r else r))"
  unfolding update_where_def set_map by blast

lemma ball_update_where:
  "(\<forall>r \<in> set (update_where p f rows). P r) \<longleftrightarrow> (\<forall>r \<in> set rows. P (if p r then f r else r))"
  unfolding update_where_def set_map by blast

lemma keys_update_where:
  "(\<And>r. r \<in> set rows \<Longrightarrow> p r \<Longrightarrow> key (f r) = key r) \<Longrightarrow> map key (update_where p f rows) = map key rows"
  by (auto simp: update_where_def)

lemma unique_key_update_where [inv_intros]:
  "unique_key key rows \<Longrightarrow> (\<And>r. r \<in> set rows \<Longrightarrow> p r \<Longrightarrow> key (f r) = key r) \<Longrightarrow>
     unique_key key (update_where p f rows)"
  by (simp add: unique_key_def keys_update_where)

lemma update_checked_Inr:
  "update_checked check p f rows = Inr rows' \<longleftrightarrow>
     rows' = update_where p f rows \<and> (\<forall>r \<in> set rows. p r \<longrightarrow> check (f r))"
  by (auto simp: update_checked_def list_all_iff)

lemma insert_row_Inr:
  "insert_row key check r rows = Inr rows' \<longleftrightarrow>
     rows' = rows @ [r] \<and> check r \<and> key r \<notin> key ` set rows"
  by (auto simp: insert_row_def)

lemma unique_key_snoc [simp]:
  "unique_key key (rows @ [r]) \<longleftrightarrow> unique_key key rows \<and> key r \<notin> key ` set rows"
  by (auto simp: unique_key_def)

lemma bex_upsert:
  assumes "\<And>x. key x = key r \<Longrightarrow> P (mrg x r) \<longleftrightarrow> c" and "P r \<longleftrightarrow> c"
    and "\<And>x. P x \<Longrightarrow> key x = key r \<Longrightarrow> c"
  shows "(\<exists>x \<in> set (upsert_row key mrg r rows). P x) \<longleftrightarrow> (\<exists>x \<in> set rows. P x) \<or> c"
proof (cases "key r \<in> key ` set rows")
  case True
  then obtain y where y: "y \<in> set rows" "key y = key r" by auto
  have "(\<exists>x \<in> set (upsert_row key mrg r rows). P x) \<longleftrightarrow>
      (\<exists>x \<in> set rows. P (if key x = key r then mrg x r else x))"
    using True unfolding upsert_row_def by (auto simp: set_update_where)
  also have "\<dots> \<longleftrightarrow> (\<exists>x \<in> set rows. P x) \<or> c"
    using y assms by (metis (full_types))
  finally show ?thesis .
next
  case False
  then show ?thesis using assms(2) by (auto simp: upsert_row_def)
qed

lemma set_upsert_replace:
  "set (upsert_row key (\<lambda>old new. new) r rows) = insert r {x \<in> set rows. key x \<noteq> key r}"
  by (auto simp: upsert_row_def set_update_where image_iff)

lemma upsert_checked_Inr:
  "upsert_checked key check mrg r rows = Inr rows' \<longleftrightarrow>
     rows' = upsert_row key mrg r rows \<and> check r \<and> (\<forall>x \<in> set rows. key x = key r \<longrightarrow> check (mrg x r))"
  by (auto simp: upsert_checked_def list_all_iff)

lemma unique_key_upsert [inv_intros]:
  assumes "unique_key key rows" and "\<And>x. key x = key r \<Longrightarrow> key (mrg x r) = key r"
  shows "unique_key key (upsert_row key mrg r rows)"
  using assms by (auto simp: upsert_row_def intro: unique_key_update_where)

lemma unique_key_insert_or_ignore [inv_intros]:
  "unique_key key rows \<Longrightarrow> unique_key key (insert_or_ignore key check r rows)"
  by (auto simp: insert_or_ignore_def)

lemma unique_key_delete [inv_intros]: "unique_key key rows \<Longrightarrow> unique_key key (delete_where p rows)"
  by (simp add: unique_key_def delete_where_def distinct_map_filter)

lemma set_delete_where [simp]: "set (delete_where p rows) = {r \<in> set rows. \<not> p r}"
  by (auto simp: delete_where_def)

lemma unique_key_inj: "unique_key key rows \<Longrightarrow> r \<in> set rows \<Longrightarrow> r' \<in> set rows \<Longrightarrow> key r = key r' \<Longrightarrow> r = r'"
  by (auto simp: unique_key_def distinct_map inj_on_def)

lemma lookup_row_Some: "lookup_row key k rows = Some r \<Longrightarrow> r \<in> set rows \<and> key r = k"
  by (auto simp: lookup_row_def find_Some_iff)

lemma lookup_row_None: "lookup_row key k rows = None \<longleftrightarrow> k \<notin> key ` set rows"
  by (auto simp: lookup_row_def find_None_iff)

lemma lookup_row_unique:
  "unique_key key rows \<Longrightarrow> r \<in> set rows \<Longrightarrow> lookup_row key (key r) rows = Some r"
  by (cases "lookup_row key (key r) rows")
    (auto simp: lookup_row_None dest: lookup_row_Some unique_key_inj)

lemma lookup_update_where:
  assumes "\<And>r. p r \<Longrightarrow> key (f r) = key r"
  shows "lookup_row key k (update_where p f rows) =
    map_option (\<lambda>r. if p r then f r else r) (lookup_row key k rows)"
  by (induction rows) (auto simp: lookup_row_def update_where_def assms)

lemma lookup_upsert:
  assumes "\<And>x. key x = key r \<Longrightarrow> key (mrg x r) = key r"
  shows "lookup_row key k (upsert_row key mrg r rows) =
    (if k = key r then Some (case lookup_row key k rows of None \<Rightarrow> r | Some x \<Rightarrow> mrg x r)
     else lookup_row key k rows)"
proof (cases "key r \<in> set (map key rows)")
  case True
  then have eq: "lookup_row key k (upsert_row key mrg r rows) =
      map_option (\<lambda>x. if key x = key r then mrg x r else x) (lookup_row key k rows)"
    unfolding upsert_row_def
    using assms lookup_update_where [of "\<lambda>x. key x = key r" key "\<lambda>x. mrg x r"] by simp
  show ?thesis
  proof (cases "lookup_row key k rows")
    case None
    then have "k \<noteq> key r" using True by (auto simp: lookup_row_None)
    with None show ?thesis by (simp add: eq)
  next
    case (Some x)
    then have "key x = k" by (auto dest: lookup_row_Some)
    with Some show ?thesis by (auto simp: eq)
  qed
next
  case False
  then show ?thesis
    by (induction rows) (auto simp: lookup_row_def upsert_row_def)
qed

lemma lookup_delete_where:
  assumes "unique_key key rows"
  shows "lookup_row key k (delete_where p rows) =
    (case lookup_row key k rows of None \<Rightarrow> None | Some r \<Rightarrow> if p r then None else Some r)"
  using assms
proof (induction rows)
  case Nil
  then show ?case by (simp add: lookup_row_def delete_where_def)
next
  case (Cons r rows)
  then have IH: "lookup_row key k (delete_where p rows) =
      (case lookup_row key k rows of None \<Rightarrow> None | Some r \<Rightarrow> if p r then None else Some r)"
    and fresh: "key r \<notin> key ` set rows"
    by (simp_all add: unique_key_def)
  have "lookup_row key (key r) rows = None"
    using fresh by (simp add: lookup_row_None)
  with IH show ?case by (auto simp: lookup_row_def delete_where_def)
qed

lemma first_by_None: "first_by lt rs = None \<longleftrightarrow> rs = []"
  by (cases rs) (auto split: option.splits)

lemma first_by_in: "first_by lt rs = Some m \<Longrightarrow> m \<in> set rs"
  by (induction rs arbitrary: m) (auto split: option.splits if_splits)

lemma first_by_least:
  assumes trans: "\<And>a b c. lt a b \<Longrightarrow> \<not> lt c b \<Longrightarrow> lt a c"
    and asym: "\<And>a b. lt a b \<Longrightarrow> \<not> lt b a"
  shows "first_by lt rs = Some m \<Longrightarrow> r \<in> set rs \<Longrightarrow> \<not> lt r m"
proof (induction rs arbitrary: m r)
  case Nil
  then show ?case by simp
next
  case (Cons x xs)
  show ?case
  proof (cases "first_by lt xs")
    case None
    with Cons.prems show ?thesis using asym [of x x] by (auto simp: first_by_None)
  next
    case (Some y)
    have IH: "\<not> lt z y" if "z \<in> set xs" for z
      using Cons.IH [OF Some that] .
    show ?thesis
    proof (cases "lt y x")
      case True
      then have m: "m = y" using Cons.prems(1) Some by simp
      have "\<not> lt x y"
        using asym True by blast
      with IH Cons.prems(2) m show ?thesis by auto
    next
      case False
      then have m: "m = x" using Cons.prems(1) Some by simp
      have "\<not> lt z x" if "z \<in> set xs" for z
        using IH [OF that] False trans [of z x y] by blast
      with Cons.prems(2) asym [of x x] m show ?thesis by auto
    qed
  qed
qed

end
