(* ===== verification/Chunks.thy ===== *)
theory Chunks
  imports Prelude
begin

text \<open>
  Deterministic chunking: \<open>parallelChunks\<close> of \<open>core/parallel.go\<close>, which runs a
  callback over fixed chunks with one goroutine per chunk and concatenates the outputs in
  chunk order. The order in which the goroutines finish is the argument \<open>schedule\<close>.
\<close>

text \<open>
  Each goroutine writes one slot of \<open>results\<close>. A chunk count below zero makes the
  \<open>make\<close> panic, a zero divisor the division.
\<close>

definition run_workers ::
    "nat list \<Rightarrow> int \<Rightarrow> int \<Rightarrow> (int \<Rightarrow> int \<Rightarrow> 'a list) \<Rightarrow> 'a list list \<Rightarrow> 'a list list" where
  "run_workers schedule n chunk fn results =
     fold (\<lambda>w rs. rs[w := fn (int w * chunk) (min (int w * chunk + chunk) n)]) schedule results"

definition chunk_size :: "int \<Rightarrow> int \<Rightarrow> int" where
  "chunk_size n threads = go_div (n + threads - 1) threads"

definition chunk_count :: "int \<Rightarrow> int \<Rightarrow> int" where
  "chunk_count n chunk = go_div (n + chunk - 1) chunk"

definition parallelChunks ::
    "nat list \<Rightarrow> int \<Rightarrow> int \<Rightarrow> (int \<Rightarrow> int \<Rightarrow> 'a list) \<Rightarrow> 'a list res" where
  "parallelChunks schedule n threads fn =
     (if n \<le> 0 then Inr []
      else let threads = (if threads > n then n else threads)
      in if threads = 0 then Inl (Panic ''integer divide by zero'')
      else let chunk = chunk_size n threads
      in if chunk = 0 then Inl (Panic ''integer divide by zero'')
      else let nchunks = chunk_count n chunk
      in if nchunks < 0 then Inl (Panic ''makeslice: len out of range'')
      else Inr (concat (run_workers schedule n chunk fn (replicate (nat nchunks) []))))"

lemma length_run_workers [simp]: "length (run_workers ws n c fn rs) = length rs"
  by (induction ws arbitrary: rs) (auto simp: run_workers_def)

lemma nth_run_workers:
  "w < length rs \<Longrightarrow> run_workers ws n c fn rs ! w =
     (if w \<in> set ws then fn (int w * c) (min (int w * c + c) n) else rs ! w)"
proof (induction ws arbitrary: rs)
  case Nil
  then show ?case by (simp add: run_workers_def)
next
  case (Cons v ws)
  have "run_workers (v # ws) n c fn rs =
      run_workers ws n c fn (rs[v := fn (int v * c) (min (int v * c + c) n)])"
    by (simp add: run_workers_def)
  with Cons show ?case by (auto simp: nth_list_update)
qed

text \<open>Whatever the schedule, once every worker has run its slot holds its chunk.\<close>

lemma run_workers_complete:
  assumes "set ws = {0..<k}"
  shows "run_workers ws n c fn (replicate k []) =
     map (\<lambda>w. fn (int w * c) (min (int w * c + c) n)) [0..<k]"
  by (rule nth_equalityI) (auto simp: nth_run_workers assms)

text \<open>
  A callback that serves its items in order: splitting its range at any point splits its
  output there.
\<close>

definition range_additive :: "(int \<Rightarrow> int \<Rightarrow> 'a list) \<Rightarrow> bool" where
  "range_additive fn \<longleftrightarrow> (\<forall>a b c. a \<le> b \<longrightarrow> b \<le> c \<longrightarrow> fn a c = fn a b @ fn b c)"

lemma range_additive_empty: "range_additive fn \<Longrightarrow> fn a a = []"
  unfolding range_additive_def by (metis order_refl append_self_conv)

lemma concat_chunks:
  assumes add: "range_additive fn" and "0 \<le> n" "0 < c"
  shows "concat (map (\<lambda>w. fn (min (int w * c) n) (min (int w * c + c) n)) [0..<k])
    = fn 0 (min (int k * c) n)"
proof (induction k)
  case 0
  then show ?case using assms by (simp add: range_additive_empty)
next
  case (Suc k)
  have le: "0 \<le> min (int k * c) n" "min (int k * c) n \<le> min (int k * c + c) n"
    using assms by auto
  have "fn 0 (min (int k * c) n) @ fn (min (int k * c) n) (min (int k * c + c) n)
      = fn 0 (min (int k * c + c) n)"
    using add le unfolding range_additive_def by metis
  with Suc show ?case by (simp add: algebra_simps)
qed

lemma chunk_plan_bounds:
  fixes n t :: int
  assumes "0 < n" "0 < t"
  defines "c \<equiv> chunk_size n t"
  defines "k \<equiv> chunk_count n c"
  shows "0 < c" and "0 < k" and "n \<le> k * c" and "(k - 1) * c < n"
proof -
  have ceq: "c = (n + t - 1) div t"
    using assms by (simp add: go_div_nonneg chunk_size_def)
  show c0: "0 < c"
    using assms(1,2) unfolding ceq by (simp add: pos_imp_zdiv_pos_iff)
  have keq: "k = (n + c - 1) div c"
    using assms(1) c0 unfolding k_def by (simp add: go_div_nonneg chunk_count_def)
  show "0 < k"
    using assms(1) c0 unfolding keq by (simp add: pos_imp_zdiv_pos_iff)
  show "n \<le> k * c" and "(k - 1) * c < n"
    unfolding keq using div_add_up_bounds [OF assms(1) c0] by simp_all
qed

lemma chunk_start_inside:
  fixes n t :: int
  assumes "0 < n" "0 < t" "w < nat (chunk_count n (chunk_size n t))"
  shows "int w * chunk_size n t < n"
proof -
  note b = chunk_plan_bounds [OF assms(1,2)]
  have "int w * chunk_size n t \<le> (chunk_count n (chunk_size n t) - 1) * chunk_size n t"
    using assms(3) b(1,2) by (intro mult_right_mono) linarith+
  with b(4) show ?thesis by linarith
qed

text \<open>
  C4. \<open>parallelChunks\<close> is the sequential computation: for every positive thread count
  and every order in which the goroutines finish, the result is the callback's output on
  the whole range \<open>[0, n)\<close>, with no item lost, duplicated or reordered.
\<close>

theorem parallelChunks_sequential:
  assumes threads: "0 < threads" and add: "range_additive fn"
    and all: "set schedule = {0..<nat (chunk_count n (chunk_size n (min threads n)))}"
  shows "parallelChunks schedule n threads fn = Inr (if n \<le> 0 then [] else fn 0 n)"
proof (cases "n \<le> 0")
  case True
  then show ?thesis by (simp add: parallelChunks_def)
next
  case False
  define t where "t = min threads n"
  define c where "c = chunk_size n t"
  define k where "k = nat (chunk_count n c)"
  have n: "0 < n" and t: "0 < t" and teq: "(if threads > n then n else threads) = t"
    using False threads by (auto simp: t_def)
  note b = chunk_plan_bounds [OF n t, folded c_def]
  have kc: "n \<le> int k * c"
    using b(2,3) by (simp add: k_def)
  have set: "set schedule = {0..<k}"
    using all by (simp add: k_def c_def t_def)
  have clip: "map (\<lambda>w. fn (int w * c) (min (int w * c + c) n)) [0..<k] =
      map (\<lambda>w. fn (min (int w * c) n) (min (int w * c + c) n)) [0..<k]"
    by (intro map_cong)
      (simp_all add: k_def c_def min_absorb1 less_imp_le [OF chunk_start_inside [OF n t]])
  have "concat (run_workers schedule n c fn (replicate k [])) = fn 0 (min (int k * c) n)"
    unfolding run_workers_complete [OF set] clip by (rule concat_chunks [OF add _ b(1)]) (use n in simp)
  also have "\<dots> = fn 0 n"
    using kc by (simp add: min_def)
  finally show ?thesis
    using False t b(1,2)
    by (simp add: parallelChunks_def teq Let_def c_def [symmetric] k_def)
qed

theorem parallelChunks_sequential_witness:
  "parallelChunks [2, 0, 1] 5 3 (\<lambda>a b. [a..b - 1]) = Inr [0, 1, 2, 3, 4]"
proof -
  have add: "range_additive (\<lambda>a b. [a..b - 1])"
    unfolding range_additive_def
  proof (intro allI impI)
    fix a b c :: int
    assume "a \<le> b" "b \<le> c"
    then show "[a..c - 1] = [a..b - 1] @ [b..c - 1]"
    proof (induction "nat (b - a)" arbitrary: a)
      case 0
      then show ?case by simp
    next
      case (Suc d)
      then have "a < b" by linarith
      with Suc show ?case by (simp add: upto_rec1 [of a])
    qed
  qed
  have all: "set [2, 0, 1] = {0..<nat (chunk_count 5 (chunk_size 5 (min 3 5)))}"
    by (auto simp: go_div_def chunk_count_def chunk_size_def)
  show ?thesis
    using parallelChunks_sequential [OF _ add all] by (simp add: upto_rec1)
qed

end
