(* ===== verification/Go_Strings.thy ===== *)
theory Go_Strings
  imports Prelude "HOL-Library.Char_ord" "HOL-Library.List_Lexorder"
begin

text \<open>
  Go strings: byte sequences, their UTF-8 decoding by \<open>range\<close>, and the functions of
  the packages \<open>strings\<close> and \<open>unicode/utf8\<close> that the program uses. A string is a
  \<open>char list\<close> whose elements are bytes; \<open><\<close> on strings is Go's byte order.
\<close>

section \<open>UTF-8\<close>

abbreviation byte :: "char \<Rightarrow> nat" where
  "byte c \<equiv> of_char c"

definition is_cont :: "char \<Rightarrow> bool" where
  "is_cont c \<longleftrightarrow> 128 \<le> byte c \<and> byte c < 192"

definition rune_error :: nat where
  "rune_error = 65533"

text \<open>
  \<open>utf8.DecodeRuneInString\<close> on the string \<open>c # cs\<close>: the rune and the number of
  bytes of \<open>cs\<close> that belong to it. An invalid encoding is U+FFFD of width one.
\<close>

fun decode_two :: "nat \<Rightarrow> string \<Rightarrow> nat \<times> nat" where
  "decode_two b (c1 # _) =
     (if is_cont c1 then ((b mod 32) * 64 + byte c1 mod 64, 1) else (rune_error, 0))"
| "decode_two b _ = (rune_error, 0)"

fun decode_three :: "nat \<Rightarrow> string \<Rightarrow> nat \<times> nat" where
  "decode_three b (c1 # c2 # _) =
     (if is_cont c1 \<and> is_cont c2 \<and> (b = 224 \<longrightarrow> 160 \<le> byte c1) \<and> (b = 237 \<longrightarrow> byte c1 < 160)
      then ((b mod 16) * 4096 + (byte c1 mod 64) * 64 + byte c2 mod 64, 2)
      else (rune_error, 0))"
| "decode_three b _ = (rune_error, 0)"

fun decode_four :: "nat \<Rightarrow> string \<Rightarrow> nat \<times> nat" where
  "decode_four b (c1 # c2 # c3 # _) =
     (if is_cont c1 \<and> is_cont c2 \<and> is_cont c3 \<and>
         (b = 240 \<longrightarrow> 144 \<le> byte c1) \<and> (b = 244 \<longrightarrow> byte c1 < 144)
      then ((b mod 8) * 262144 + (byte c1 mod 64) * 4096 + (byte c2 mod 64) * 64
              + byte c3 mod 64, 3)
      else (rune_error, 0))"
| "decode_four b _ = (rune_error, 0)"

definition decode_rune :: "char \<Rightarrow> string \<Rightarrow> nat \<times> nat" where
  "decode_rune c cs =
     (if byte c < 128 then (byte c, 0)
      else if 194 \<le> byte c \<and> byte c < 224 then decode_two (byte c) cs
      else if 224 \<le> byte c \<and> byte c < 240 then decode_three (byte c) cs
      else if 240 \<le> byte c \<and> byte c < 245 then decode_four (byte c) cs
      else (rune_error, 0))"

text \<open>The runes of \<open>for _, r := range s\<close>, each with the bytes it was read from.\<close>

fun rune_chunks :: "string \<Rightarrow> (nat \<times> string) list" where
  "rune_chunks [] = []"
| "rune_chunks (c # cs) =
     (let (r, w) = decode_rune c cs in (r, c # take w cs) # rune_chunks (drop w cs))"

definition runes :: "string \<Rightarrow> nat list" where
  "runes s = map fst (rune_chunks s)"

text \<open>A Unicode scalar value: a code point that is not a surrogate.\<close>

definition scalar :: "nat \<Rightarrow> bool" where
  "scalar r \<longleftrightarrow> r < 55296 \<or> (57344 \<le> r \<and> r < 1114112)"

lemma scalar2: "scalar ((b mod 32) * 64 + x mod 64)"
proof -
  have "b mod 32 < 32" "x mod 64 < 64" by simp_all
  then show ?thesis unfolding scalar_def by linarith
qed

lemma scalar3_parts:
  assumes "i = 13 \<Longrightarrow> j < 32" "i < 16" "j < 64" "k < (64::nat)"
  shows "scalar (i * 4096 + j * 64 + k)"
proof -
  consider "i \<le> 12" | "i = 13" | "14 \<le> i" by linarith
  then show ?thesis
  proof cases
    case 1
    with assms(3,4) show ?thesis unfolding scalar_def by linarith
  next
    case 2
    with assms(1,4) show ?thesis unfolding scalar_def by simp
  next
    case 3
    with assms(2-4) show ?thesis unfolding scalar_def by linarith
  qed
qed

lemma scalar4_parts:
  assumes "i = 0 \<Longrightarrow> 16 \<le> j" "i = 4 \<Longrightarrow> j < 16" "i < 5" "j < 64" "k < 64" "l < (64::nat)"
  shows "scalar (i * 262144 + j * 4096 + k * 64 + l)"
proof -
  consider "i = 0" | "i = 4" | "1 \<le> i" "i \<le> 3" using assms(3) by linarith
  then show ?thesis
  proof cases
    case 1
    with assms(1,4-6) show ?thesis unfolding scalar_def by simp
  next
    case 2
    with assms(2,5,6) show ?thesis unfolding scalar_def by simp
  next
    case 3
    with assms(4-6) show ?thesis unfolding scalar_def by linarith
  qed
qed

lemma scalar3:
  assumes "224 \<le> b" "b < 240" "128 \<le> x" "x < 192" "b = 237 \<longrightarrow> x < 160"
  shows "scalar ((b mod 16) * 4096 + (x mod 64) * 64 + y mod 64)"
proof -
  have "b mod 16 = b - 224" by (rule mod_nat_eqI) (use assms(1,2) in auto)
  moreover have "x mod 64 = x - 128" by (rule mod_nat_eqI) (use assms(3,4) in auto)
  moreover have "b - 224 = 13 \<longleftrightarrow> b = 237" using assms(1) by linarith
  ultimately show ?thesis using assms by (intro scalar3_parts) auto
qed

lemma scalar4:
  assumes "240 \<le> b" "b < 245" "128 \<le> x" "x < 192" "b = 240 \<longrightarrow> 144 \<le> x" "b = 244 \<longrightarrow> x < 144"
  shows "scalar ((b mod 8) * 262144 + (x mod 64) * 4096 + (y mod 64) * 64 + z mod 64)"
proof -
  have "b mod 8 = b - 240" by (rule mod_nat_eqI) (use assms(1,2) in auto)
  moreover have "x mod 64 = x - 128" by (rule mod_nat_eqI) (use assms(3,4) in auto)
  ultimately show ?thesis using assms by (intro scalar4_parts) auto
qed

lemma scalar_rune_error [simp]: "scalar rune_error"
  by (simp add: scalar_def rune_error_def)

lemma scalar_ascii: "b < 128 \<Longrightarrow> scalar b"
  by (simp add: scalar_def)

lemma decode_two_scalar: "scalar (fst (decode_two b cs))"
  by (induction b cs rule: decode_two.induct) (simp_all add: scalar2)

lemma decode_three_scalar: "224 \<le> b \<Longrightarrow> b < 240 \<Longrightarrow> scalar (fst (decode_three b cs))"
  by (induction b cs rule: decode_three.induct) (simp_all add: scalar3 is_cont_def)

lemma decode_four_scalar: "240 \<le> b \<Longrightarrow> b < 245 \<Longrightarrow> scalar (fst (decode_four b cs))"
  by (induction b cs rule: decode_four.induct) (simp_all add: scalar4 is_cont_def)

lemma decode_rune_scalar: "scalar (fst (decode_rune c cs))"
  by (simp add: decode_rune_def scalar_ascii decode_two_scalar decode_three_scalar decode_four_scalar)

lemma rune_chunks_scalar: "p \<in> set (rune_chunks s) \<Longrightarrow> scalar (fst p)"
proof (induction s rule: rune_chunks.induct)
  case 1
  then show ?case by simp
next
  case (2 c cs)
  obtain r w where "decode_rune c cs = (r, w)" by fastforce
  with 2 decode_rune_scalar [of c cs] show ?case by auto
qed

lemma runes_scalar: "r \<in> set (runes s) \<Longrightarrow> scalar r"
  using rune_chunks_scalar by (auto simp: runes_def)

lemma rune_chunks_bytes: "concat (map snd (rune_chunks s)) = s"
  by (induction s rule: rune_chunks.induct) (auto split: prod.splits)

lemma runes_Nil [simp]: "runes [] = []"
  by (simp add: runes_def)

lemma runes_ascii: "(\<forall>c \<in> set s. byte c < 128) \<Longrightarrow> runes s = map of_char s"
  by (induction s rule: rune_chunks.induct)
    (auto simp: runes_def decode_rune_def split: prod.splits)

text \<open>\<open>strings.Builder.WriteRune\<close>: the UTF-8 encoding of a rune.\<close>

definition encode_rune :: "nat \<Rightarrow> string" where
  "encode_rune r =
    (if r < 128 then [char_of r]
     else if r < 2048 then [char_of (192 + r div 64), char_of (128 + r mod 64)]
     else if \<not> scalar r then [char_of (239::nat), char_of (191::nat), char_of (189::nat)]
     else if r < 65536 then
       [char_of (224 + r div 4096), char_of (128 + r div 64 mod 64), char_of (128 + r mod 64)]
     else
       [char_of (240 + r div 262144), char_of (128 + r div 4096 mod 64),
        char_of (128 + r div 64 mod 64), char_of (128 + r mod 64)])"

section \<open>Package strings\<close>

definition is_space_rune :: "nat \<Rightarrow> bool" where
  "is_space_rune r \<longleftrightarrow> (9 \<le> r \<and> r \<le> 13) \<or> r = 32 \<or> r = 133 \<or> r = 160 \<or> r = 5760
     \<or> (8192 \<le> r \<and> r \<le> 8202) \<or> r = 8232 \<or> r = 8233 \<or> r = 8239 \<or> r = 8287 \<or> r = 12288"

text \<open>\<open>strings.TrimSpace\<close> and \<open>strings.Fields\<close> cut at Unicode white space.\<close>

definition trim_space :: "string \<Rightarrow> string" where
  "trim_space s =
     concat (map snd (rev (dropWhile (is_space_rune \<circ> fst)
       (rev (dropWhile (is_space_rune \<circ> fst) (rune_chunks s))))))"

definition has_prefix :: "string \<Rightarrow> string \<Rightarrow> bool" where
  "has_prefix s p \<longleftrightarrow> take (length p) s = p"

definition has_suffix :: "string \<Rightarrow> string \<Rightarrow> bool" where
  "has_suffix s p \<longleftrightarrow> length p \<le> length s \<and> drop (length s - length p) s = p"

definition trim_prefix :: "string \<Rightarrow> string \<Rightarrow> string" where
  "trim_prefix s p = (if has_prefix s p then drop (length p) s else s)"

definition trim_suffix :: "string \<Rightarrow> string \<Rightarrow> string" where
  "trim_suffix s p = (if has_suffix s p then take (length s - length p) s else s)"

definition trim_right_char :: "char \<Rightarrow> string \<Rightarrow> string" where
  "trim_right_char c s = rev (dropWhile (\<lambda>x. x = c) (rev s))"

definition contains_any :: "string \<Rightarrow> string \<Rightarrow> bool" where
  "contains_any s cs \<longleftrightarrow> list_ex (\<lambda>c. c \<in> set cs) s"

fun str_index :: "string \<Rightarrow> string \<Rightarrow> nat option" where
  "str_index [] p = (if p = [] then Some 0 else None)"
| "str_index (c # cs) p =
     (if has_prefix (c # cs) p then Some 0 else map_option Suc (str_index cs p))"

definition str_contains :: "string \<Rightarrow> string \<Rightarrow> bool" where
  "str_contains s p \<longleftrightarrow> str_index s p \<noteq> None"

fun index_byte :: "string \<Rightarrow> char \<Rightarrow> nat option" where
  "index_byte [] c = None"
| "index_byte (x # xs) c = (if x = c then Some 0 else map_option Suc (index_byte xs c))"

text \<open>\<open>strings.Split(s, sep)\<close> for a one-byte separator, and \<open>strings.Join\<close>.\<close>

fun split_on :: "char \<Rightarrow> string \<Rightarrow> string list" where
  "split_on c [] = [[]]"
| "split_on c (x # xs) =
     (if x = c then [] # split_on c xs
      else case split_on c xs of [] \<Rightarrow> [[x]] | w # ws \<Rightarrow> (x # w) # ws)"

fun join_with :: "string \<Rightarrow> string list \<Rightarrow> string" where
  "join_with sep [] = []"
| "join_with sep [w] = w"
| "join_with sep (w # v # vs) = w @ sep @ join_with sep (v # vs)"

definition ascii_lower_byte :: "char \<Rightarrow> char" where
  "ascii_lower_byte c = (if 65 \<le> byte c \<and> byte c \<le> 90 then char_of (byte c + 32) else c)"

definition ascii_upper_byte :: "char \<Rightarrow> char" where
  "ascii_upper_byte c = (if 97 \<le> byte c \<and> byte c \<le> 122 then char_of (byte c - 32) else c)"

text \<open>
  \<open>strings.ToLower\<close> and \<open>strings.ToUpper\<close>. Their Unicode case tables are data of
  the standard library: bytes from 128 up are left as they are.
\<close>

definition to_lower :: "string \<Rightarrow> string" where
  "to_lower s = map ascii_lower_byte s"

definition to_upper :: "string \<Rightarrow> string" where
  "to_upper s = map ascii_upper_byte s"

definition equal_fold :: "string \<Rightarrow> string \<Rightarrow> bool" where
  "equal_fold s t \<longleftrightarrow> to_lower s = to_lower t"

lemma split_on_not_Nil [simp]: "split_on c s \<noteq> []"
  by (induction s) (auto split: list.splits)

lemma join_split [simp]: "join_with [c] (split_on c s) = s"
proof (induction s)
  case Nil
  then show ?case by simp
next
  case (Cons x xs)
  obtain w ws where w: "split_on c xs = w # ws"
    by (cases "split_on c xs") auto
  with Cons show ?case by (cases ws) auto
qed

lemma trim_space_Nil [simp]: "trim_space [] = []"
  by (simp add: trim_space_def)

text \<open>On ASCII text the white space is cut byte by byte.\<close>

lemma rune_chunks_ascii:
  "(\<forall>c \<in> set s. byte c < 128) \<Longrightarrow> rune_chunks s = map (\<lambda>c. (byte c, [c])) s"
  by (induction s rule: rune_chunks.induct) (auto simp: decode_rune_def split: prod.splits)

lemma trim_space_ascii:
  assumes "\<forall>c \<in> set s. byte c < 128"
  shows "trim_space s = rev (dropWhile (\<lambda>c. is_space_rune (byte c))
    (rev (dropWhile (\<lambda>c. is_space_rune (byte c)) s)))"
proof -
  have drop: "dropWhile (\<lambda>x. is_space_rune (fst x)) (map (\<lambda>c. (byte c, [c])) t) =
      map (\<lambda>c. (byte c, [c])) (dropWhile (\<lambda>c. is_space_rune (byte c)) t)" for t
    by (simp add: dropWhile_map comp_def)
  have bytes: "concat (map snd (map (\<lambda>c. (byte c, [c])) t)) = t" for t
    by (induction t) simp_all
  show ?thesis
    unfolding trim_space_def rune_chunks_ascii [OF assms] comp_def drop rev_map bytes ..
qed

lemma has_prefix_append [simp]: "has_prefix (p @ s) p"
  by (simp add: has_prefix_def)

lemma str_index_Some:
  "str_index s p = Some i \<Longrightarrow> i + length p \<le> length s \<and> take (length p) (drop i s) = p"
proof (induction s arbitrary: i)
  case Nil
  then show ?case by (auto split: if_splits)
next
  case (Cons c cs)
  show ?case
  proof (cases "has_prefix (c # cs) p")
    case True
    then have "length p \<le> length (c # cs)"
      by (metis has_prefix_def length_take min.absorb_iff2)
    with True Cons.prems show ?thesis by (auto simp: has_prefix_def)
  next
    case False
    with Cons show ?thesis by auto
  qed
qed

end
