(* ===== verification/Go_Numbers.thy ===== *)
theory Go_Numbers
  imports Go_Strings Complex_Main
begin

text \<open>
  Numbers as the Go program reads and prints them: decimal integers of \<open>strconv\<close> with
  the \<open>int64\<close> range, IEEE 754 binary64 values with round-to-nearest-even, decimal
  literals (\<open>strconv.ParseFloat\<close>), and Python's \<open>round\<close> (\<open>pyRound\<close> of
  \<open>core/jsonv.go\<close>). Literals with a base prefix or digit separators are not in the
  grammar of JSON tokens or Python numbers and are read as syntax errors here.
\<close>

section \<open>Integers\<close>

definition digit_char :: "nat \<Rightarrow> char" where
  "digit_char d = char_of (48 + d)"

definition is_digit :: "char \<Rightarrow> bool" where
  "is_digit c \<longleftrightarrow> 48 \<le> byte c \<and> byte c \<le> 57"

definition digit_val :: "char \<Rightarrow> nat" where
  "digit_val c = byte c - 48"

fun show_nat :: "nat \<Rightarrow> string" where
  "show_nat n = (if n < 10 then [digit_char n] else show_nat (n div 10) @ [digit_char (n mod 10)])"

declare show_nat.simps [simp del]

text \<open>\<open>strconv.FormatInt(n, 10)\<close>.\<close>

definition itoa :: "int \<Rightarrow> string" where
  "itoa n = (if n < 0 then ''-'' @ show_nat (nat (- n)) else show_nat (nat n))"

definition int_of_digits :: "string \<Rightarrow> int" where
  "int_of_digits s = foldl (\<lambda>acc c. acc * 10 + int (digit_val c)) 0 s"

definition max_int64 :: int where "max_int64 = 9223372036854775807"
definition min_int64 :: int where "min_int64 = - 9223372036854775808"

text \<open>Go's \<open>int64\<close> arithmetic wraps.\<close>

definition wrap64 :: "int \<Rightarrow> int" where
  "wrap64 n = (n + 2 ^ 63) mod 2 ^ 64 - 2 ^ 63"

lemma wrap64_id: "- (2 ^ 63) \<le> n \<Longrightarrow> n < 2 ^ 63 \<Longrightarrow> wrap64 n = n"
  by (simp add: wrap64_def)

lemma wrap64_small: "0 \<le> n \<Longrightarrow> n < 2 ^ 63 \<Longrightarrow> wrap64 n = n"
  by (simp add: wrap64_id)

text \<open>
  \<open>strconv.ParseInt(s, 10, 64)\<close>: the value and whether the error is nil. A syntax
  error reads as 0, a value out of range as the nearest bound.
\<close>

definition split_sign :: "string \<Rightarrow> bool \<times> string" where
  "split_sign s = (case s of
      c # cs \<Rightarrow> if c = CHR ''-'' then (True, cs) else if c = CHR ''+'' then (False, cs) else (False, s)
    | [] \<Rightarrow> (False, s))"

definition parse_int64 :: "string \<Rightarrow> int \<times> bool" where
  "parse_int64 s =
     (let (neg, ds) = split_sign s in
      if ds = [] \<or> \<not> list_all is_digit ds then (0, False)
      else let n = (if neg then - int_of_digits ds else int_of_digits ds) in
        if n > max_int64 then (max_int64, False)
        else if n < min_int64 then (min_int64, False)
        else (n, True))"

lemma digit_char_props [simp]:
  "d < 10 \<Longrightarrow> is_digit (digit_char d)"
  "d < 10 \<Longrightarrow> digit_val (digit_char d) = d"
  by (auto simp: digit_char_def is_digit_def digit_val_def)

lemma digit_not_sign: "is_digit c \<Longrightarrow> c \<noteq> CHR ''-'' \<and> c \<noteq> CHR ''+''"
  by (auto simp: is_digit_def)

lemma show_nat_not_Nil [simp]: "show_nat n \<noteq> []"
  by (subst show_nat.simps) simp

lemma show_nat_digits: "list_all is_digit (show_nat n)"
proof (induction n rule: show_nat.induct)
  case (1 n)
  then show ?case
    by (subst show_nat.simps) (auto simp: list_all_iff)
qed

lemma int_of_digits_snoc: "int_of_digits (s @ [c]) = int_of_digits s * 10 + int (digit_val c)"
  by (simp add: int_of_digits_def)

lemma int_of_digits_show [simp]: "int_of_digits (show_nat n) = int n"
proof (induction n rule: show_nat.induct)
  case (1 n)
  show ?case
  proof (cases "n < 10")
    case True
    then show ?thesis by (subst show_nat.simps) (simp add: int_of_digits_def)
  next
    case False
    have "int (n div 10) * 10 + int (n mod 10) = int n" by presburger
    with False 1 show ?thesis by (subst show_nat.simps) (simp add: int_of_digits_snoc)
  qed
qed

lemma split_sign_show_nat [simp]: "split_sign (show_nat n) = (False, show_nat n)"
proof (cases "show_nat n")
  case Nil
  then show ?thesis by simp
next
  case (Cons c cs)
  with show_nat_digits [of n] have "is_digit c" by simp
  with Cons digit_not_sign show ?thesis by (auto simp: split_sign_def)
qed

lemma parse_int64_itoa:
  assumes "min_int64 \<le> n" "n \<le> max_int64"
  shows "parse_int64 (itoa n) = (n, True)"
proof (cases "n < 0")
  case True
  have "split_sign (itoa n) = (True, show_nat (nat (- n)))"
    using True by (simp add: itoa_def split_sign_def)
  with True assms show ?thesis
    by (simp add: parse_int64_def show_nat_digits)
next
  case False
  with assms show ?thesis
    by (simp add: parse_int64_def itoa_def show_nat_digits)
qed

lemma itoa_no_float_chars: "\<not> contains_any (itoa n) ''.eE''"
proof -
  have "\<not> list_ex (\<lambda>c. c \<in> set ''.eE'') (show_nat k)" for k
    using show_nat_digits [of k] by (auto simp: list_ex_iff list_all_iff is_digit_def)
  then show ?thesis by (auto simp: contains_any_def itoa_def)
qed

definition digits_value :: "string \<Rightarrow> int" where
  "digits_value s = (let (neg, ds) = split_sign s in
     if neg then - int_of_digits ds else int_of_digits ds)"

lemma digits_value_itoa [simp]: "digits_value (itoa n) = n"
proof (cases "n < 0")
  case True
  then have "split_sign (itoa n) = (True, show_nat (nat (- n)))"
    by (simp add: itoa_def split_sign_def)
  with True show ?thesis by (simp add: digits_value_def)
next
  case False
  then show ?thesis by (simp add: itoa_def digits_value_def)
qed

lemma itoa_inj: "itoa m = itoa n \<Longrightarrow> m = n"
  by (metis digits_value_itoa)

section \<open>Binary64\<close>

text \<open>
  A finite value is a sign and a magnitude; \<open>round64\<close> rounds an exact rational to the
  nearest representable value, ties to even, with gradual underflow at \<open>2^-1074\<close> and
  overflow to infinity at \<open>2^1024\<close>.
\<close>

datatype float64 = Fin bool rat | Inf bool | NaN

definition pow2 :: "int \<Rightarrow> rat" where
  "pow2 k = (if 0 \<le> k then 2 ^ nat k else 1 / 2 ^ nat (- k))"

fun bit_length :: "int \<Rightarrow> int" where
  "bit_length n = (if n \<le> 0 then 0 else 1 + bit_length (n div 2))"

declare bit_length.simps [simp del]

definition floor_log2 :: "rat \<Rightarrow> int" where
  "floor_log2 x =
     (let (n, d) = quotient_of x; k = bit_length n - bit_length d in
      if pow2 k \<le> x then k else k - 1)"

definition round_half_even :: "rat \<Rightarrow> int" where
  "round_half_even x =
     (let f = \<lfloor>x\<rfloor>; r = x - of_int f in
      if r < 1 / 2 then f else if r > 1 / 2 then f + 1 else if even f then f else f + 1)"

definition round_mag :: "rat \<Rightarrow> rat" where
  "round_mag x =
     (if x = 0 then 0
      else let e = max (floor_log2 x - 52) (- 1074) in
        of_int (round_half_even (x / pow2 e)) * pow2 e)"

definition round64 :: "bool \<Rightarrow> rat \<Rightarrow> float64" where
  "round64 neg x = (let m = round_mag x in if m \<ge> pow2 1024 then Inf neg else Fin neg m)"

fun float_val :: "float64 \<Rightarrow> rat" where
  "float_val (Fin neg m) = (if neg then - m else m)"
| "float_val _ = 0"

definition float_of_rat :: "rat \<Rightarrow> float64" where
  "float_of_rat x = round64 (x < 0) \<bar>x\<bar>"

fun float_mult :: "float64 \<Rightarrow> float64 \<Rightarrow> float64" where
  "float_mult (Fin s m) (Fin t n) = round64 (s \<noteq> t) (m * n)"
| "float_mult (Fin s m) (Inf t) = (if m = 0 then NaN else Inf (s \<noteq> t))"
| "float_mult (Inf s) (Fin t n) = (if n = 0 then NaN else Inf (s \<noteq> t))"
| "float_mult (Inf s) (Inf t) = Inf (s \<noteq> t)"
| "float_mult _ _ = NaN"

text \<open>Go's \<open><\<close> and \<open>==\<close> on \<open>float64\<close>: every comparison with NaN is false.\<close>

fun float_less :: "float64 \<Rightarrow> float64 \<Rightarrow> bool" where
  "float_less (Fin s m) (Fin t n) \<longleftrightarrow> float_val (Fin s m) < float_val (Fin t n)"
| "float_less (Fin s m) (Inf t) \<longleftrightarrow> \<not> t"
| "float_less (Inf s) (Fin t n) \<longleftrightarrow> s"
| "float_less (Inf s) (Inf t) \<longleftrightarrow> s \<and> \<not> t"
| "float_less _ _ \<longleftrightarrow> False"

fun float_eq :: "float64 \<Rightarrow> float64 \<Rightarrow> bool" where
  "float_eq (Fin s m) (Fin t n) \<longleftrightarrow> float_val (Fin s m) = float_val (Fin t n)"
| "float_eq (Inf s) (Inf t) \<longleftrightarrow> s = t"
| "float_eq _ _ \<longleftrightarrow> False"

fun is_finite :: "float64 \<Rightarrow> bool" where
  "is_finite (Fin s m) = True"
| "is_finite _ = False"

text \<open>
  \<open>int64(f)\<close>: truncation towards zero. Go leaves the conversion of a value out of range
  to the platform; on amd64 it is the smallest \<open>int64\<close>.
\<close>

definition rat_trunc :: "rat \<Rightarrow> int" where
  "rat_trunc x = (if x < 0 then - \<lfloor>- x\<rfloor> else \<lfloor>x\<rfloor>)"

fun float_to_int64 :: "float64 \<Rightarrow> int" where
  "float_to_int64 (Fin s m) =
     (let n = rat_trunc (float_val (Fin s m)) in
      if n > max_int64 \<or> n < min_int64 then min_int64 else n)"
| "float_to_int64 _ = min_int64"

section \<open>Decimal literals\<close>

text \<open>
  \<open>strconv.ParseFloat(s, 64)\<close>: the value with \<open>Float_Ok\<close>, \<open>Float_Range\<close> with the
  infinity on overflow, or \<open>Float_Syntax\<close>.
\<close>

datatype float_err = Float_Ok | Float_Range | Float_Syntax

fun take_digits :: "string \<Rightarrow> string \<times> string" where
  "take_digits [] = ([], [])"
| "take_digits (c # cs) =
     (if is_digit c then let (ds, r) = take_digits cs in (c # ds, r) else ([], c # cs))"

definition pow10 :: "int \<Rightarrow> rat" where
  "pow10 k = (if 0 \<le> k then 10 ^ nat k else 1 / 10 ^ nat (- k))"

definition parse_decimal :: "string \<Rightarrow> rat option" where
  "parse_decimal s =
     (let (ip, r1) = take_digits s;
          (fp, r2) = (case r1 of c # cs \<Rightarrow> if c = CHR ''.'' then take_digits cs else ([], r1) | [] \<Rightarrow> ([], []))
      in if ip = [] \<and> fp = [] then None
      else let m = of_int (int_of_digits (ip @ fp)) in
        (case r2 of
           [] \<Rightarrow> Some (m * pow10 (- int (length fp)))
         | c # cs \<Rightarrow>
             if c = CHR ''e'' \<or> c = CHR ''E'' then
               (let (neg, ds) = split_sign cs in
                if ds = [] \<or> \<not> list_all is_digit ds then None
                else let e = int_of_digits ds in
                  Some (m * pow10 ((if neg then - e else e) - int (length fp))))
             else None))"

definition parse_float :: "string \<Rightarrow> float64 \<times> float_err" where
  "parse_float s =
     (let (neg, r) = split_sign s; low = to_lower r in
      if low = ''inf'' \<or> low = ''infinity'' then (Inf neg, Float_Ok)
      else if to_lower s = ''nan'' then (NaN, Float_Ok)
      else case parse_decimal r of
        None \<Rightarrow> (Fin False 0, Float_Syntax)
      | Some x \<Rightarrow>
          (case round64 neg x of Inf b \<Rightarrow> (Inf b, Float_Range) | f \<Rightarrow> (f, Float_Ok)))"

text \<open>
  \<open>pyRound\<close>: Python's \<open>round\<close> to an integer, ties to even. The fraction of a
  float is exact, so the test against one half is too.
\<close>

fun pyRound :: "float64 \<Rightarrow> int" where
  "pyRound (Fin s m) =
     (let f = float_val (Fin s m); i = float_to_int64 (Fin s m); frac = \<bar>f - of_int (rat_trunc f)\<bar> in
      if frac > 1 / 2 \<or> (frac = 1 / 2 \<and> go_mod i 2 \<noteq> 0)
      then (if f \<ge> 0 then i + 1 else i - 1) else i)"
| "pyRound _ = min_int64"

lemma rat_trunc_of_int [simp]: "rat_trunc (of_int n) = n"
proof (cases "n < 0")
  case True
  have "- (of_int n :: rat) = of_int (- n)" by simp
  with True show ?thesis unfolding rat_trunc_def by (simp del: of_int_minus)
next
  case False
  then show ?thesis by (simp add: rat_trunc_def)
qed

lemma pyRound_of_int:
  "min_int64 \<le> n \<Longrightarrow> n \<le> max_int64 \<Longrightarrow> float_val (Fin s m) = of_int n \<Longrightarrow> pyRound (Fin s m) = n"
  by (simp add: Let_def)

text \<open>Integers of at most 53 bits are floats.\<close>

lemma round_half_even_of_int: "round_half_even (of_int k) = k"
  by (simp add: round_half_even_def Let_def)

lemma round_mag_int:
  assumes "0 < n" and "floor_log2 (of_int n) \<le> 52"
  shows "round_mag (of_int n) = of_int n"
proof -
  define e where "e = max (floor_log2 (of_int n) - 52) (- 1074)"
  define k where "k = nat (- e)"
  have "e \<le> 0" using assms by (simp add: e_def)
  then have e: "pow2 e = 1 / 2 ^ k" by (auto simp: pow2_def k_def)
  have "(of_int n :: rat) / pow2 e = of_int (n * 2 ^ k)" by (simp add: e)
  then have "of_int (round_half_even (of_int n / pow2 e)) * pow2 e = (of_int n :: rat)"
    by (simp only: round_half_even_of_int) (simp add: e)
  then show ?thesis
    using assms by (simp add: round_mag_def Let_def e_def)
qed

end
