(* ===== verification/Json_Values.thy ===== *)
theory Json_Values
  imports Go_Numbers
begin

text \<open>
  The ordered JSON values of \<open>core/jsonv.go\<close>: the value type, object access and
  update in Python dict order, Python truth and text conversions, equality, and the three
  serialisers. The text of a number is kept as the token that was read.
\<close>

section \<open>Values\<close>

datatype jVal =
    JNull
  | JBool bool
  | JNum string
  | JStr string
  | JArr "jVal list"
  | JObj "(string \<times> jVal) list"

fun is_obj :: "jVal \<Rightarrow> bool" where
  "is_obj (JObj ps) = True"
| "is_obj _ = False"

fun is_arr :: "jVal \<Rightarrow> bool" where
  "is_arr (JArr xs) = True"
| "is_arr _ = False"

fun is_str :: "jVal \<Rightarrow> bool" where
  "is_str (JStr s) = True"
| "is_str _ = False"

fun is_bool :: "jVal \<Rightarrow> bool" where
  "is_bool (JBool b) = True"
| "is_bool _ = False"

text \<open>The Go struct fields \<open>arr\<close>, \<open>obj\<close> and \<open>s\<close>, which are zero for other kinds.\<close>

fun arr_of :: "jVal \<Rightarrow> jVal list" where
  "arr_of (JArr xs) = xs"
| "arr_of _ = []"

fun obj_of :: "jVal \<Rightarrow> (string \<times> jVal) list" where
  "obj_of (JObj ps) = ps"
| "obj_of _ = []"

fun str_of :: "jVal \<Rightarrow> string" where
  "str_of (JStr s) = s"
| "str_of _ = []"

section \<open>Objects\<close>

text \<open>\<open>get\<close>, \<open>has\<close>, \<open>set\<close> and \<open>mergeObjects\<close>, over the pairs of an object.\<close>

fun pairs_get :: "(string \<times> jVal) list \<Rightarrow> string \<Rightarrow> jVal option" where
  "pairs_get [] k = None"
| "pairs_get ((k', v) # ps) k = (if k' = k then Some v else pairs_get ps k)"

fun pairs_set :: "string \<Rightarrow> jVal \<Rightarrow> (string \<times> jVal) list \<Rightarrow> (string \<times> jVal) list" where
  "pairs_set k v [] = [(k, v)]"
| "pairs_set k v ((k', v') # ps) =
     (if k' = k then (k', v) # ps else (k', v') # pairs_set k v ps)"

definition jget :: "jVal \<Rightarrow> string \<Rightarrow> jVal" where
  "jget v k = (case v of
      JObj ps \<Rightarrow> (case pairs_get ps k of Some x \<Rightarrow> x | None \<Rightarrow> JNull)
    | _ \<Rightarrow> JNull)"

definition jhas :: "jVal \<Rightarrow> string \<Rightarrow> bool" where
  "jhas v k = (case v of JObj ps \<Rightarrow> pairs_get ps k \<noteq> None | _ \<Rightarrow> False)"

definition jset :: "jVal \<Rightarrow> string \<Rightarrow> jVal \<Rightarrow> jVal" where
  "jset v k x = (case v of JObj ps \<Rightarrow> JObj (pairs_set k x ps) | _ \<Rightarrow> v)"

definition mergeObjects :: "jVal \<Rightarrow> jVal \<Rightarrow> jVal" where
  "mergeObjects a b = fold (\<lambda>(k, x) r. jset r k x) (obj_of b) (JObj (obj_of a))"

text \<open>
  An insertion-ordered dictionary: what a client of \<open>set\<close> may rely on. The code has two
  providers, the pair list of a JSON object and the indexed map of the links cache.
\<close>

locale ordered_dict =
  fixes lookup :: "'d \<Rightarrow> 'k \<Rightarrow> 'v option"
    and update :: "'k \<Rightarrow> 'v \<Rightarrow> 'd \<Rightarrow> 'd"
    and key_list :: "'d \<Rightarrow> 'k list"
    and wf :: "'d \<Rightarrow> bool"
  assumes lookup_update: "wf d \<Longrightarrow> lookup (update k v d) = (lookup d)(k \<mapsto> v)"
    and keys_update: "wf d \<Longrightarrow>
      key_list (update k v d) = (if k \<in> set (key_list d) then key_list d else key_list d @ [k])"
    and dom_lookup: "wf d \<Longrightarrow> dom (lookup d) = set (key_list d)"
    and wf_update: "wf d \<Longrightarrow> wf (update k v d)"
begin

definition update_all :: "('k \<times> 'v) list \<Rightarrow> 'd \<Rightarrow> 'd" where
  "update_all ps d = fold (\<lambda>(k, v). update k v) ps d"

lemma update_all_simps [simp]:
  "update_all [] d = d"
  "update_all ((k, v) # ps) d = update_all ps (update k v d)"
  by (simp_all add: update_all_def)

lemma wf_update_all: "wf d \<Longrightarrow> wf (update_all ps d)"
  by (induction ps arbitrary: d) (auto simp: wf_update)

text \<open>The last write of a key wins; other keys keep their value.\<close>

lemma lookup_update_all: "wf d \<Longrightarrow> lookup (update_all ps d) = lookup d ++ map_of (rev ps)"
proof (induction ps arbitrary: d)
  case Nil
  then show ?case by simp
next
  case (Cons p ps)
  obtain k v where p: "p = (k, v)" by fastforce
  with Cons have "lookup (update_all (p # ps) d) = (lookup d)(k \<mapsto> v) ++ map_of (rev ps)"
    by (simp add: wf_update lookup_update fun_upd_def)
  also have "\<dots> = lookup d ++ map_of (rev (p # ps))"
    by (simp add: p map_add_def fun_eq_iff split: option.splits)
  finally show ?case .
qed

lemma distinct_update_all:
  "wf d \<Longrightarrow> distinct (key_list d) \<Longrightarrow> distinct (key_list (update_all ps d))"
  by (induction ps arbitrary: d) (auto simp: wf_update keys_update)

text \<open>Existing keys keep their position; new keys follow in order of first write.\<close>

lemma keys_update_all_prefix:
  "wf d \<Longrightarrow> \<exists>ks. key_list (update_all ps d) = key_list d @ ks \<and> set ks \<inter> set (key_list d) = {}
     \<and> set (key_list d) \<union> set ks = set (key_list d) \<union> fst ` set ps"
proof (induction ps arbitrary: d)
  case Nil
  then show ?case by simp
next
  case (Cons p ps)
  obtain k v where p: "p = (k, v)" by fastforce
  from Cons.prems have "wf (update k v d)" by (rule wf_update)
  from Cons.IH [OF this] obtain ks where
    ks: "key_list (update_all ps (update k v d)) = key_list (update k v d) @ ks"
      "set ks \<inter> set (key_list (update k v d)) = {}"
      "set (key_list (update k v d)) \<union> set ks = set (key_list (update k v d)) \<union> fst ` set ps"
    by blast
  show ?case
  proof (cases "k \<in> set (key_list d)")
    case True
    with ks Cons.prems show ?thesis by (auto simp: p keys_update)
  next
    case False
    with Cons.prems have "key_list (update k v d) = key_list d @ [k]"
      by (simp add: keys_update)
    with ks False show ?thesis by (intro exI [of _ "k # ks"]) (auto simp: p)
  qed
qed

end

lemma pairs_get_map_of: "pairs_get ps = map_of ps"
  by (rule ext, rename_tac k, induct_tac ps) auto

lemma map_of_pairs_set: "map_of (pairs_set k v ps) = (map_of ps)(k \<mapsto> v)"
  by (induction ps) (auto simp: fun_eq_iff)

lemma keys_pairs_set:
  "map fst (pairs_set k v ps) = (if k \<in> fst ` set ps then map fst ps else map fst ps @ [k])"
  by (induction ps) (auto simp: image_iff split: if_splits)

interpretation pair_dict: ordered_dict pairs_get pairs_set "map fst" "\<lambda>_. True"
  by unfold_locales
    (simp_all add: pairs_get_map_of map_of_pairs_set keys_pairs_set dom_map_of_conv_image_fst)

lemma mergeObjects_pairs: "mergeObjects a b = JObj (pair_dict.update_all (obj_of b) (obj_of a))"
proof -
  have "fold (\<lambda>(k, x) r. jset r k x) qs (JObj ps) = JObj (pair_dict.update_all qs ps)" for qs ps
    by (induction qs arbitrary: ps) (auto simp: jset_def)
  then show ?thesis by (simp add: mergeObjects_def)
qed

lemma jget_JObj: "jget (JObj ps) k = (case map_of ps k of Some x \<Rightarrow> x | None \<Rightarrow> JNull)"
  by (simp add: jget_def pairs_get_map_of)

lemma jhas_JObj: "jhas (JObj ps) k \<longleftrightarrow> k \<in> fst ` set ps"
  by (simp add: jhas_def pairs_get_map_of map_of_eq_None_iff)

lemma jhas_is_obj: "jhas v k \<Longrightarrow> is_obj v"
  by (cases v) (auto simp: jhas_def)

lemma jget_not_obj [simp]: "\<not> is_obj v \<Longrightarrow> jget v k = JNull"
  by (cases v) (auto simp: jget_def)

lemma jget_jhas: "jget v k \<noteq> JNull \<Longrightarrow> jhas v k"
  by (cases v) (auto simp: jget_def jhas_def split: option.splits)

lemma mergeObjects_get:
  assumes "distinct (map fst (obj_of b))"
  shows "jget (mergeObjects a b) k = (if jhas b k then jget b k else jget (JObj (obj_of a)) k)"
proof -
  have rev: "map_of (rev (obj_of b)) = map_of (obj_of b)"
    by (rule map_of_eqI) (use assms in \<open>auto simp: rev_map [symmetric]\<close>)
  have "map_of (pair_dict.update_all (obj_of b) (obj_of a)) = map_of (obj_of a) ++ map_of (obj_of b)"
    using pair_dict.lookup_update_all [of "obj_of b" "obj_of a"] by (simp add: pairs_get_map_of rev)
  then show ?thesis
    by (cases b) (auto simp: mergeObjects_pairs jget_JObj jhas_def pairs_get_map_of map_add_def jget_def
        split: option.splits)
qed


section \<open>Python conversions\<close>

text \<open>\<open>truthy\<close>: an unparsable number counts as true.\<close>

fun truthy :: "jVal \<Rightarrow> bool" where
  "truthy JNull = False"
| "truthy (JBool b) = b"
| "truthy (JNum t) = (let (f, e) = parse_float t in e \<noteq> Float_Ok \<or> \<not> float_eq f (Fin False 0))"
| "truthy (JStr s) = (s \<noteq> [])"
| "truthy (JArr xs) = (xs \<noteq> [])"
| "truthy (JObj ps) = (ps \<noteq> [])"

definition is_float_token :: "string \<Rightarrow> bool" where
  "is_float_token t \<longleftrightarrow> contains_any t ''.eE''"

fun kindName :: "jVal \<Rightarrow> string" where
  "kindName (JObj ps) = ''dict''"
| "kindName (JArr xs) = ''list''"
| "kindName (JStr s) = ''str''"
| "kindName (JBool b) = ''bool''"
| "kindName JNull = ''NoneType''"
| "kindName (JNum t) = (if is_float_token t then ''float'' else ''int'')"

definition jvInt :: "int \<Rightarrow> jVal" where
  "jvInt n = JNum (itoa n)"

section \<open>Equality\<close>

fun deepEqual :: "jVal \<Rightarrow> jVal \<Rightarrow> bool"
  and deepEqual_list :: "jVal list \<Rightarrow> jVal list \<Rightarrow> bool"
  and deepEqual_pairs :: "(string \<times> jVal) list \<Rightarrow> jVal \<Rightarrow> bool" where
  "deepEqual JNull b = (b = JNull)"
| "deepEqual (JBool x) b = (case b of JBool y \<Rightarrow> x = y | _ \<Rightarrow> False)"
| "deepEqual (JNum x) b = (case b of JNum y \<Rightarrow> x = y | _ \<Rightarrow> False)"
| "deepEqual (JStr x) b = (case b of JStr y \<Rightarrow> x = y | _ \<Rightarrow> False)"
| "deepEqual (JArr xs) b =
     (case b of JArr ys \<Rightarrow> length xs = length ys \<and> deepEqual_list xs ys | _ \<Rightarrow> False)"
| "deepEqual (JObj ps) b =
     (case b of JObj qs \<Rightarrow> length ps = length qs \<and> deepEqual_pairs ps b | _ \<Rightarrow> False)"
| "deepEqual_list [] ys = True"
| "deepEqual_list (x # xs) ys =
     (case ys of [] \<Rightarrow> True | y # ys' \<Rightarrow> deepEqual x y \<and> deepEqual_list xs ys')"
| "deepEqual_pairs [] b = True"
| "deepEqual_pairs (p # ps) b = (deepEqual (snd p) (jget b (fst p)) \<and> deepEqual_pairs ps b)"

section \<open>Serialisation\<close>

definition hex_digit :: "nat \<Rightarrow> char" where
  "hex_digit d = (if d < 10 then char_of (48 + d) else char_of (87 + d))"

text \<open>The verb \<open>%04x\<close>, for values below \<open>0x10000\<close>.\<close>

definition hex4 :: "nat \<Rightarrow> string" where
  "hex4 n = [hex_digit (n div 4096 mod 16), hex_digit (n div 256 mod 16),
             hex_digit (n div 16 mod 16), hex_digit (n mod 16)]"

definition backslash :: char where "backslash = CHR 0x5C"
definition dquote :: char where "dquote = CHR 0x22"

definition unicode_escape :: "nat \<Rightarrow> string" where
  "unicode_escape n = [backslash, CHR ''u''] @ hex4 n"

definition short_escape :: "nat \<Rightarrow> char option" where
  "short_escape r =
    (if r = 34 then Some dquote
     else if r = 92 then Some backslash
     else if r = 8 then Some (CHR ''b'')
     else if r = 9 then Some (CHR ''t'')
     else if r = 10 then Some (CHR ''n'')
     else if r = 12 then Some (CHR ''f'')
     else if r = 13 then Some (CHR ''r'')
     else None)"

definition escape_rune :: "nat \<Rightarrow> string" where
  "escape_rune r =
    (case short_escape r of
       Some c \<Rightarrow> [backslash, c]
     | None \<Rightarrow>
        if r < 32 then unicode_escape r
        else if r < 128 then encode_rune r
        else if r \<le> 65535 then unicode_escape r
        else unicode_escape (55296 + (r - 65536) div 1024)
               @ unicode_escape (56320 + (r - 65536) mod 1024))"

definition writeJSONString :: "string \<Rightarrow> string" where
  "writeJSONString s = [dquote] @ concat (map escape_rune (runes s)) @ [dquote]"

definition escape_rune_raw :: "nat \<Rightarrow> string" where
  "escape_rune_raw r =
    (case short_escape r of
       Some c \<Rightarrow> [backslash, c]
     | None \<Rightarrow> if r < 32 then unicode_escape r else encode_rune r)"

definition writeJSONStringRaw :: "string \<Rightarrow> string" where
  "writeJSONStringRaw s = [dquote] @ concat (map escape_rune_raw (runes s)) @ [dquote]"

text \<open>
  \<open>strconv.FormatFloat(x, 'e', -1, 64)\<close> of a positive \<open>x\<close>: the fewest significant
  digits that read back as \<open>x\<close>, and the decimal exponent.
\<close>

definition floor_log10 :: "rat \<Rightarrow> int" where
  "floor_log10 x =
     (let k = (floor_log2 x * 30103) div 100000 in
      if pow10 (k + 1) \<le> x then k + 1 else if pow10 k \<le> x then k else k - 1)"

definition digits_candidate :: "rat \<Rightarrow> nat \<Rightarrow> (int \<times> int) option" where
  "digits_candidate x n =
     (let k = floor_log10 x; sc = pow10 (int n - 1 - k); y = x * sc; lo = \<lfloor>y\<rfloor>;
          good = (\<lambda>c. round_mag (of_int c / sc) = x);
          fit = (\<lambda>c. if c = 10 ^ n then (10 ^ (n - 1), k + 1) else (c, k))
      in if good lo \<and> (\<not> good (lo + 1) \<or> y - of_int lo \<le> 1 / 2) then Some (fit lo)
         else if good (lo + 1) then Some (fit (lo + 1))
         else None)"

fun first_candidate :: "rat \<Rightarrow> nat list \<Rightarrow> (int \<times> int) option" where
  "first_candidate x [] = None"
| "first_candidate x (n # ns) =
     (case digits_candidate x n of Some r \<Rightarrow> Some r | None \<Rightarrow> first_candidate x ns)"

text \<open>Seventeen digits always suffice for a binary64 value, so the default is not used.\<close>

definition shortest_digits :: "rat \<Rightarrow> string \<times> int" where
  "shortest_digits x =
     (if x = 0 then (''0'', 0)
      else case first_candidate x [1..<18] of
        Some (c, k) \<Rightarrow> (itoa c, k)
      | None \<Rightarrow> (''0'', 0))"

text \<open>The layout half of \<open>pythonFloatRepr\<close>: digits \<open>d\<close> with exponent \<open>e\<close>.\<close>

definition zeros :: "int \<Rightarrow> string" where
  "zeros n = replicate (nat n) (CHR ''0'')"

definition float_layout :: "bool \<Rightarrow> string \<Rightarrow> int \<Rightarrow> string" where
  "float_layout neg d e =
     (if neg then ''-'' else []) @
     (if - 4 \<le> e \<and> e \<le> 15 then
        (if e \<ge> 0 \<and> e + 1 \<ge> int (length d) then d @ zeros (e + 1 - int (length d)) @ ''.0''
         else if e \<ge> 0 then take (nat (e + 1)) d @ ''.'' @ drop (nat (e + 1)) d
         else ''0.'' @ zeros (- (e + 1)) @ d)
      else
        take 1 d @ (if length d > 1 then ''.'' @ drop 1 d else []) @ ''e'' @
        (if e < 0 then ''-'' else ''+'') @
        (if \<bar>e\<bar> < 10 then ''0'' else []) @ itoa \<bar>e\<bar>)"

fun pythonFloatRepr :: "float64 \<Rightarrow> string" where
  "pythonFloatRepr (Inf neg) = (if neg then ''-Infinity'' else ''Infinity'')"
| "pythonFloatRepr NaN = ''NaN''"
| "pythonFloatRepr (Fin neg m) = (let (d, e) = shortest_digits m in float_layout neg d e)"

definition jvFloat :: "float64 \<Rightarrow> jVal" where
  "jvFloat f = JNum (pythonFloatRepr f)"

definition writeJSONNumber :: "string \<Rightarrow> string" where
  "writeJSONNumber t =
     (if \<not> is_float_token t then t
      else case parse_float t of
        (f, Float_Ok) \<Rightarrow> pythonFloatRepr f
      | (f, Float_Range) \<Rightarrow> (if f = Inf True then ''-Infinity'' else ''Infinity'')
      | (f, Float_Syntax) \<Rightarrow> t)"

definition bracketed :: "char \<Rightarrow> char \<Rightarrow> string list \<Rightarrow> string" where
  "bracketed l r items = [l] @ join_with '','' items @ [r]"

fun writeJSON :: "jVal \<Rightarrow> string" where
  "writeJSON JNull = ''null''"
| "writeJSON (JBool b) = (if b then ''true'' else ''false'')"
| "writeJSON (JNum t) = writeJSONNumber t"
| "writeJSON (JStr s) = writeJSONString s"
| "writeJSON (JArr xs) = bracketed (CHR ''['') (CHR '']'') (map writeJSON xs)"
| "writeJSON (JObj ps) = bracketed (CHR ''{'') (CHR ''}'')
     (map (\<lambda>p. writeJSONString (fst p) @ '':'' @ writeJSON (snd p)) ps)"

fun writeJSONRaw :: "jVal \<Rightarrow> string" where
  "writeJSONRaw JNull = ''null''"
| "writeJSONRaw (JBool b) = (if b then ''true'' else ''false'')"
| "writeJSONRaw (JNum t) = writeJSONNumber t"
| "writeJSONRaw (JStr s) = writeJSONStringRaw s"
| "writeJSONRaw (JArr xs) = bracketed (CHR ''['') (CHR '']'') (map writeJSONRaw xs)"
| "writeJSONRaw (JObj ps) = bracketed (CHR ''{'') (CHR ''}'')
     (map (\<lambda>p. writeJSONStringRaw (fst p) @ '':'' @ writeJSONRaw (snd p)) ps)"

text \<open>Keys are sorted at every depth; the member texts are sorted by their keys.\<close>

fun writeJSONSorted :: "jVal \<Rightarrow> string" where
  "writeJSONSorted (JArr xs) = bracketed (CHR ''['') (CHR '']'') (map writeJSONSorted xs)"
| "writeJSONSorted (JObj ps) = bracketed (CHR ''{'') (CHR ''}'')
     (map (\<lambda>q. writeJSONString (fst q) @ '':'' @ snd q)
       (sort_key fst (map (\<lambda>p. (fst p, writeJSONSorted (snd p))) ps)))"
| "writeJSONSorted v = writeJSON v"

definition marshalCompact :: "jVal \<Rightarrow> string" where
  "marshalCompact v = writeJSON v"

definition marshalCompactUTF8 :: "jVal \<Rightarrow> string" where
  "marshalCompactUTF8 v = writeJSONRaw v"

definition marshalSortedKeys :: "jVal \<Rightarrow> string" where
  "marshalSortedKeys v = writeJSONSorted v"

text \<open>\<open>asString\<close>: Python's \<open>str\<close> of a scalar; a container prints as JSON.\<close>

fun asString :: "jVal \<Rightarrow> string" where
  "asString (JStr s) = s"
| "asString (JNum t) = t"
| "asString (JBool b) = (if b then ''True'' else ''False'')"
| "asString JNull = ''None''"
| "asString v = marshalCompact v"

end
