(* ===== verification/Go_Floats.thy ===== *)
theory Go_Floats
  imports Go_Numbers
begin

text \<open>
  Binary64 arithmetic beyond \<open>Go_Numbers\<close>: negation, addition, subtraction and division with
  one rounding of the exact result, and the bounds of a rounded value by powers of two.
\<close>

fun float_neg :: "float64 \<Rightarrow> float64" where
  "float_neg (Fin s m) = Fin (\<not> s) m"
| "float_neg (Inf s) = Inf (\<not> s)"
| "float_neg NaN = NaN"

fun float_add :: "float64 \<Rightarrow> float64 \<Rightarrow> float64" where
  "float_add (Fin s m) (Fin t n) =
     (let r = float_val (Fin s m) + float_val (Fin t n) in
      if r = 0 then Fin (s \<and> t) 0 else round64 (r < 0) \<bar>r\<bar>)"
| "float_add (Inf s) (Inf t) = (if s = t then Inf s else NaN)"
| "float_add (Inf s) (Fin t n) = Inf s"
| "float_add (Fin s m) (Inf t) = Inf t"
| "float_add _ _ = NaN"

definition float_sub :: "float64 \<Rightarrow> float64 \<Rightarrow> float64" where
  "float_sub x y = float_add x (float_neg y)"

fun float_div :: "float64 \<Rightarrow> float64 \<Rightarrow> float64" where
  "float_div (Fin s m) (Fin t n) =
     (if n = 0 then if m = 0 then NaN else Inf (s \<noteq> t) else round64 (s \<noteq> t) (m / n))"
| "float_div (Inf s) (Fin t n) = Inf (s \<noteq> t)"
| "float_div (Fin s m) (Inf t) = Fin (s \<noteq> t) 0"
| "float_div _ _ = NaN"

definition float_of_int :: "int \<Rightarrow> float64" where
  "float_of_int n = float_of_rat (of_int n)"

section \<open>Rounding stays below a power of two\<close>

lemma pow2_pos [simp]: "0 < pow2 k"
  by (simp add: pow2_def)

lemma pow2_add: "pow2 (a + b) = pow2 a * pow2 b"
proof -
  have powi: "pow2 k = power_int 2 k" for k
    by (auto simp: pow2_def power_int_def field_simps)
  show ?thesis unfolding powi by (rule power_int_add) simp
qed

lemma pow2_mono: "a \<le> b \<Longrightarrow> pow2 a \<le> pow2 b"
proof -
  assume "a \<le> b"
  have powi: "pow2 k = power_int 2 k" for k
    by (auto simp: pow2_def power_int_def field_simps)
  show ?thesis unfolding powi using \<open>a \<le> b\<close> by (rule power_int_increasing) simp
qed

lemma pow2_le_iff: "pow2 a \<le> pow2 b \<longleftrightarrow> a \<le> b"
proof
  show "a \<le> b \<Longrightarrow> pow2 a \<le> pow2 b" by (rule pow2_mono)
  assume le: "pow2 a \<le> pow2 b"
  show "a \<le> b"
  proof (rule ccontr)
    assume "\<not> a \<le> b"
    then have "pow2 (b + 1) \<le> pow2 a" by (intro pow2_mono) simp
    moreover have "pow2 (b + 1) = 2 * pow2 b" by (simp add: pow2_add) (simp add: pow2_def)
    ultimately show False using le pow2_pos [of b] by linarith
  qed
qed

lemma bit_length_nonneg: "0 \<le> bit_length n"
proof (induction n rule: bit_length.induct)
  case (1 n)
  then show ?case by (cases "n \<le> 0") (simp_all add: bit_length.simps [of n])
qed

lemma bit_length_bounds: "0 < n \<Longrightarrow> pow2 (bit_length n - 1) \<le> of_int n \<and> of_int n < pow2 (bit_length n)"
proof (induction n rule: bit_length.induct)
  case (1 n)
  have two: "pow2 (k + 1) = 2 * pow2 k" for k by (simp add: pow2_add) (simp add: pow2_def)
  show ?case
  proof (cases "n = 1")
    case True
    then show ?thesis by (simp add: bit_length.simps pow2_def)
  next
    case False
    with 1 have IH: "pow2 (bit_length (n div 2) - 1) \<le> of_int (n div 2)" "of_int (n div 2) < pow2 (bit_length (n div 2))"
      and len: "bit_length n = bit_length (n div 2) + 1"
      by (auto simp: bit_length.simps [of n])
    let ?b = "bit_length (n div 2)"
    have "(of_int n :: rat) < 2 * of_int (n div 2) + 2" "2 * of_int (n div 2) \<le> (of_int n :: rat)"
      by linarith+
    moreover have "of_int (n div 2) + 1 \<le> pow2 ?b"
    proof -
      have eq: "pow2 ?b = of_int (2 ^ nat ?b)" using bit_length_nonneg by (simp add: pow2_def)
      have "n div 2 < 2 ^ nat ?b" using IH(2) unfolding eq of_int_less_iff .
      then have "n div 2 + 1 \<le> 2 ^ nat ?b" by simp
      then have "(of_int (n div 2 + 1) :: rat) \<le> of_int (2 ^ nat ?b)" unfolding of_int_le_iff .
      then show ?thesis unfolding eq by simp
    qed
    ultimately show ?thesis
      using IH two [of "?b - 1"] two [of ?b] by (simp add: len)
  qed
qed

lemma floor_log2_le:
  assumes "0 < x"
  shows "pow2 (floor_log2 x) \<le> x"
proof -
  obtain n d where q: "quotient_of x = (n, d)" by fastforce
  then have d: "0 < d" and x: "x = of_int n / of_int d"
    by (auto simp: quotient_of_denom_pos quotient_of_div)
  with assms have n: "0 < n" by (simp add: zero_less_divide_iff)
  let ?k = "bit_length n - bit_length d"
  have "pow2 (?k - 1) \<le> x"
  proof -
    have "pow2 (?k - 1) * pow2 (bit_length d) = pow2 (bit_length n - 1)"
      by (simp flip: pow2_add)
    also have "\<dots> \<le> of_int n" using bit_length_bounds [OF n] by simp
    finally have "pow2 (?k - 1) * pow2 (bit_length d) \<le> of_int n" .
    moreover have "pow2 (?k - 1) * of_int d \<le> pow2 (?k - 1) * pow2 (bit_length d)"
      using bit_length_bounds [OF d] by (intro mult_left_mono) (simp_all add: less_imp_le)
    ultimately have "pow2 (?k - 1) * of_int d \<le> of_int n" by (rule order_trans [rotated])
    then show ?thesis using d by (simp add: x field_simps)
  qed
  then show ?thesis by (simp add: floor_log2_def q Let_def)
qed

lemma round_half_even_le: "x \<le> of_int n \<Longrightarrow> round_half_even x \<le> n"
proof -
  assume x: "x \<le> of_int n"
  have f: "of_int \<lfloor>x\<rfloor> \<le> x" "x < of_int \<lfloor>x\<rfloor> + 1" by linarith+
  show ?thesis
  proof (cases "\<lfloor>x\<rfloor> = n")
    case True
    with x f have "x - of_int \<lfloor>x\<rfloor> < 1 / 2" by simp
    with True show ?thesis by (simp add: round_half_even_def Let_def)
  next
    case False
    with x f have "\<lfloor>x\<rfloor> + 1 \<le> n" by linarith
    then show ?thesis by (auto simp: round_half_even_def Let_def)
  qed
qed

lemma round_half_even_nonneg: "0 \<le> x \<Longrightarrow> 0 \<le> round_half_even x"
proof -
  assume "0 \<le> x"
  then have "0 \<le> \<lfloor>x\<rfloor>" by simp
  then show ?thesis by (auto simp: round_half_even_def Let_def)
qed

lemma round_mag_nonneg: "0 \<le> x \<Longrightarrow> 0 \<le> round_mag x"
proof -
  assume x: "0 \<le> x"
  have "0 \<le> round_half_even (x / pow2 e)" for e
    using x by (intro round_half_even_nonneg) (simp add: less_imp_le)
  then have "0 \<le> of_int (round_half_even (x / pow2 e)) * pow2 e" for e
    by (simp add: less_imp_le)
  then show ?thesis by (simp add: round_mag_def Let_def)
qed

lemma round_mag_le_pow2:
  assumes "0 \<le> x" "x \<le> pow2 k" "- 1074 \<le> k"
  shows "round_mag x \<le> pow2 k"
proof (cases "x = 0")
  case True
  then show ?thesis by (simp add: round_mag_def less_imp_le)
next
  case False
  define e where "e = max (floor_log2 x - 52) (- 1074)"
  have "pow2 (floor_log2 x) \<le> pow2 k"
    using floor_log2_le [of x] assms(1,2) False by linarith
  then have e: "e \<le> k" using assms(3) by (simp add: e_def pow2_le_iff)
  define N :: int where "N = 2 ^ nat (k - e)"
  have N: "pow2 k = of_int N * pow2 e"
    using e pow2_add [of "k - e" e] by (simp add: N_def pow2_def)
  then have "x / pow2 e \<le> of_int N"
    using assms(2) by (simp add: pos_divide_le_eq)
  then have "of_int (round_half_even (x / pow2 e)) \<le> (of_int N :: rat)"
    using round_half_even_le by simp
  then show ?thesis
    using False by (simp add: round_mag_def Let_def flip: e_def) (simp add: N mult_right_mono less_imp_le)
qed

text \<open>The sign and the size of a float survive an operation that stays below a power of two.\<close>

definition float_bound :: "int \<Rightarrow> float64 \<Rightarrow> bool" where
  "float_bound k f \<longleftrightarrow> (\<exists>s m. f = Fin s m \<and> 0 \<le> m \<and> m \<le> pow2 k)"

lemma pow2_less_iff: "pow2 a < pow2 b \<longleftrightarrow> a < b"
  using pow2_le_iff [of b a] by (simp add: not_le [symmetric])

lemma round64_small:
  assumes "0 \<le> x" "x \<le> pow2 k" "- 1074 \<le> k" "k < 1024"
  shows "round64 s x = Fin s (round_mag x)" and "float_bound k (round64 s x)"
proof -
  have le: "round_mag x \<le> pow2 k" by (rule round_mag_le_pow2 [OF assms(1-3)])
  then have "round_mag x < pow2 1024"
    using assms(4) pow2_less_iff [of k 1024] by linarith
  then show "round64 s x = Fin s (round_mag x)" by (simp add: round64_def Let_def)
  with le round_mag_nonneg [OF assms(1)] show "float_bound k (round64 s x)" by (auto simp: float_bound_def)
qed


text \<open>From below, and exactly on the values a float represents.\<close>

lemma floor_log2_gt:
  assumes "0 < x"
  shows "x < pow2 (floor_log2 x + 1)"
proof -
  obtain n d where q: "quotient_of x = (n, d)" by fastforce
  then have d: "0 < d" and x: "x = of_int n / of_int d"
    by (auto simp: quotient_of_denom_pos quotient_of_div)
  with assms have n: "0 < n" by (simp add: zero_less_divide_iff)
  let ?k = "bit_length n - bit_length d"
  have "of_int n < pow2 (bit_length n)" using bit_length_bounds [OF n] by simp
  also have "\<dots> = pow2 (?k + 1) * pow2 (bit_length d - 1)"
    by (simp flip: pow2_add)
  also have "\<dots> \<le> pow2 (?k + 1) * of_int d"
    using bit_length_bounds [OF d] by (intro mult_left_mono) (simp_all add: less_imp_le)
  finally have "x < pow2 (?k + 1)" using d by (simp add: x field_simps)
  then show ?thesis by (auto simp: floor_log2_def q Let_def)
qed

lemma floor_log2_unique: "pow2 k \<le> x \<Longrightarrow> x < pow2 (k + 1) \<Longrightarrow> floor_log2 x = k"
proof -
  assume x: "pow2 k \<le> x" "x < pow2 (k + 1)"
  then have "0 < x" using pow2_pos [of k] by linarith
  with x have "pow2 (floor_log2 x) < pow2 (k + 1)" "pow2 k < pow2 (floor_log2 x + 1)"
    using floor_log2_le floor_log2_gt by (meson le_less_trans)+
  then show ?thesis by (simp add: pow2_less_iff)
qed

lemma round_half_even_ge: "of_int n \<le> x \<Longrightarrow> n \<le> round_half_even x"
proof -
  assume "of_int n \<le> x"
  then have "n \<le> \<lfloor>x\<rfloor>" by (simp add: le_floor_iff)
  then show ?thesis by (auto simp: round_half_even_def Let_def)
qed

lemma round_mag_ge_pow2:
  assumes "pow2 k \<le> x" "- 1074 \<le> k"
  shows "pow2 k \<le> round_mag x"
proof -
  have x: "0 < x" using assms(1) pow2_pos [of k] by linarith
  define f where "f = floor_log2 x"
  define e where "e = max (f - 52) (- 1074)"
  have kf: "k \<le> f"
    using assms(1) floor_log2_gt [OF x] pow2_less_iff [of k "f + 1"] by (simp add: f_def)
  then have e: "e \<le> f" using assms(2) by (simp add: e_def)
  define N :: int where "N = 2 ^ nat (f - e)"
  have N: "pow2 f = of_int N * pow2 e"
    using e pow2_add [of "f - e" e] by (simp add: N_def pow2_def)
  then have "of_int N \<le> x / pow2 e"
    using floor_log2_le [OF x] by (simp add: pos_le_divide_eq f_def)
  then have "(of_int N :: rat) \<le> of_int (round_half_even (x / pow2 e))"
    using round_half_even_ge by simp
  then have "pow2 f \<le> of_int (round_half_even (x / pow2 e)) * pow2 e"
    unfolding N by (rule mult_right_mono) (simp add: less_imp_le)
  moreover have "pow2 k \<le> pow2 f" using kf by (rule pow2_mono)
  ultimately show ?thesis
    using x by (simp add: round_mag_def Let_def e_def f_def)
qed

lemma round_mag_exact:
  assumes x: "x = of_int n * pow2 k" and n: "0 < n" "n < 2 ^ 53" and k: "- 1074 \<le> k"
  shows "round_mag x = x"
proof -
  have pos: "0 < x" using n by (simp add: x)
  define e where "e = max (floor_log2 x - 52) (- 1074)"
  have "(of_int n :: rat) < pow2 53" using n(2) by (simp add: pow2_def)
  then have "x < pow2 (53 + k)"
    unfolding x by (simp add: pow2_add)
  then have "pow2 (floor_log2 x) < pow2 (53 + k)"
    using floor_log2_le [OF pos] by linarith
  then have e: "e \<le> k" using k by (simp add: pow2_less_iff e_def)
  have "x / pow2 e = of_int (n * 2 ^ nat (k - e))"
    using e pow2_add [of "k - e" e] by (simp add: x pow2_def field_simps)
  then have "of_int (round_half_even (x / pow2 e)) * pow2 e = x"
    by (simp only: round_half_even_of_int) (use e pow2_add [of "k - e" e] in \<open>simp add: x pow2_def\<close>)
  then show ?thesis
    using pos by (simp add: round_mag_def Let_def e_def)
qed

end
