(* ===== verification/Api_Args.thy ===== *)
theory Api_Args
  imports Go_Floats Json_Values
begin

text \<open>
  Argument coercion for the API operations: \<open>core/apiargs.go\<close> and the conversions
  \<open>pythonIntErr\<close>, \<open>pythonInt\<close>, \<open>pythonFloat\<close>, \<open>isJSONInt\<close> of
  \<open>core/settings.go\<close> that it rests on. A Go string set is a list without regard to
  order or repetition, kept as a set.
\<close>

section \<open>Numbers out of JSON values\<close>

text \<open>
  \<open>pythonIntErr\<close> returns a number beside the error: an integer token out of range is
  saturated by \<open>strconv.ParseInt\<close>, and \<open>pythonInt\<close> keeps that number.
\<close>

fun pythonIntErr :: "jVal \<Rightarrow> int \<times> go_error option" where
  "pythonIntErr (JNum t) =
     (if \<not> is_float_token t then
        (let (n, valid) = parse_int64 t in (n, if valid then None else Some (Msg ''strconv.ParseInt'')))
      else case parse_float t of
        (f, Float_Ok) \<Rightarrow> (float_to_int64 f, None)
      | _ \<Rightarrow> (0, Some (Msg (''invalid literal for int(): '' @ t))))"
| "pythonIntErr (JStr s) =
     (let (n, valid) = parse_int64 (trim_space s) in
      if valid then (n, None)
      else (0, Some (Msg ''invalid literal for int() with base 10'')))"
| "pythonIntErr (JBool b) = (if b then 1 else 0, None)"
| "pythonIntErr _ = (0, Some (Msg ''int() argument must be a number or string''))"

definition pythonInt :: "jVal \<Rightarrow> int" where
  "pythonInt v = fst (pythonIntErr v)"

fun pythonFloat :: "jVal \<Rightarrow> float64 \<times> go_error option" where
  "pythonFloat (JNum t) =
     (case parse_float t of (f, e) \<Rightarrow> (f, if e = Float_Ok then None else Some (Msg ''strconv.ParseFloat'')))"
| "pythonFloat (JStr s) =
     (case parse_float (trim_space s) of (f, e) \<Rightarrow>
        (f, if e = Float_Ok then None else Some (Msg ''strconv.ParseFloat'')))"
| "pythonFloat (JBool b) = (if b then Fin False 1 else Fin False 0, None)"
| "pythonFloat _ = (Fin False 0, Some (Msg ''could not convert value to float''))"

fun isJSONInt :: "jVal \<Rightarrow> bool" where
  "isJSONInt (JNum t) \<longleftrightarrow> \<not> is_float_token t"
| "isJSONInt _ \<longleftrightarrow> False"

fun isJSONNumber :: "jVal \<Rightarrow> bool" where
  "isJSONNumber (JNum t) \<longleftrightarrow> True"
| "isJSONNumber _ \<longleftrightarrow> False"

section \<open>Operation arguments\<close>

fun stringList_items :: "jVal list \<Rightarrow> string list res" where
  "stringList_items [] = Inr []"
| "stringList_items (x # xs) =
     (if \<not> is_str x \<or> length (str_of x) > 100
      then Inl (Msg ''filter values must be strings up to 100 characters'')
      else and_then (stringList_items xs) (\<lambda>ys. Inr (str_of x # ys)))"

definition stringList :: "jVal \<Rightarrow> string list res" where
  "stringList v =
     (if v = JNull then Inr []
      else if \<not> is_arr v \<or> length (arr_of v) > 50
      then Inl (Msg ''filter values must be a list of at most 50 strings'')
      else stringList_items (arr_of v))"

definition excludeSceneIDs :: "jVal \<Rightarrow> string set res" where
  "excludeSceneIDs v =
     (if v = JNull then Inr {}
      else if \<not> is_arr v then Inl (Msg ''exclude_scene_ids must be a list'')
      else Inr (set (map asString (arr_of v))))"

definition excludeTagIDs :: "jVal \<Rightarrow> string set res" where
  "excludeTagIDs v =
     (if \<not> truthy v then Inr {}
      else if \<not> is_arr v then Inl (Msg ''exclude_tag_ids must be a list'')
      else Inr (set (map asString (arr_of v))))"

definition argsInt :: "jVal \<Rightarrow> string \<Rightarrow> int \<Rightarrow> int" where
  "argsInt args key fallback =
     (let v = jget args key in if \<not> truthy v then fallback else pythonInt v)"

definition argsString :: "jVal \<Rightarrow> string \<Rightarrow> string \<Rightarrow> string" where
  "argsString args key fallback =
     (let v = jget args key in if \<not> truthy v then fallback else asString v)"

definition argsOptionalString :: "jVal \<Rightarrow> string \<Rightarrow> jVal" where
  "argsOptionalString args key =
     (let v = jget args key in if \<not> truthy v then JNull else JStr (asString v))"

definition argsFloat :: "jVal \<Rightarrow> string \<Rightarrow> float64 \<Rightarrow> float64" where
  "argsFloat args key fallback =
     (let v = jget args key in
      if \<not> truthy v then fallback
      else case pythonFloat v of (f, None) \<Rightarrow> f | _ \<Rightarrow> fallback)"

definition argsBool :: "jVal \<Rightarrow> string \<Rightarrow> bool \<Rightarrow> bool" where
  "argsBool args key def = (let v = jget args key in if v = JNull then def else truthy v)"

definition pythonStrOrEmpty :: "jVal \<Rightarrow> string" where
  "pythonStrOrEmpty v = (if \<not> truthy v then [] else asString v)"

definition pythonIntErrOr :: "jVal \<Rightarrow> int \<Rightarrow> int" where
  "pythonIntErrOr v def =
     (if v = JNull then def else case pythonIntErr v of (n, None) \<Rightarrow> n | _ \<Rightarrow> def)"

definition pythonFloatOr :: "jVal \<Rightarrow> float64 \<Rightarrow> float64" where
  "pythonFloatOr v fallback = (case pythonFloat v of (f, None) \<Rightarrow> f | _ \<Rightarrow> fallback)"

section \<open>Lemmas\<close>

lemma itoa_not_float_token: "\<not> is_float_token (itoa n)"
  using itoa_no_float_chars by (simp add: is_float_token_def)

lemma isJSONInt_jvInt [simp]: "isJSONInt (jvInt n)"
  by (simp add: jvInt_def itoa_not_float_token)

lemma pythonIntErr_jvInt:
  "min_int64 \<le> n \<Longrightarrow> n \<le> max_int64 \<Longrightarrow> pythonIntErr (jvInt n) = (n, None)"
  by (simp add: jvInt_def itoa_not_float_token parse_int64_itoa)

lemma pythonInt_jvInt: "min_int64 \<le> n \<Longrightarrow> n \<le> max_int64 \<Longrightarrow> pythonInt (jvInt n) = n"
  by (simp add: pythonInt_def pythonIntErr_jvInt)

lemma pythonIntErrOr_jvInt: "min_int64 \<le> n \<Longrightarrow> n \<le> max_int64 \<Longrightarrow> pythonIntErrOr (jvInt n) d = n"
  by (simp add: pythonIntErrOr_def pythonIntErr_jvInt) (simp add: jvInt_def)

lemma stringList_items_Inr:
  "stringList_items xs = Inr ys \<longleftrightarrow>
     xs = map JStr ys \<and> (\<forall>y \<in> set ys. length y \<le> 100)"
proof (induction xs arbitrary: ys)
  case Nil
  then show ?case by auto
next
  case (Cons x xs)
  then show ?case
    by (cases x; cases ys) (auto simp: and_then_Inr_iff)
qed

lemma stringList_Inr_iff:
  "stringList v = Inr ys \<longleftrightarrow>
     (v = JNull \<and> ys = []) \<or>
     (v = JArr (map JStr ys) \<and> length ys \<le> 50 \<and> (\<forall>y \<in> set ys. length y \<le> 100))"
  by (cases v) (auto simp: stringList_def stringList_items_Inr)

text \<open>A literal of the sample inputs.\<close>

lemma half_literal: "pythonFloat (JNum ''0.5'') = (Fin False (1/2), None)"
proof -
  have "parse_decimal ''0.5'' = Some (1/2)"
    by (simp add: parse_decimal_def is_digit_def int_of_digits_def digit_val_def pow10_def)
  moreover have "round64 False (1/2) = Fin False (1/2)"
    using round64_small(1) [of "1/2" 0 False] round_mag_exact [of "1/2" 1 "-1"] by (simp add: pow2_def)
  ultimately show ?thesis
    by (simp add: parse_float_def split_sign_def to_lower_def ascii_lower_byte_def)
qed

end
