(* ===== verification/Settings.thy ===== *)
theory Settings
  imports Api_Args
begin

text \<open>
  Plugin configuration: \<open>core/settings.go\<close> and \<open>updateConfigBody\<close> of
  \<open>core/writes.go\<close>. The row of \<open>curator_config\<close> is a record; \<open>parseJSON\<close>, which
  wraps a JSON library, is the argument \<open>parse\<close>.
\<close>

section \<open>Defaults and the mapping of Stash settings\<close>

definition defaultPluginConfig :: jVal where
  "defaultPluginConfig = JObj
    [(''page_size'', jvInt 20),
     (''recommendation_endless_scroll'', JBool False),
     (''diversity_enabled'', JBool True),
     (''rotation_cooldown_days'', jvInt 7),
     (''sync_page_size'', jvInt 250),
     (''debounce_ms'', jvInt 2000),
     (''model_update_event_threshold'', jvInt 5),
     (''model_update_max_wait_minutes'', jvInt 30),
     (''model_update_min_interval_minutes'', jvInt 60),
     (''prune_tag_name'', JStr ''[Prune]''),
     (''ignored_tags'', JStr []),
     (''new_arrivals_include_unorganized'', JBool False),
     (''together_excluded_tags'', JArr []),
     (''moods'', JArr [JObj [(''id'', JStr ''together''), (''name'', JStr ''Together''),
                             (''excluded_tags'', JArr [])]]),
     (''expand_horizon_days'', jvInt 90),
     (''expand_gender'', JStr ''FEMALE''),
     (''expand_wildcard'', JBool False),
     (''expand_candidate_limit'', jvInt 1000),
     (''expand_similar_seed_top_k'', jvInt 20),
     (''expand_similar_seed_per_favorite'', jvInt 5),
     (''auto_tasks_enabled'', JBool False),
     (''schedule_expand_refresh_enabled'', JBool False),
     (''schedule_expand_refresh_interval_hours'', jvInt 24),
     (''schedule_expand_refresh_at_hour'', JNull),
     (''schedule_sync_build_enabled'', JBool False),
     (''schedule_sync_build_interval_hours'', jvInt 24),
     (''schedule_sync_build_at_hour'', JNull),
     (''schedule_backup_enabled'', JBool False),
     (''schedule_backup_interval_hours'', jvInt 24),
     (''schedule_backup_at_hour'', JNull)]"

datatype settingConv = convInt | convFloat | convStr | convBool

definition settingMapping :: "(string \<times> string \<times> settingConv) list" where
  "settingMapping =
    [(''pageSize'', ''page_size'', convInt),
     (''recommendationEndlessScroll'', ''recommendation_endless_scroll'', convBool),
     (''rotationCooldownDays'', ''rotation_cooldown_days'', convInt),
     (''syncPageSize'', ''sync_page_size'', convInt),
     (''modelUpdateEventThreshold'', ''model_update_event_threshold'', convInt),
     (''modelUpdateMaxWaitMinutes'', ''model_update_max_wait_minutes'', convFloat),
     (''modelUpdateMinIntervalMinutes'', ''model_update_min_interval_minutes'', convFloat),
     (''pruneTagName'', ''prune_tag_name'', convStr),
     (''ignoredTags'', ''ignored_tags'', convStr),
     (''newArrivalsIncludeUnorganized'', ''new_arrivals_include_unorganized'', convBool),
     (''expandHorizonDays'', ''expand_horizon_days'', convInt),
     (''expandGender'', ''expand_gender'', convStr),
     (''expandWildcard'', ''expand_wildcard'', convBool),
     (''expandCandidateLimit'', ''expand_candidate_limit'', convInt),
     (''expandSimilarSeedTopK'', ''expand_similar_seed_top_k'', convInt),
     (''expandSimilarSeedPerFavorite'', ''expand_similar_seed_per_favorite'', convInt),
     (''autoTasksEnabled'', ''auto_tasks_enabled'', convBool),
     (''scheduleExpandRefreshEnabled'', ''schedule_expand_refresh_enabled'', convBool),
     (''scheduleExpandRefreshIntervalHours'', ''schedule_expand_refresh_interval_hours'', convFloat),
     (''scheduleExpandRefreshAtHour'', ''schedule_expand_refresh_at_hour'', convInt),
     (''scheduleSyncBuildEnabled'', ''schedule_sync_build_enabled'', convBool),
     (''scheduleSyncBuildIntervalHours'', ''schedule_sync_build_interval_hours'', convFloat),
     (''scheduleSyncBuildAtHour'', ''schedule_sync_build_at_hour'', convInt),
     (''scheduleBackupEnabled'', ''schedule_backup_enabled'', convBool),
     (''scheduleBackupIntervalHours'', ''schedule_backup_interval_hours'', convFloat),
     (''scheduleBackupAtHour'', ''schedule_backup_at_hour'', convInt)]"

fun convertSetting :: "jVal \<Rightarrow> settingConv \<Rightarrow> jVal res" where
  "convertSetting v convInt =
     (case pythonIntErr v of (n, None) \<Rightarrow> Inr (jvInt n) | (n, Some e) \<Rightarrow> Inl e)"
| "convertSetting v convFloat =
     (case pythonFloat v of (f, None) \<Rightarrow> Inr (jvFloat f) | (f, Some e) \<Rightarrow> Inl e)"
| "convertSetting v convStr = Inr (JStr (asString v))"
| "convertSetting v convBool = Inr (JBool (truthy v))"

section \<open>Validation\<close>

text \<open>The first of a sequence of guards that fails; each guard is an optional error.\<close>

fun first_error :: "go_error option list \<Rightarrow> go_error option" where
  "first_error [] = None"
| "first_error (Some e # rest) = Some e"
| "first_error (None # rest) = first_error rest"

definition guard :: "bool \<Rightarrow> string \<Rightarrow> go_error option" where
  "guard bad msg = (if bad then Some (Msg msg) else None)"

definition int_field :: "jVal \<Rightarrow> string \<Rightarrow> int \<Rightarrow> int \<Rightarrow> string \<Rightarrow> go_error option" where
  "int_field values key lo hi msg =
     (let v = jget values key in
      guard (v \<noteq> JNull \<and> (\<not> isJSONInt v \<or> pythonInt v < lo \<or> pythonInt v > hi)) msg)"

definition minutes_field :: "jVal \<Rightarrow> string \<Rightarrow> go_error option" where
  "minutes_field values key =
     (let v = jget values key; (f, e) = pythonFloat v in
      guard (v \<noteq> JNull \<and>
        (\<not> isJSONNumber v \<or> e \<noteq> None \<or> float_less f (Fin False 1) \<or> float_less (Fin False 1440) f))
        (key @ '' must be between 1 and 1440''))"

definition bool_field :: "jVal \<Rightarrow> string \<Rightarrow> go_error option" where
  "bool_field values key =
     (let v = jget values key in
      guard (v \<noteq> JNull \<and> \<not> is_bool v) (key @ '' must be true or false''))"

definition str_field :: "jVal \<Rightarrow> string \<Rightarrow> string \<Rightarrow> go_error option" where
  "str_field values key msg =
     (let v = jget values key in guard (v \<noteq> JNull \<and> \<not> is_str v) msg)"

definition bad_tag :: "jVal \<Rightarrow> bool" where
  "bad_tag tag \<longleftrightarrow> \<not> is_obj tag \<or> \<not> is_str (jget tag ''id'') \<or> str_of (jget tag ''id'') = [] \<or>
     \<not> is_str (jget tag ''name'') \<or> str_of (jget tag ''name'') = []"

definition check_tags :: "jVal \<Rightarrow> go_error option" where
  "check_tags values =
     (let tags = jget values ''together_excluded_tags'' in
      if tags = JNull then None
      else if \<not> is_arr tags \<or> length (arr_of tags) > 50
      then Some (Msg ''together_excluded_tags must be a list of at most 50 tags'')
      else if list_ex bad_tag (arr_of tags)
      then Some (Msg ''together_excluded_tags entries must have nonempty string id and name'')
      else None)"

text \<open>
  The guards after the moods, in the order of the code. A loop over keys is the
  sequence of its iterations.
\<close>

definition hour_msg :: "string \<Rightarrow> string" where
  "hour_msg key = key @ '' must be an integer from 0 to 23''"

definition size_msg :: "string \<Rightarrow> string" where
  "size_msg key = key @ '' must be an integer from 1 to 500''"

definition check_fields :: "jVal \<Rightarrow> go_error option" where
  "check_fields values = first_error
    [check_tags values,
     bool_field values ''diversity_enabled'',
     bool_field values ''recommendation_endless_scroll'',
     bool_field values ''new_arrivals_include_unorganized'',
     int_field values ''schedule_expand_refresh_at_hour'' 0 23 (hour_msg ''schedule_expand_refresh_at_hour''),
     int_field values ''schedule_sync_build_at_hour'' 0 23 (hour_msg ''schedule_sync_build_at_hour''),
     int_field values ''schedule_backup_at_hour'' 0 23 (hour_msg ''schedule_backup_at_hour''),
     int_field values ''page_size'' 1 500 (size_msg ''page_size''),
     int_field values ''sync_page_size'' 1 500 (size_msg ''sync_page_size''),
     int_field values ''rotation_cooldown_days'' 1 30
       ''rotation_cooldown_days must be an integer from 1 to 30'',
     int_field values ''debounce_ms'' 0 60000 ''debounce_ms must be an integer from 0 to 60000'',
     int_field values ''model_update_event_threshold'' 1 100
       ''model_update_event_threshold must be an integer from 1 to 100'',
     minutes_field values ''model_update_max_wait_minutes'',
     minutes_field values ''model_update_min_interval_minutes'',
     (let v = jget values ''prune_tag_name'' in
        guard (v \<noteq> JNull \<and> (\<not> is_str v \<or> trim_space (str_of v) = [] \<or> length (str_of v) > 100))
          ''prune_tag_name must be a non-empty string up to 100 characters''),
     str_field values ''ignored_tags'' ''ignored_tags must be a comma-separated string'',
     int_field values ''expand_horizon_days'' 1 3650
       ''expand_horizon_days must be an integer from 1 to 3650'',
     str_field values ''expand_gender'' ''expand_gender must be a string'',
     bool_field values ''expand_wildcard'',
     int_field values ''expand_candidate_limit'' 100 10000
       ''expand_candidate_limit must be an integer from 100 to 10000'',
     int_field values ''expand_similar_seed_top_k'' 0 200
       ''expand_similar_seed_top_k must be an integer from 0 to 200'',
     int_field values ''expand_similar_seed_per_favorite'' 0 50
       ''expand_similar_seed_per_favorite must be an integer from 0 to 50'']"

definition scope_names :: "string list" where
  "scope_names = [''recommendations'', ''similar'', ''expand'', ''hunt'']"

definition check_scope :: "string \<times> jVal \<Rightarrow> go_error option" where
  "check_scope scope =
     (let presets = jget (snd scope) ''presets''; def = jget (snd scope) ''default'' in
      first_error
       [guard (fst scope \<notin> set scope_names) ''unknown saved filter scope'',
        guard (\<not> is_obj (snd scope) \<or> \<not> is_obj presets) ''saved filter scope needs a presets object'',
        guard (list_ex (\<lambda>p. trim_space (fst p) = [] \<or> \<not> is_obj (snd p)) (obj_of presets))
          ''saved filters need a nonempty name and an object value'',
        guard (def \<noteq> JNull \<and> (\<not> is_str def \<or> \<not> jhas presets (str_of def)))
          ''saved filter default must name an existing preset''])"

definition check_filters :: "jVal \<Rightarrow> go_error option" where
  "check_filters values =
     (if \<not> jhas values ''saved_filters'' then None
      else let filters = jget values ''saved_filters'' in
        if \<not> is_obj filters then Some (Msg ''saved_filters must be an object'')
        else first_error (map check_scope (obj_of filters)))"

definition bad_mood :: "jVal \<Rightarrow> bool" where
  "bad_mood mood \<longleftrightarrow> (let i = jget mood ''id''; n = jget mood ''name'' in
     \<not> is_obj mood \<or> \<not> is_str i \<or> str_of i = [] \<or> length (str_of i) > 128 \<or>
     \<not> is_str n \<or> trim_space (str_of n) = [] \<or> length (str_of n) > 80 \<or>
     \<not> is_arr (jget mood ''excluded_tags''))"

definition mood_id :: "jVal \<Rightarrow> string" where
  "mood_id mood = str_of (jget mood ''id'')"

definition mood_name :: "jVal \<Rightarrow> string" where
  "mood_name mood = to_lower (trim_space (str_of (jget mood ''name'')))"

text \<open>
  The body of a mood validates \<open>{"together_excluded_tags": excluded}\<close> by a recursive
  call. That object has neither \<open>saved_filters\<close> nor \<open>moods\<close>, so the call is
  \<open>check_fields\<close>; the lemma \<open>validateConfig_tags\<close> states that it is the call the code makes.
\<close>

fun check_mood_list :: "string list \<Rightarrow> string list \<Rightarrow> jVal list \<Rightarrow> go_error option" where
  "check_mood_list ids names [] = None"
| "check_mood_list ids names (m # ms) =
     (if bad_mood m
      then Some (Msg ''each mood needs a string id, a name, and an excluded_tags list'')
      else if mood_id m \<in> set ids \<or> mood_name m \<in> set names
      then Some (Msg ''mood ids and names must be unique'')
      else case check_fields (JObj [(''together_excluded_tags'', jget m ''excluded_tags'')]) of
        Some e \<Rightarrow> Some e
      | None \<Rightarrow> check_mood_list (mood_id m # ids) (mood_name m # names) ms)"

definition check_moods :: "jVal \<Rightarrow> go_error option" where
  "check_moods values =
     (if \<not> jhas values ''moods'' then None
      else let moods = jget values ''moods'' in
        if \<not> is_arr moods \<or> length (arr_of moods) > 50
        then Some (Msg ''moods must be a list of at most 50 moods'')
        else check_mood_list [] [] (arr_of moods))"

definition validateConfig :: "jVal \<Rightarrow> go_error option" where
  "validateConfig values = first_error [check_filters values, check_moods values, check_fields values]"

section \<open>Applying settings\<close>

record config_row =
  config_json :: string
  updated_at_ms :: int

text \<open>The singleton row, absent when the table has none.\<close>

type_synonym config_table = "config_row option"

definition stored_config :: "(string \<Rightarrow> jVal res) \<Rightarrow> config_table \<Rightarrow> jVal res" where
  "stored_config parse db =
     (case db of None \<Rightarrow> Inl No_Rows | Some row \<Rightarrow> parse (config_json row))"

text \<open>The loop over \<open>settingMapping\<close>: absent and empty settings are skipped.\<close>

fun collect_overrides :: "jVal \<Rightarrow> (string \<times> string \<times> settingConv) list \<Rightarrow> jVal \<Rightarrow> jVal res" where
  "collect_overrides settings [] acc = Inr acc"
| "collect_overrides settings ((src, key, conv) # rest) acc =
     (let v = jget settings src in
      if v = JNull \<or> v = JStr [] then collect_overrides settings rest acc
      else and_then (convertSetting v conv)
        (\<lambda>x. collect_overrides settings rest (jset acc key x)))"

definition settings_overrides :: "jVal \<Rightarrow> jVal res" where
  "settings_overrides settings =
     and_then (collect_overrides settings settingMapping (JObj [])) (\<lambda>acc.
       Inr (if jhas settings ''diversityDisabled''
            then jset acc ''diversity_enabled'' (JBool (\<not> truthy (jget settings ''diversityDisabled'')))
            else acc))"

definition applyPluginSettings ::
    "(string \<Rightarrow> jVal res) \<Rightarrow> config_table \<Rightarrow> jVal \<Rightarrow> int \<Rightarrow> config_table res" where
  "applyPluginSettings parse db settings nowMs =
     (if \<not> is_obj settings then Inr db
      else and_then (settings_overrides settings) (\<lambda>overrides.
        if obj_of overrides = [] then Inr db
        else and_then (stored_config parse db) (\<lambda>current.
          let merged = mergeObjects current overrides;
              effective = mergeObjects defaultPluginConfig current;
              validated = mergeObjects effective overrides
          in case validateConfig validated of
               Some e \<Rightarrow> Inl e
             | None \<Rightarrow>
                 if deepEqual merged current then Inr db
                 else Inr (Some \<lparr>config_json = marshalSortedKeys merged, updated_at_ms = nowMs\<rparr>))))"

definition sidecarConfig :: "(string \<Rightarrow> jVal res) \<Rightarrow> config_table \<Rightarrow> jVal res" where
  "sidecarConfig parse db =
     (case db of
        None \<Rightarrow> Inl No_Rows
      | Some row \<Rightarrow> and_then (parse (config_json row)) (\<lambda>stored.
          Inr (JObj [(''schema_version'', jvInt 2),
                     (''config'', mergeObjects defaultPluginConfig stored),
                     (''updated_at_ms'', jvInt (updated_at_ms row))])))"

section \<open>The update operation\<close>

definition allowedConfigKeys :: "string list" where
  "allowedConfigKeys =
    [''saved_filters'', ''moods'', ''together_excluded_tags'', ''page_size'',
     ''recommendation_endless_scroll'', ''diversity_enabled'', ''new_arrivals_include_unorganized'',
     ''rotation_cooldown_days'', ''sync_page_size'', ''debounce_ms'', ''model_update_event_threshold'',
     ''model_update_max_wait_minutes'', ''model_update_min_interval_minutes'', ''prune_tag_name'',
     ''expand_horizon_days'', ''expand_gender'', ''expand_wildcard'', ''auto_tasks_enabled'',
     ''schedule_expand_refresh_enabled'', ''schedule_expand_refresh_interval_hours'',
     ''schedule_expand_refresh_at_hour'', ''schedule_sync_build_enabled'',
     ''schedule_sync_build_interval_hours'', ''schedule_sync_build_at_hour'',
     ''schedule_backup_enabled'', ''schedule_backup_interval_hours'', ''schedule_backup_at_hour'']"

definition pythonListRepr :: "string list \<Rightarrow> string" where
  "pythonListRepr items = ''['' @ join_with '', '' (map (\<lambda>i. [CHR 0x27] @ i @ [CHR 0x27]) items) @ '']''"

definition unknown_keys :: "jVal \<Rightarrow> string list" where
  "unknown_keys values = filter (\<lambda>k. k \<notin> set allowedConfigKeys) (map fst (obj_of values))"

text \<open>
  \<open>updateConfigBody\<close>, on the table the sidecar opens with: the plugin settings of the
  request are applied when it is opened, and stay applied when the update is refused.
\<close>

definition updateConfigBody ::
    "(string \<Rightarrow> jVal res) \<Rightarrow> config_table \<Rightarrow> jVal \<Rightarrow> jVal \<Rightarrow> int \<Rightarrow> config_table \<times> jVal res" where
  "updateConfigBody parse db payload settings nowMs =
     (let values = jget (jget payload ''args'') ''values'' in
      if \<not> is_obj values then (db, Inl (Msg ''values must be an object''))
      else if unknown_keys values \<noteq> []
      then (db, Inl (Msg (''unknown configuration keys: '' @ pythonListRepr (sort (unknown_keys values)))))
      else case applyPluginSettings parse db settings nowMs of
        Inl e \<Rightarrow> (db, Inl e)
      | Inr db1 \<Rightarrow>
          (case sidecarConfig parse db1 of
             Inl e \<Rightarrow> (db1, Inl e)
           | Inr current \<Rightarrow>
               let merged = mergeObjects (jget current ''config'') values in
               (case validateConfig merged of
                  Some e \<Rightarrow> (db1, Inl e)
                | None \<Rightarrow>
                    let db2 = Some \<lparr>config_json = marshalSortedKeys merged, updated_at_ms = nowMs\<rparr>
                    in (db2, sidecarConfig parse db2))))"

section \<open>Validation, characterised\<close>

lemma first_error_None_iff: "first_error es = None \<longleftrightarrow> (\<forall>e \<in> set es. e = None)"
  by (induction es rule: first_error.induct) auto

lemma guard_None_iff [simp]: "guard bad msg = None \<longleftrightarrow> \<not> bad"
  by (simp add: guard_def)

text \<open>The accepted configurations, field by field.\<close>

definition int_schema :: "(string \<times> int \<times> int) list" where
  "int_schema =
    [(''schedule_expand_refresh_at_hour'', 0, 23), (''schedule_sync_build_at_hour'', 0, 23),
     (''schedule_backup_at_hour'', 0, 23), (''page_size'', 1, 500), (''sync_page_size'', 1, 500),
     (''rotation_cooldown_days'', 1, 30), (''debounce_ms'', 0, 60000),
     (''model_update_event_threshold'', 1, 100), (''expand_horizon_days'', 1, 3650),
     (''expand_candidate_limit'', 100, 10000), (''expand_similar_seed_top_k'', 0, 200),
     (''expand_similar_seed_per_favorite'', 0, 50)]"

definition optional :: "jVal \<Rightarrow> string \<Rightarrow> (jVal \<Rightarrow> bool) \<Rightarrow> bool" where
  "optional values key ok \<longleftrightarrow> jget values key = JNull \<or> ok (jget values key)"

definition tags_ok :: "jVal \<Rightarrow> bool" where
  "tags_ok v \<longleftrightarrow> (\<exists>ts. v = JArr ts \<and> length ts \<le> 50 \<and> (\<forall>t \<in> set ts. \<not> bad_tag t))"

definition minutes_ok :: "jVal \<Rightarrow> bool" where
  "minutes_ok v \<longleftrightarrow> isJSONNumber v \<and> (\<exists>f. pythonFloat v = (f, None) \<and>
     \<not> float_less f (Fin False 1) \<and> \<not> float_less (Fin False 1440) f)"

definition fields_ok :: "jVal \<Rightarrow> bool" where
  "fields_ok c \<longleftrightarrow>
     (\<forall>(key, lo, hi) \<in> set int_schema.
        optional c key (\<lambda>v. isJSONInt v \<and> lo \<le> pythonInt v \<and> pythonInt v \<le> hi)) \<and>
     (\<forall>key \<in> {''diversity_enabled'', ''recommendation_endless_scroll'',
        ''new_arrivals_include_unorganized'', ''expand_wildcard''}. optional c key is_bool) \<and>
     (\<forall>key \<in> {''model_update_max_wait_minutes'', ''model_update_min_interval_minutes''}.
        optional c key minutes_ok) \<and>
     optional c ''together_excluded_tags'' tags_ok \<and>
     optional c ''prune_tag_name''
       (\<lambda>v. is_str v \<and> trim_space (str_of v) \<noteq> [] \<and> length (str_of v) \<le> 100) \<and>
     optional c ''ignored_tags'' is_str \<and> optional c ''expand_gender'' is_str"

definition moods_ok :: "jVal \<Rightarrow> bool" where
  "moods_ok v \<longleftrightarrow> (\<exists>ms. v = JArr ms \<and> length ms \<le> 50 \<and>
     (\<forall>m \<in> set ms. \<not> bad_mood m \<and> tags_ok (jget m ''excluded_tags'')) \<and>
     distinct (map mood_id ms) \<and> distinct (map mood_name ms))"

definition filters_ok :: "jVal \<Rightarrow> bool" where
  "filters_ok v \<longleftrightarrow> (\<exists>scopes. v = JObj scopes \<and> (\<forall>(name, scope) \<in> set scopes.
     name \<in> set scope_names \<and> (\<exists>presets. jget scope ''presets'' = JObj presets \<and>
       (\<forall>(label, preset) \<in> set presets. trim_space label \<noteq> [] \<and> is_obj preset) \<and>
       optional scope ''default'' (\<lambda>d. is_str d \<and> str_of d \<in> fst ` set presets))))"

definition config_ok :: "jVal \<Rightarrow> bool" where
  "config_ok c \<longleftrightarrow>
     (jhas c ''saved_filters'' \<longrightarrow> filters_ok (jget c ''saved_filters'')) \<and>
     (jhas c ''moods'' \<longrightarrow> moods_ok (jget c ''moods'')) \<and> fields_ok c"

lemma is_obj_iff: "is_obj v \<longleftrightarrow> (\<exists>ps. v = JObj ps)"
  by (cases v) auto

lemma is_arr_iff: "is_arr v \<longleftrightarrow> (\<exists>xs. v = JArr xs)"
  by (cases v) auto

lemma is_str_iff: "is_str v \<longleftrightarrow> (\<exists>s. v = JStr s)"
  by (cases v) auto

lemma int_field_None_iff:
  "int_field c key lo hi msg = None \<longleftrightarrow>
     optional c key (\<lambda>v. isJSONInt v \<and> lo \<le> pythonInt v \<and> pythonInt v \<le> hi)"
  by (auto simp: int_field_def optional_def Let_def)

lemma minutes_field_None_iff: "minutes_field c key = None \<longleftrightarrow> optional c key minutes_ok"
  by (cases "pythonFloat (jget c key)") (auto simp: minutes_field_def optional_def minutes_ok_def Let_def)

lemma bool_field_None_iff: "bool_field c key = None \<longleftrightarrow> optional c key is_bool"
  by (auto simp: bool_field_def optional_def Let_def)

lemma str_field_None_iff: "str_field c key msg = None \<longleftrightarrow> optional c key is_str"
  by (auto simp: str_field_def optional_def Let_def)

lemma check_tags_None_iff: "check_tags c = None \<longleftrightarrow> optional c ''together_excluded_tags'' tags_ok"
  by (auto simp: check_tags_def optional_def tags_ok_def Let_def is_arr_iff list_ex_iff)

lemmas field_iffs = int_field_None_iff minutes_field_None_iff bool_field_None_iff
  str_field_None_iff check_tags_None_iff

lemma check_fields_None_iff: "check_fields c = None \<longleftrightarrow> fields_ok c"
proof -
  have "guard (jget c ''prune_tag_name'' \<noteq> JNull \<and> (\<not> is_str (jget c ''prune_tag_name'') \<or>
        trim_space (str_of (jget c ''prune_tag_name'')) = [] \<or>
        length (str_of (jget c ''prune_tag_name'')) > 100)) msg = None \<longleftrightarrow>
      optional c ''prune_tag_name''
        (\<lambda>v. is_str v \<and> trim_space (str_of v) \<noteq> [] \<and> length (str_of v) \<le> 100)" for msg
    by (auto simp: optional_def)
  then show ?thesis
    unfolding check_fields_def fields_ok_def int_schema_def
    by (simp add: first_error_None_iff field_iffs Let_def) blast
qed

text \<open>The recursive call made for a mood is the check of its excluded tags.\<close>

lemma validateConfig_tags:
  "validateConfig (JObj [(''together_excluded_tags'', t)]) =
     check_fields (JObj [(''together_excluded_tags'', t)])"
  by (cases "check_fields (JObj [(''together_excluded_tags'', t)])")
    (simp_all add: validateConfig_def check_filters_def check_moods_def jhas_JObj)

lemma check_fields_tags:
  "check_fields (JObj [(''together_excluded_tags'', t)]) = None \<longleftrightarrow> t = JNull \<or> tags_ok t"
  by (simp add: check_fields_None_iff fields_ok_def int_schema_def optional_def jget_JObj)

lemma check_mood_list_None_iff:
  "check_mood_list ids names ms = None \<longleftrightarrow>
     (\<forall>m \<in> set ms. \<not> bad_mood m \<and> tags_ok (jget m ''excluded_tags'')) \<and>
     distinct (map mood_id ms) \<and> distinct (map mood_name ms) \<and>
     set (map mood_id ms) \<inter> set ids = {} \<and> set (map mood_name ms) \<inter> set names = {}"
proof (induction ids names ms rule: check_mood_list.induct)
  case (1 ids names)
  then show ?case by simp
next
  case (2 ids names m ms)
  show ?case
  proof (cases "bad_mood m \<or> mood_id m \<in> set ids \<or> mood_name m \<in> set names")
    case True
    then show ?thesis by auto
  next
    case False
    let ?tags = "jget m ''excluded_tags''"
    let ?call = "check_fields (JObj [(''together_excluded_tags'', ?tags)])"
    have "?tags \<noteq> JNull" using False by (auto simp: bad_mood_def Let_def)
    then have call: "?call = None \<longleftrightarrow> tags_ok ?tags"
      by (simp add: check_fields_tags)
    show ?thesis
    proof (cases "?call")
      case None
      with False call 2 show ?thesis by auto
    next
      case (Some e)
      with False call show ?thesis by auto
    qed
  qed
qed

lemma check_moods_None_iff:
  "check_moods c = None \<longleftrightarrow> (jhas c ''moods'' \<longrightarrow> moods_ok (jget c ''moods''))"
  by (auto simp: check_moods_def moods_ok_def Let_def is_arr_iff check_mood_list_None_iff)

lemma check_scope_None_iff:
  "check_scope (name, scope) = None \<longleftrightarrow> name \<in> set scope_names \<and>
     (\<exists>presets. jget scope ''presets'' = JObj presets \<and>
       (\<forall>(label, preset) \<in> set presets. trim_space label \<noteq> [] \<and> is_obj preset) \<and>
       optional scope ''default'' (\<lambda>d. is_str d \<and> str_of d \<in> fst ` set presets))"
proof (cases "jget scope ''presets''")
  case (JObj presets)
  then have "is_obj scope" using jget_not_obj [of scope "''presets''"] by auto
  with JObj show ?thesis
    by (auto simp: check_scope_def Let_def first_error_None_iff list_ex_iff optional_def jhas_JObj)
qed (simp_all add: check_scope_def Let_def first_error_None_iff del: not_None_eq)

lemma ball_pairs: "(\<forall>p \<in> S. P p) \<longleftrightarrow> (\<forall>a b. (a, b) \<in> S \<longrightarrow> P (a, b))"
  by auto

lemma check_filters_None_iff:
  "check_filters c = None \<longleftrightarrow> (jhas c ''saved_filters'' \<longrightarrow> filters_ok (jget c ''saved_filters''))"
  by (cases "jget c ''saved_filters''")
    (simp_all add: check_filters_def filters_ok_def first_error_None_iff ball_pairs check_scope_None_iff)

section \<open>Overlays\<close>

text \<open>Validation reads a configuration through \<open>get\<close> and \<open>has\<close> only.\<close>

lemma config_ok_cong:
  assumes "\<And>k. jget a k = jget b k" and "\<And>k. jhas a k = jhas b k"
  shows "config_ok a = config_ok b"
  by (simp add: config_ok_def fields_ok_def optional_def assms)

definition distinct_keys :: "jVal \<Rightarrow> bool" where
  "distinct_keys v \<longleftrightarrow> distinct (map fst (obj_of v))"

lemma distinct_keys_merge: "distinct_keys a \<Longrightarrow> distinct_keys (mergeObjects a b)"
  by (simp add: distinct_keys_def mergeObjects_pairs pair_dict.distinct_update_all)

lemma distinct_keys_jset: "distinct_keys a \<Longrightarrow> distinct_keys (jset a k v)"
  using pair_dict.distinct_update_all [of "obj_of a" "[(k, v)]"]
  by (cases a) (auto simp: distinct_keys_def jset_def)

lemma map_of_rev_distinct: "distinct (map fst ps) \<Longrightarrow> map_of (rev ps) = map_of ps"
  by (rule map_of_eqI) (auto simp: rev_map [symmetric])

lemma map_of_merge:
  "map_of (obj_of (mergeObjects a b)) = map_of (obj_of a) ++ map_of (rev (obj_of b))"
  using pair_dict.lookup_update_all [of "obj_of b" "obj_of a"]
  by (simp add: mergeObjects_pairs pairs_get_map_of)

lemma map_of_overlay:
  assumes "distinct_keys b"
  shows "map_of (obj_of (mergeObjects a (mergeObjects b c))) =
    map_of (obj_of (mergeObjects (mergeObjects a b) c))"
  using assms distinct_keys_merge [OF assms, of c] unfolding distinct_keys_def
  by (simp add: map_of_merge map_of_rev_distinct)

lemma merge_is_obj [simp]: "is_obj (mergeObjects a b)"
  by (simp add: mergeObjects_pairs)

lemma jget_obj: "is_obj v \<Longrightarrow> jget v k = (case map_of (obj_of v) k of Some x \<Rightarrow> x | None \<Rightarrow> JNull)"
  by (cases v) (simp_all add: jget_JObj)

lemma jhas_obj: "is_obj v \<Longrightarrow> jhas v k \<longleftrightarrow> map_of (obj_of v) k \<noteq> None"
  by (cases v) (simp_all add: jhas_def pairs_get_map_of)

lemma config_ok_overlay:
  "distinct_keys b \<Longrightarrow> config_ok (mergeObjects a (mergeObjects b c)) = config_ok (mergeObjects (mergeObjects a b) c)"
  by (rule config_ok_cong) (simp_all add: jget_obj jhas_obj map_of_overlay)

lemma collect_overrides_shape:
  "collect_overrides settings ms acc = Inr acc' \<Longrightarrow> is_obj acc \<Longrightarrow> distinct_keys acc \<Longrightarrow>
     is_obj acc' \<and> distinct_keys acc'"
proof (induction settings ms acc rule: collect_overrides.induct)
  case (2 settings src key conv rest acc)
  have "is_obj (jset acc key x)" for x
    using "2.prems"(2) by (cases acc) (auto simp: jset_def)
  with 2 show ?case
    by (auto simp: Let_def and_then_Inr_iff distinct_keys_jset split: if_splits)
qed simp

lemma settings_overrides_shape:
  "settings_overrides settings = Inr ov \<Longrightarrow> is_obj ov \<and> distinct_keys ov"
proof -
  assume "settings_overrides settings = Inr ov"
  then obtain acc where acc: "collect_overrides settings settingMapping (JObj []) = Inr acc"
      and ov: "ov = (if jhas settings ''diversityDisabled''
        then jset acc ''diversity_enabled'' (JBool (\<not> truthy (jget settings ''diversityDisabled'')))
        else acc)"
    by (auto simp: settings_overrides_def and_then_Inr_iff)
  from collect_overrides_shape [OF acc] have "is_obj acc" "distinct_keys acc"
    by (simp_all add: distinct_keys_def)
  then show ?thesis
    by (cases acc) (auto simp: ov distinct_keys_jset jset_def intro: distinct_keys_jset [of "JObj _", unfolded jset_def, simplified])
qed

section \<open>The defaults are valid\<close>

lemma jget_Cons:
  "jget (JObj ((k', v) # ps)) k = (if k' = k then v else jget (JObj ps) k)"
  "jget (JObj []) k = JNull"
  by (simp_all add: jget_def)

lemma jvInt_not_other [simp]: "jvInt n \<noteq> JNull" "jvInt n \<noteq> JStr s"
  by (simp_all add: jvInt_def)

lemma pythonInt_small [simp]: "0 \<le> n \<Longrightarrow> n \<le> 100000 \<Longrightarrow> pythonInt (jvInt n) = n"
  by (simp add: pythonInt_jvInt min_int64_def max_int64_def)

lemma parse_float_minutes:
  "parse_float ''30'' = (Fin False 30, Float_Ok)" "parse_float ''60'' = (Fin False 60, Float_Ok)"
proof -
  have log: "floor_log2 30 = 4" "floor_log2 60 = 5"
    by (simp_all add: floor_log2_def bit_length.simps pow2_def quotient_of_number)
  have mag: "round_mag 30 = 30" "round_mag 60 = 60"
    using round_mag_int [of 30] round_mag_int [of 60] by (simp_all add: log)
  have dec: "parse_decimal ''30'' = Some 30" "parse_decimal ''60'' = Some 60"
    by code_simp+
  have sign: "split_sign ''30'' = (False, ''30'')" "split_sign ''60'' = (False, ''60'')"
    by code_simp+
  have low: "to_lower ''30'' = ''30''" "to_lower ''60'' = ''60''"
    by code_simp+
  show "parse_float ''30'' = (Fin False 30, Float_Ok)" "parse_float ''60'' = (Fin False 60, Float_Ok)"
    by (simp_all add: parse_float_def dec sign low round64_def mag pow2_def)
qed

lemma minutes_ok_default: "minutes_ok (jvInt 30)" "minutes_ok (jvInt 60)"
proof -
  have "itoa 30 = ''30''" "itoa 60 = ''60''"
    by code_simp+
  then show "minutes_ok (jvInt 30)" "minutes_ok (jvInt 60)"
    by (simp_all add: minutes_ok_def jvInt_def parse_float_minutes)
qed

lemma prune_tag_default: "trim_space ''[Prune]'' = ''[Prune]''"
  by (simp add: trim_space_ascii is_space_rune_def)

lemma default_is_obj [simp]: "is_obj defaultPluginConfig" "JObj (obj_of defaultPluginConfig) = defaultPluginConfig"
  by (simp_all add: defaultPluginConfig_def)

lemma merge_default_Nil [simp]: "mergeObjects defaultPluginConfig (JObj []) = defaultPluginConfig"
  by (simp add: mergeObjects_pairs)

lemma int_fields_default:
  "map (\<lambda>(key, lo, hi). jget defaultPluginConfig key) int_schema =
     [JNull, JNull, JNull, jvInt 20, jvInt 250, jvInt 7, jvInt 2000, jvInt 5, jvInt 90, jvInt 1000,
      jvInt 20, jvInt 5]"
  by (simp add: int_schema_def defaultPluginConfig_def jget_Cons)

lemma other_fields_default:
  "jget defaultPluginConfig ''diversity_enabled'' = JBool True"
  "jget defaultPluginConfig ''recommendation_endless_scroll'' = JBool False"
  "jget defaultPluginConfig ''new_arrivals_include_unorganized'' = JBool False"
  "jget defaultPluginConfig ''expand_wildcard'' = JBool False"
  "jget defaultPluginConfig ''model_update_max_wait_minutes'' = jvInt 30"
  "jget defaultPluginConfig ''model_update_min_interval_minutes'' = jvInt 60"
  "jget defaultPluginConfig ''together_excluded_tags'' = JArr []"
  "jget defaultPluginConfig ''prune_tag_name'' = JStr ''[Prune]''"
  "jget defaultPluginConfig ''ignored_tags'' = JStr []"
  "jget defaultPluginConfig ''expand_gender'' = JStr ''FEMALE''"
  by (simp_all add: defaultPluginConfig_def jget_Cons)

lemma fields_ok_default: "fields_ok defaultPluginConfig"
  unfolding fields_ok_def
proof (intro conjI)
  show "\<forall>(key, lo, hi) \<in> set int_schema. optional defaultPluginConfig key
      (\<lambda>v. isJSONInt v \<and> lo \<le> pythonInt v \<and> pythonInt v \<le> hi)"
    using int_fields_default by (simp add: int_schema_def optional_def)
qed (simp_all add: optional_def other_fields_default minutes_ok_default tags_ok_def prune_tag_default)

lemma mood_default:
  "bad_mood (JObj [(''id'', JStr ''together''), (''name'', JStr ''Together''), (''excluded_tags'', JArr [])]) = False"
  by (simp add: bad_mood_def jget_Cons trim_space_ascii is_space_rune_def)

lemma config_ok_default: "config_ok defaultPluginConfig"
proof -
  have "jget defaultPluginConfig ''moods'' = JArr [JObj [(''id'', JStr ''together''),
      (''name'', JStr ''Together''), (''excluded_tags'', JArr [])]]"
    by (simp add: defaultPluginConfig_def jget_Cons)
  then show ?thesis
    by (simp add: config_ok_def fields_ok_default moods_ok_def mood_default jget_Cons tags_ok_def)
      (simp add: defaultPluginConfig_def jhas_JObj)
qed

lemma mergeObjects_page_size:
  "jget (mergeObjects a (JObj [(''page_size'', v)])) key = (if key = ''page_size'' then v else jget (JObj (obj_of a)) key)"
  "jhas (mergeObjects a (JObj [(''page_size'', v)])) key \<longleftrightarrow> key = ''page_size'' \<or> jhas (JObj (obj_of a)) key"
  by (auto simp: jget_obj jhas_obj map_of_merge)

lemma config_ok_page_size:
  assumes "config_ok c" "is_obj c" "1 \<le> n" "n \<le> 500"
  shows "config_ok (mergeObjects c (JObj [(''page_size'', jvInt n)]))"
proof -
  have "JObj (obj_of c) = c" using assms(2) by (cases c) auto
  with assms show ?thesis
    by (simp add: config_ok_def fields_ok_def int_schema_def optional_def mergeObjects_page_size)
qed

lemma distinct_keys_default: "distinct_keys defaultPluginConfig"
  by (simp add: distinct_keys_def defaultPluginConfig_def)

lemma config_ok_reread:
  assumes "distinct_keys a"
  shows "config_ok (mergeObjects a (mergeObjects (mergeObjects a b) c)) = config_ok (mergeObjects (mergeObjects a b) c)"
proof -
  have "map_of (rev (obj_of (mergeObjects (mergeObjects a b) c))) =
      map_of (obj_of (mergeObjects (mergeObjects a b) c))"
    using assms by (intro map_of_rev_distinct) (simp add: distinct_keys_merge flip: distinct_keys_def)
  then have "map_of (obj_of (mergeObjects a (mergeObjects (mergeObjects a b) c))) =
      map_of (obj_of (mergeObjects (mergeObjects a b) c))"
    by (simp add: map_of_merge map_add_def fun_eq_iff split: option.splits)
  then show ?thesis
    by (intro config_ok_cong) (simp_all add: jget_obj jhas_obj)
qed

section \<open>Properties\<close>

lemmas config_iffs = validateConfig_def first_error_None_iff check_filters_None_iff
  check_moods_None_iff check_fields_None_iff config_ok_def


text \<open>
  C3. Applying plugin settings never stores a configuration the sidecar would reject.
\<close>

theorem applyPluginSettings_keeps_valid:
  assumes run: "applyPluginSettings parse db settings now = Inr db'"
    and stored: "stored_config parse db = Inr current" and dist: "distinct_keys current"
  shows "db' = db \<or> (\<exists>overrides merged. settings_overrides settings = Inr overrides \<and>
    db' = Some \<lparr>config_json = marshalSortedKeys merged, updated_at_ms = now\<rparr> \<and>
    config_ok (mergeObjects defaultPluginConfig merged) \<and>
    (\<forall>key. jget merged key = (if jhas overrides key then jget overrides key else jget (JObj (obj_of current)) key)))"
proof (cases "db' = db")
  case True
  then show ?thesis by simp
next
  case False
  obtain ov where ov: "settings_overrides settings = Inr ov"
    using run False by (auto simp: applyPluginSettings_def and_then_Inr_iff split: if_splits)
  have ok: "validateConfig (mergeObjects (mergeObjects defaultPluginConfig current) ov) = None"
    and db': "db' = Some \<lparr>config_json = marshalSortedKeys (mergeObjects current ov), updated_at_ms = now\<rparr>"
    using run False stored ov
    by (auto simp: applyPluginSettings_def Let_def split: if_splits option.splits)
  have "config_ok (mergeObjects defaultPluginConfig (mergeObjects current ov))"
    unfolding config_ok_overlay [OF dist] using ok by (simp add: config_iffs)
  moreover have "jget (mergeObjects current ov) key =
      (if jhas ov key then jget ov key else jget (JObj (obj_of current)) key)" for key
    using settings_overrides_shape [OF ov] by (intro mergeObjects_get) (simp add: distinct_keys_def)
  ultimately show ?thesis
    using ov db' by blast
qed

definition empty_config_parse :: "string \<Rightarrow> jVal res" where
  "empty_config_parse s = (if s = ''{}'' then Inr (JObj []) else Inl (Msg ''invalid character''))"

lemma applyPluginSettings_keeps_valid_witness:
  "\<exists>merged. applyPluginSettings empty_config_parse (Some \<lparr>config_json = ''{}'', updated_at_ms = 0\<rparr>)
      (JObj [(''pageSize'', JNum ''40''), (''expandGender'', JStr [])]) 7
    = Inr (Some \<lparr>config_json = marshalSortedKeys merged, updated_at_ms = 7\<rparr>)
    \<and> config_ok (mergeObjects defaultPluginConfig merged) \<and> jget merged ''page_size'' = jvInt 40"
proof -
  let ?s = "JObj [(''pageSize'', JNum ''40''), (''expandGender'', JStr [])]"
  let ?db = "Some \<lparr>config_json = ''{}'', updated_at_ms = 0\<rparr>"
  have forty: "JNum ''40'' = jvInt 40" by code_simp
  have ov: "settings_overrides ?s = Inr (JObj [(''page_size'', jvInt 40)])"
    unfolding forty
    by (simp add: settings_overrides_def settingMapping_def jget_Cons Let_def jset_def jhas_JObj
        pythonIntErr_jvInt min_int64_def max_int64_def)
  have "validateConfig (mergeObjects (mergeObjects defaultPluginConfig (JObj [])) (JObj [(''page_size'', jvInt 40)])) = None"
    using config_ok_page_size [OF config_ok_default, of 40] by (simp add: config_iffs)
  then have run: "applyPluginSettings empty_config_parse ?db ?s 7 =
      Inr (Some \<lparr>config_json = marshalSortedKeys (mergeObjects (JObj []) (JObj [(''page_size'', jvInt 40)])),
        updated_at_ms = 7\<rparr>)"
    by (simp add: applyPluginSettings_def ov stored_config_def empty_config_parse_def mergeObjects_pairs)
  have "stored_config empty_config_parse ?db = Inr (JObj [])" "distinct_keys (JObj [])"
    by (simp_all add: stored_config_def empty_config_parse_def distinct_keys_def)
  from applyPluginSettings_keeps_valid [OF run this] show ?thesis
    unfolding run ov by (auto simp: jhas_JObj jget_Cons)
qed

text \<open>
  C2. An accepted \<open>update_config\<close> names only allowed keys, starts from the effective
  configuration after the plugin settings, changes exactly the given keys, and leaves an
  effective configuration that passes validation.
\<close>

theorem updateConfigBody_correct:
  assumes run: "updateConfigBody parse db payload settings now = (db', Inr answer)"
    and given: "values = jget (jget payload ''args'') ''values''" and dist: "distinct_keys values"
  shows "\<exists>db1 current merged. applyPluginSettings parse db settings now = Inr db1 \<and>
    stored_config parse db1 = Inr current \<and>
    db' = Some \<lparr>config_json = marshalSortedKeys merged, updated_at_ms = now\<rparr> \<and>
    (\<forall>key. jhas values key \<longrightarrow> key \<in> set allowedConfigKeys) \<and>
    config_ok (mergeObjects defaultPluginConfig merged) \<and>
    (\<forall>key. jget merged key =
      (if jhas values key then jget values key else jget (mergeObjects defaultPluginConfig current) key))"
proof -
  have ok: "is_obj values" "unknown_keys values = []"
    using run unfolding given by (auto simp: updateConfigBody_def Let_def split: if_splits)
  obtain db1 where db1: "applyPluginSettings parse db settings now = Inr db1"
    using run ok unfolding given
    by (auto simp: updateConfigBody_def Let_def split: sum.splits)
  obtain current where current: "stored_config parse db1 = Inr current"
      and valid: "validateConfig (mergeObjects (mergeObjects defaultPluginConfig current) values) = None"
      and db': "db' = Some \<lparr>config_json = marshalSortedKeys
        (mergeObjects (mergeObjects defaultPluginConfig current) values), updated_at_ms = now\<rparr>"
    using run ok db1 unfolding given
    by (auto simp: updateConfigBody_def Let_def sidecarConfig_def stored_config_def and_then_Inr_iff jget_Cons
        split: sum.splits option.splits)
  let ?merged = "mergeObjects (mergeObjects defaultPluginConfig current) values"
  have "config_ok (mergeObjects defaultPluginConfig ?merged)"
    unfolding config_ok_reread [OF distinct_keys_default] using valid by (simp add: config_iffs)
  moreover have "jget ?merged key = (if jhas values key then jget values key
      else jget (mergeObjects defaultPluginConfig current) key)" for key
    using mergeObjects_get [of "values" "mergeObjects defaultPluginConfig current" key] dist
    by (simp add: distinct_keys_def mergeObjects_pairs)
  moreover have "jhas values key \<Longrightarrow> key \<in> set allowedConfigKeys" for key
    using ok by (cases "values") (auto simp: unknown_keys_def jhas_JObj filter_empty_conv)
  ultimately show ?thesis
    using db1 current db' by blast
qed

lemma updateConfigBody_correct_witness:
  "\<exists>merged answer. updateConfigBody (\<lambda>s. Inr (JObj [])) (Some \<lparr>config_json = ''{}'', updated_at_ms = 0\<rparr>)
      (JObj [(''args'', JObj [(''values'', JObj [(''page_size'', jvInt 40)])])]) JNull 7
    = (Some \<lparr>config_json = marshalSortedKeys merged, updated_at_ms = 7\<rparr>, Inr answer)
    \<and> config_ok (mergeObjects defaultPluginConfig merged) \<and> jget merged ''page_size'' = jvInt 40"
proof -
  let ?db = "Some \<lparr>config_json = ''{}'', updated_at_ms = 0\<rparr>"
  let ?v = "JObj [(''page_size'', jvInt 40)]"
  let ?p = "JObj [(''args'', JObj [(''values'', ?v)])]"
  have valid: "validateConfig (mergeObjects defaultPluginConfig ?v) = None"
    using config_ok_page_size [OF config_ok_default, of 40] by (simp add: config_iffs)
  have run: "updateConfigBody (\<lambda>s. Inr (JObj [])) ?db ?p JNull 7 =
      (Some \<lparr>config_json = marshalSortedKeys (mergeObjects defaultPluginConfig ?v), updated_at_ms = 7\<rparr>,
       Inr (JObj [(''schema_version'', jvInt 2), (''config'', defaultPluginConfig), (''updated_at_ms'', jvInt 7)]))"
    by (simp add: updateConfigBody_def jget_Cons unknown_keys_def allowedConfigKeys_def
        applyPluginSettings_def sidecarConfig_def valid)
  have "?v = jget (jget ?p ''args'') ''values''" "distinct_keys ?v"
    by (simp_all add: jget_Cons distinct_keys_def)
  from updateConfigBody_correct [OF run this] show ?thesis
    unfolding run by (auto simp: jhas_JObj jget_Cons)
qed

end
