(* ===== verification/Transactions.thy ===== *)
theory Transactions
  imports Prelude Go_Strings
begin

text \<open>
  Write transactions with bounded busy retries: \<open>withTxn\<close> of \<open>core/backups.go\<close> and
  \<open>execImmediate\<close>, \<open>isBusyError\<close>, \<open>busyRetryBackoff\<close> of \<open>core/ops.go\<close>. The pool
  holds one connection (\<open>SetMaxOpenConns(1)\<close>); what SQLite answers to each statement of
  an attempt is the argument \<open>env\<close>.
\<close>

section \<open>The connection\<close>

text \<open>The committed database, and the uncommitted one of an open transaction.\<close>

record 's pool =
  committed :: 's
  open_txn :: "'s option"

text \<open>
  What happens in one attempt: the errors of \<open>db.Conn\<close>, \<open>BEGIN IMMEDIATE\<close> and
  \<open>COMMIT\<close>, and what the callback answers and writes.
\<close>

record 's attempt =
  conn_error :: "string option"
  begin_error :: "string option"
  callback :: "'s \<Rightarrow> string option \<times> 's"
  commit_error :: "string option"

definition isBusyError :: "string option \<Rightarrow> bool" where
  "isBusyError err =
     (case err of
        None \<Rightarrow> False
      | Some m \<Rightarrow> str_contains (to_lower m) ''locked'' \<or> str_contains (to_lower m) ''busy'')"

definition busyRetryAttempts :: nat where "busyRetryAttempts = 3"

definition busyRetryBackoff :: "int \<Rightarrow> int" where
  "busyRetryBackoff attempt = 150 * (attempt + 1)"

text \<open>SQLite refuses to begin a transaction inside another.\<close>

definition nested_begin :: string where
  "nested_begin = ''cannot start a transaction within a transaction''"

definition begin_immediate :: "'s attempt \<Rightarrow> 's pool \<Rightarrow> string option" where
  "begin_immediate a p = (if open_txn p \<noteq> None then Some nested_begin else begin_error a)"

section \<open>The retry loop\<close>

text \<open>One pass of the loop: it returns, or goes on to the next attempt after a busy error.\<close>

datatype 's outcome = Returns "string option" "'s pool" | Retries string "'s pool"

definition give_up_or_retry :: "bool \<Rightarrow> string \<Rightarrow> 's pool \<Rightarrow> 's outcome" where
  "give_up_or_retry final e p =
     (if isBusyError (Some e) \<and> \<not> final then Retries e p else Returns (Some e) p)"

definition run_attempt :: "bool \<Rightarrow> 's attempt \<Rightarrow> 's pool \<Rightarrow> 's outcome" where
  "run_attempt final a p =
     (case conn_error a of
        Some e \<Rightarrow> Returns (Some e) p
      | None \<Rightarrow>
         (case begin_immediate a p of
            Some e \<Rightarrow> give_up_or_retry final e p
          | None \<Rightarrow>
             (case callback a (committed p) of
                (Some e, w) \<Rightarrow> give_up_or_retry final e (p\<lparr>open_txn := None\<rparr>)
              | (None, w) \<Rightarrow>
                 (case commit_error a of
                    Some e \<Rightarrow> Returns (Some e) (p\<lparr>open_txn := Some w\<rparr>)
                  | None \<Rightarrow> Returns None (p\<lparr>committed := w, open_txn := None\<rparr>)))))"

text \<open>
  The loop from attempt \<open>i\<close>, with the last error and the milliseconds slept so far; the
  result is the error returned, the pool, and the time slept.
\<close>

function txn_loop ::
    "(nat \<Rightarrow> 's attempt) \<Rightarrow> nat \<Rightarrow> string option \<Rightarrow> int \<Rightarrow> 's pool \<Rightarrow> string option \<times> 's pool \<times> int" where
  "txn_loop env i lastErr slept p =
     (if i \<ge> busyRetryAttempts then (lastErr, p, slept)
      else case run_attempt (i = busyRetryAttempts - 1) (env i) p of
        Returns err p' \<Rightarrow> (err, p', slept)
      | Retries e p' \<Rightarrow> txn_loop env (i + 1) (Some e) (slept + busyRetryBackoff (int i)) p')"
  by pat_completeness auto
termination
  by (relation "measure (\<lambda>(env, i, _). busyRetryAttempts - i)") auto

declare txn_loop.simps [simp del]


text \<open>\<open>execImmediate\<close> is the same loop around one statement.\<close>

definition execImmediate ::
    "(nat \<Rightarrow> 's attempt) \<Rightarrow> ('s \<Rightarrow> string option \<times> 's) \<Rightarrow> 's pool \<Rightarrow> string option \<times> 's pool \<times> int" where
  "execImmediate env stmt p = txn_loop (\<lambda>i. (env i)\<lparr>callback := stmt\<rparr>) 0 None 0 p"

section \<open>Atomicity\<close>











end
