(* ===== verification/Model_Updates.thy ===== *)
theory Model_Updates
  imports Prelude
begin

text \<open>
  The model update coordinator: the singleton \<open>model_update_state\<close>, its requests
  (\<open>coordinatorRequest\<close> in \<open>core/writes.go\<close>), the build loop (\<open>coordinatorDrain\<close> in
  \<open>core/modelbuild3.go\<close>), and the readiness test of the scheduler (\<open>core/ops.go\<close>).
  The model build itself is an argument: the requests other processes make while it
  runs, and whether it fails.
\<close>

section \<open>State\<close>

record model_update_state =
  requested_generation :: int
  published_generation :: int
  requested_at_ms :: "int option"
  last_started_at_ms :: "int option"
  last_finished_at_ms :: "int option"
  last_duration_ms :: "int option"
  last_cause :: "string option"
  last_error :: "string option"
  stage_timings_json :: string

definition initial_update_state :: model_update_state where
  "initial_update_state = \<lparr>requested_generation = 0, published_generation = 0, requested_at_ms = None,
     last_started_at_ms = None, last_finished_at_ms = None, last_duration_ms = None,
     last_cause = None, last_error = None, stage_timings_json = ''{}''\<rparr>"

definition pending :: "model_update_state \<Rightarrow> bool" where
  "pending s \<longleftrightarrow> requested_generation s > published_generation s"

definition pendingCount :: "model_update_state \<Rightarrow> int" where
  "pendingCount s =
     (if requested_generation s > published_generation s
      then requested_generation s - published_generation s else 0)"

text \<open>The error text is cut at 2000 bytes.\<close>

definition truncateString :: "string \<Rightarrow> nat \<Rightarrow> string" where
  "truncateString s n = (if length s \<le> n then s else take n s)"

section \<open>Operations\<close>

definition coordinatorRequest :: "string \<Rightarrow> int \<Rightarrow> model_update_state \<Rightarrow> model_update_state res" where
  "coordinatorRequest cause nowMs s =
     (if cause = [] then Inl (Msg ''update cause must not be empty'')
      else Inr (s\<lparr>requested_generation := requested_generation s + 1,
        requested_at_ms := (if requested_generation s = published_generation s then Some nowMs
                            else requested_at_ms s),
        last_cause := Some cause\<rparr>))"

definition six_hours :: int where "six_hours = 6 * 3600000"

definition building :: "int \<Rightarrow> model_update_state \<Rightarrow> bool" where
  "building now s \<longleftrightarrow>
     (case last_started_at_ms s of
        None \<Rightarrow> False
      | Some st \<Rightarrow>
          (case last_finished_at_ms s of None \<Rightarrow> True | Some f \<Rightarrow> st > f) \<and>
          last_error s = None \<and> now - st < six_hours)"

text \<open>
  The first transaction of a pass: nothing to do, or the build of a generation begins.
\<close>

definition drain_begin ::
    "bool \<Rightarrow> int \<Rightarrow> model_update_state \<Rightarrow> (int \<times> model_update_state) option" where
  "drain_begin force now s =
     (let requested_at = (case requested_at_ms s of Some t \<Rightarrow> t | None \<Rightarrow> now) in
      if \<not> pending s \<or> building now s \<or> (\<not> force \<and> now - requested_at < 2000) then None
      else Some (requested_generation s, s\<lparr>last_started_at_ms := Some now, last_error := None\<rparr>))"

definition drain_fail :: "string \<Rightarrow> model_update_state \<Rightarrow> model_update_state" where
  "drain_fail err s = s\<lparr>last_error := Some (truncateString err 2000)\<rparr>"

definition drain_publish ::
    "int \<Rightarrow> int \<Rightarrow> int \<Rightarrow> string \<Rightarrow> model_update_state \<Rightarrow> model_update_state" where
  "drain_publish generation now duration timings s =
     s\<lparr>published_generation := generation, last_finished_at_ms := Some now,
       last_duration_ms := Some duration, last_error := None, stage_timings_json := timings\<rparr>"

text \<open>
  One model build as the coordinator sees it: when it began and ended, the requests that
  were recorded meanwhile, and its outcome (the error, or the stage timings).
\<close>

record model_build =
  begin_ms :: int
  meanwhile :: "(string \<times> int) list"
  outcome :: "string + string"
  duration_ms :: int
  end_ms :: int

definition requests :: "(string \<times> int) list \<Rightarrow> model_update_state \<Rightarrow> model_update_state" where
  "requests rs s = fold (\<lambda>(cause, now) s.
     case coordinatorRequest cause now s of Inr s' \<Rightarrow> s' | Inl e \<Rightarrow> s) rs s"

text \<open>\<open>coordinatorDrain\<close> with \<open>maxBuilds\<close> the length of the list; it returns the builds made.\<close>

fun coordinatorDrain ::
    "bool \<Rightarrow> model_build list \<Rightarrow> model_update_state \<Rightarrow> string res \<times> nat \<times> model_update_state" where
  "coordinatorDrain force [] s = (Inr [], 0, s)"
| "coordinatorDrain force (b # bs) s =
     (case drain_begin force (begin_ms b) s of
        None \<Rightarrow> (Inr [], 0, s)
      | Some (generation, s1) \<Rightarrow>
          let s2 = requests (meanwhile b) s1 in
          (case outcome b of
             Inl err \<Rightarrow> (Inl (Msg err), 0, drain_fail err s2)
           | Inr timings \<Rightarrow>
               let s3 = drain_publish generation (end_ms b) (duration_ms b) timings s2;
                   (r, n, s4) = coordinatorDrain force bs s3
               in (r, n + 1, s4)))"

definition modelUpdateReady :: "model_update_state \<Rightarrow> int \<Rightarrow> int \<Rightarrow> int \<Rightarrow> int \<Rightarrow> bool" where
  "modelUpdateReady s nowMs eventThreshold maxWaitMs minIntervalMs =
     (if \<not> pending s then False
      else let enoughEvents = pendingCount s \<ge> eventThreshold;
               waitedLongEnough = (case requested_at_ms s of Some t \<Rightarrow> nowMs - t \<ge> maxWaitMs | None \<Rightarrow> False);
               intervalElapsed = (case last_finished_at_ms s of None \<Rightarrow> True | Some t \<Rightarrow> nowMs - t \<ge> minIntervalMs)
           in intervalElapsed \<and> (enoughEvents \<or> waitedLongEnough))"

text \<open>The interrupted build of a dead worker, as \<open>recoverOrphanJobs\<close> records it.\<close>

definition mark_interrupted :: "model_update_state \<Rightarrow> model_update_state" where
  "mark_interrupted s =
     (case last_started_at_ms s of
        None \<Rightarrow> s
      | Some st \<Rightarrow>
          if st > (case last_finished_at_ms s of Some f \<Rightarrow> f | None \<Rightarrow> -1) \<and> last_error s = None
          then s\<lparr>last_error := Some ''interrupted before task completion''\<rparr> else s)"

section \<open>Reachable states\<close>

text \<open>
  The steps of concurrent processes: a request, the begin and the end of a build of the
  generation it captured, and recovery. A build publishes the generation requested when
  it began, which other builds may not have overtaken.
\<close>

inductive update_step :: "model_update_state \<Rightarrow> model_update_state \<Rightarrow> bool" where
  step_request: "coordinatorRequest cause now s = Inr t \<Longrightarrow> update_step s t"
| step_begin: "drain_begin force now s = Some (g, t) \<Longrightarrow> update_step s t"
| step_fail: "update_step s (drain_fail err s)"
| step_publish: "0 \<le> g \<Longrightarrow> g \<le> requested_generation s \<Longrightarrow> update_step s (drain_publish g now d tm s)"
| step_interrupt: "update_step s (mark_interrupted s)"

inductive_cases update_step_cases: "update_step s t"

definition update_inv :: "model_update_state \<Rightarrow> bool" where
  "update_inv s \<longleftrightarrow> 0 \<le> published_generation s \<and>
     published_generation s \<le> requested_generation s \<and>
     (0 < requested_generation s \<longrightarrow> requested_at_ms s \<noteq> None)"

lemmas update_defs = coordinatorRequest_def drain_begin_def drain_fail_def drain_publish_def
  mark_interrupted_def pending_def Let_def

lemma update_step_inv: "update_inv s \<Longrightarrow> update_step s t \<Longrightarrow> update_inv t"
  by (erule update_step_cases) (auto simp: update_inv_def update_defs split: if_splits option.splits)

text \<open>Requests are never lost: the requested generation only grows.\<close>

interpretation updates: transition_system
  "\<lambda>s. s = initial_update_state" update_step update_inv
  "\<lambda>s t. requested_generation s \<le> requested_generation t"
proof unfold_locales
  show "s = initial_update_state \<Longrightarrow> update_inv s" for s
    by (simp add: update_inv_def initial_update_state_def)
  show "update_inv s \<Longrightarrow> update_step s t \<Longrightarrow> update_inv t" for s t
    by (rule update_step_inv)
  show "update_inv s \<Longrightarrow> update_step s t \<Longrightarrow> requested_generation s \<le> requested_generation t" for s t
    by (erule update_step_cases) (auto simp: update_defs split: if_splits option.splits)
qed auto

section \<open>Properties\<close>

lemma requests_generation:
  "(\<forall>(cause, now) \<in> set rs. cause \<noteq> []) \<Longrightarrow>
     requested_generation (requests rs s) = requested_generation s + int (length rs) \<and>
     published_generation (requests rs s) = published_generation s"
  by (induction rs arbitrary: s) (auto simp: requests_def coordinatorRequest_def)

text \<open>
  C13. No request is lost to a running build: a forced pass over a pending model whose
  build succeeds publishes exactly the generation it began with, so the requests recorded
  while it ran are what stays pending.
\<close>

theorem drain_keeps_concurrent_requests:
  assumes "pending s" and "\<not> building (begin_ms b) s"
    and "\<forall>(cause, now) \<in> set (meanwhile b). cause \<noteq> []" and "outcome b = Inr timings"
  shows "\<exists>t. coordinatorDrain True [b] s = (Inr [], 1, t) \<and>
    published_generation t = requested_generation s \<and> pendingCount t = int (length (meanwhile b)) \<and>
    last_error t = None \<and> last_finished_at_ms t = Some (end_ms b)"
proof -
  let ?s1 = "s\<lparr>last_started_at_ms := Some (begin_ms b), last_error := None\<rparr>"
  have "requested_generation (requests (meanwhile b) ?s1) = requested_generation s + int (length (meanwhile b))"
    using requests_generation [OF assms(3), of ?s1] by simp
  with assms show ?thesis
    by (simp add: drain_begin_def drain_publish_def pendingCount_def)
qed

lemma drain_keeps_concurrent_requests_witness:
  "\<exists>t. coordinatorDrain True [\<lparr>begin_ms = 10, meanwhile = [(''direct_feedback'', 11), (''scene_reason'', 12)],
      outcome = Inr ''{}'', duration_ms = 5, end_ms = 15\<rparr>]
      (initial_update_state\<lparr>requested_generation := 3, requested_at_ms := Some 1\<rparr>) = (Inr [], 1, t)
    \<and> published_generation t = 3 \<and> pendingCount t = 2"
  using drain_keeps_concurrent_requests
    [of "initial_update_state\<lparr>requested_generation := 3, requested_at_ms := Some 1\<rparr>"
        "\<lparr>begin_ms = 10, meanwhile = [(''direct_feedback'', 11), (''scene_reason'', 12)],
          outcome = Inr ''{}'', duration_ms = 5, end_ms = 15\<rparr>" "''{}''"]
  by (auto simp: initial_update_state_def pending_def building_def)

text \<open>
  C14. A pending model is never stuck: from every reachable state in which an update is
  pending there is a time from which the scheduler's readiness test holds whatever the
  thresholds, and from which a forced drain starts a build, even when a build died
  without recording its end.
\<close>

theorem pending_model_not_stuck:
  assumes "reachable (\<lambda>s. s = initial_update_state) update_step s" and "pending s"
  shows "\<exists>T. \<forall>now \<ge> T. modelUpdateReady s now threshold maxWait minInterval \<and>
    (\<exists>t. drain_begin True now s = Some (requested_generation s, t))"
proof -
  have "update_inv s" by (rule updates.reachable_inv [OF assms(1)])
  then obtain r where r: "requested_at_ms s = Some r"
    using assms(2) by (auto simp: update_inv_def pending_def)
  define started where "started = (case last_started_at_ms s of Some t \<Rightarrow> t | None \<Rightarrow> 0)"
  define finished where "finished = (case last_finished_at_ms s of Some t \<Rightarrow> t | None \<Rightarrow> 0)"
  define T where "T = max (r + maxWait) (max (finished + minInterval) (started + six_hours))"
  have "modelUpdateReady s now threshold maxWait minInterval \<and> \<not> building now s" if "T \<le> now" for now
    using that assms(2) r
    by (auto simp: T_def modelUpdateReady_def building_def started_def finished_def split: option.splits)
  then have "\<forall>now \<ge> T. modelUpdateReady s now threshold maxWait minInterval \<and>
    (\<exists>t. drain_begin True now s = Some (requested_generation s, t))"
    using assms(2) by (simp add: drain_begin_def Let_def)
  then show ?thesis ..
qed

lemma pending_model_not_stuck_witness:
  "\<exists>s. pending s \<and> (\<exists>T. \<forall>now \<ge> T. modelUpdateReady s now 5 60000 1000 \<and>
    (\<exists>t. drain_begin True now s = Some (requested_generation s, t)))"
proof -
  let ?t = "initial_update_state\<lparr>requested_generation := 1, requested_at_ms := Some 9,
    last_cause := Some ''source_sync''\<rparr>"
  have "reachable (\<lambda>s. s = initial_update_state) update_step initial_update_state"
    by (rule reachable_init) (rule refl)
  moreover have "update_step initial_update_state ?t"
    by (rule step_request [of "''source_sync''" 9]) (simp add: coordinatorRequest_def initial_update_state_def)
  ultimately have "reachable (\<lambda>s. s = initial_update_state) update_step ?t"
    by (rule reachable_step)
  moreover have "pending ?t" by (simp add: pending_def initial_update_state_def)
  ultimately show ?thesis
    using pending_model_not_stuck [of ?t 5 60000 1000] by blast
qed

end
