(* ===== verification/Job_Queue.thy ===== *)
theory Job_Queue
  imports Model_Updates Api_Args
begin

text \<open>
  The background task queue: the rows of \<open>curator_job\<close> and every statement that writes
  them, from \<open>core/tasks.go\<close> (enqueue, completion), \<open>core/autotasks.go\<close> (automatic
  enqueue), \<open>core/daemon.go\<close> (recovery, claim, heartbeat, progress, shutdown) and
  \<open>core/ops.go\<close> (cancel). Worker processes, pids and files are outside the model, and so
  are SQLite's JSON functions, which are arguments.
\<close>

section \<open>Rows\<close>

datatype job_state = Queued | Running | Complete | Failed | Cancelled

record job =
  job_id :: string
  job_type :: string
  job_state :: job_state
  started_at_ms :: int
  finished_at_ms :: "int option"
  summary_json :: string
  job_error :: "string option"
  queued_at_ms :: "int option"
  heartbeat_at_ms :: "int option"
  owner_pid :: "int option"
  payload_json :: string
  cancel_requested :: bool
  progress :: "float64 option"

text \<open>The CHECK constraints of the table.\<close>

definition job_check :: "job \<Rightarrow> bool" where
  "job_check j \<longleftrightarrow> 0 \<le> started_at_ms j \<and>
     (case finished_at_ms j of None \<Rightarrow> True | Some f \<Rightarrow> f \<ge> started_at_ms j) \<and>
     (case queued_at_ms j of None \<Rightarrow> True | Some q \<Rightarrow> 0 \<le> q) \<and>
     (case heartbeat_at_ms j of None \<Rightarrow> True | Some h \<Rightarrow> 0 \<le> h) \<and>
     (case progress j of None \<Rightarrow> True
      | Some p \<Rightarrow> \<not> float_less p (Fin False 0) \<and> \<not> float_less (Fin False 1) p)"

definition active :: "job \<Rightarrow> bool" where
  "active j \<longleftrightarrow> job_state j = Queued \<or> job_state j = Running"

definition heartbeatStaleMs :: int where "heartbeatStaleMs = 5 * 60000"
definition legacyStaleMs :: int where "legacyStaleMs = 6 * 3600000"

text \<open>What the queue keeps in the sidecar: its jobs, and the model update row.\<close>

record sidecar =
  jobs :: "job list"
  model_updates :: model_update_state

text \<open>An UPDATE of the table; \<open>exec_job_update\<close> ignores its error, as the code does there.\<close>

definition job_update :: "(job \<Rightarrow> bool) \<Rightarrow> (job \<Rightarrow> job) \<Rightarrow> job list \<Rightarrow> job list res" where
  "job_update p f js = update_checked job_check p f js"

definition exec_job_update :: "(job \<Rightarrow> bool) \<Rightarrow> (job \<Rightarrow> job) \<Rightarrow> job list \<Rightarrow> job list" where
  "exec_job_update p f js = (case job_update p f js of Inr js' \<Rightarrow> js' | Inl e \<Rightarrow> js)"

definition finish :: "job_state \<Rightarrow> int \<Rightarrow> string option \<Rightarrow> job \<Rightarrow> job" where
  "finish st now err j = j\<lparr>job_state := st, finished_at_ms := Some now, job_error := err\<rparr>"

definition running_job :: "string \<Rightarrow> job \<Rightarrow> bool" where
  "running_job jid j \<longleftrightarrow> job_id j = jid \<and> job_state j = Running"

definition queued_job :: "string \<Rightarrow> job \<Rightarrow> bool" where
  "queued_job jid j \<longleftrightarrow> job_id j = jid \<and> job_state j = Queued"

section \<open>Recovery and shutdown\<close>

definition build_types :: "string list" where
  "build_types = [''build'', ''force-build'', ''update-model'', ''sync-build'', ''full-sync-build'']"

definition stale_heartbeat :: "int \<Rightarrow> job \<Rightarrow> bool" where
  "stale_heartbeat now j \<longleftrightarrow> job_state j = Running \<and>
     (case heartbeat_at_ms j of None \<Rightarrow> False | Some h \<Rightarrow> h \<le> now - heartbeatStaleMs)"

definition stale_legacy :: "int \<Rightarrow> job \<Rightarrow> bool" where
  "stale_legacy now j \<longleftrightarrow> job_state j = Running \<and> heartbeat_at_ms j = None \<and>
     started_at_ms j \<le> now - legacyStaleMs"

definition recoverOrphanJobs :: "int \<Rightarrow> sidecar \<Rightarrow> sidecar" where
  "recoverOrphanJobs now db =
     (let js1 = exec_job_update (stale_heartbeat now) (finish Failed now (Some ''interrupted'')) (jobs db);
          js2 = exec_job_update (stale_legacy now) (finish Failed now (Some ''interrupted'')) js1
      in \<lparr>jobs = js2,
          model_updates =
            (if list_ex (\<lambda>j. job_state j = Running \<and> job_type j \<in> set build_types) js2
             then model_updates db else mark_interrupted (model_updates db))\<rparr>)"

definition markRunningCancelled :: "int \<Rightarrow> int \<Rightarrow> job list \<Rightarrow> job list" where
  "markRunningCancelled pid now js =
     exec_job_update (\<lambda>j. job_state j = Running \<and> (owner_pid j = Some pid \<or> owner_pid j = None))
       (finish Cancelled now (Some ''cancelled'')) js"

section \<open>Enqueue\<close>

text \<open>The active job a request of the same type is folded into: the latest one of the last six hours.\<close>

definition recent_active :: "string \<Rightarrow> int \<Rightarrow> job list \<Rightarrow> job option" where
  "recent_active mode now js =
     first_by (\<lambda>a b. started_at_ms a > started_at_ms b)
       (filter (\<lambda>j. active j \<and> job_type j = mode \<and> started_at_ms j > now - 6 * 3600000) js)"

definition new_job :: "string \<Rightarrow> string \<Rightarrow> int \<Rightarrow> string \<Rightarrow> job" where
  "new_job jid mode now payload =
     \<lparr>job_id = jid, job_type = mode, job_state = Queued, started_at_ms = now, finished_at_ms = None,
      summary_json = ''{}'', job_error = None, queued_at_ms = Some now, heartbeat_at_ms = None,
      owner_pid = None, payload_json = payload, cancel_requested = False, progress = None\<rparr>"

datatype enqueue_result = Enqueued string | Already_Running string string

text \<open>
  The transaction of \<open>runTaskBody\<close>; \<open>clear\<close> is SQLite's
  \<open>json_set(payload_json, '$.args.automatic', json('false'))\<close>.
\<close>

definition enqueue_txn ::
    "(string \<Rightarrow> string) \<Rightarrow> string \<Rightarrow> string \<Rightarrow> jVal \<Rightarrow> int \<Rightarrow> job list \<Rightarrow> (enqueue_result \<times> job list) res" where
  "enqueue_txn clear jid mode payload now js =
     (case recent_active mode now js of
        None \<Rightarrow>
          and_then (insert_row job_id job_check (new_job jid mode now (marshalCompact payload)) js)
            (\<lambda>js'. Inr (Enqueued jid, js'))
      | Some e \<Rightarrow>
          if \<not> truthy (jget (jget payload ''args'') ''automatic'') then
            and_then (job_update (queued_job (job_id e)) (\<lambda>j. j\<lparr>payload_json := clear (payload_json j)\<rparr>) js)
              (\<lambda>js'. Inr (Already_Running (job_id e) (job_type e), js'))
          else Inr (Already_Running (job_id e) (job_type e), js))"

text \<open>
  \<open>runTaskBody\<close> from the recovery on. \<open>ensureWorker\<close> starts a process and may recover
  orphans itself: it is an argument, answering an error or none at the time \<open>later\<close>;
  without a worker the new row is failed.
\<close>

definition runTaskBody ::
    "(string \<Rightarrow> string) \<Rightarrow> (sidecar \<Rightarrow> string option \<times> sidecar) \<Rightarrow> string \<Rightarrow> string \<Rightarrow> jVal \<Rightarrow> int \<Rightarrow> int
       \<Rightarrow> sidecar \<Rightarrow> sidecar \<times> enqueue_result res" where
  "runTaskBody clear ensureWorker jid mode payload now later db =
     (let db1 = recoverOrphanJobs now db in
      case enqueue_txn clear jid mode payload now (jobs db1) of
        Inl e \<Rightarrow> (db1, Inl e)
      | Inr (Already_Running ex ty, js) \<Rightarrow> (db1\<lparr>jobs := js\<rparr>, Inr (Already_Running ex ty))
      | Inr (Enqueued i, js) \<Rightarrow>
          (case ensureWorker (db1\<lparr>jobs := js\<rparr>) of
             (None, db2) \<Rightarrow> (db2, Inr (Enqueued i))
           | (Some e, db2) \<Rightarrow>
               let failure = ''Curator worker unavailable; queued task was not started: '' @ e in
               (case job_update (queued_job i) (finish Failed later (Some (truncateString failure 2000))) (jobs db2) of
                  Inl err \<Rightarrow> (db2, Inl err)
                | Inr js' \<Rightarrow> (db2\<lparr>jobs := js'\<rparr>, Inl (Msg failure)))))"

text \<open>\<open>enqueueAutoTask\<close>: marked automatic, and folded into any recent active job of its type.\<close>

definition enqueueAutoTask ::
    "string \<Rightarrow> string \<Rightarrow> jVal \<Rightarrow> int \<Rightarrow> job list \<Rightarrow> (bool \<times> job list) res" where
  "enqueueAutoTask jid mode payload now js =
     (let args = jget payload ''args'';
          args = (if is_obj args then args else JObj []);
          payload = jset payload ''args'' (jset args ''automatic'' (JBool True))
      in if list_ex (\<lambda>j. active j \<and> job_type j = mode \<and> started_at_ms j > now - 6 * 3600000) js
         then Inr (False, js)
         else and_then (insert_row job_id job_check (new_job jid mode now (marshalCompact payload)) js)
           (\<lambda>js'. Inr (True, js')))"

section \<open>Claim, heartbeat and completion\<close>

text \<open>SQLite sorts NULL first.\<close>

definition opt_less :: "int option \<Rightarrow> int option \<Rightarrow> bool" where
  "opt_less a b = (case (a, b) of (None, Some y) \<Rightarrow> True | (Some x, Some y) \<Rightarrow> x < y | _ \<Rightarrow> False)"

definition queue_before :: "job \<Rightarrow> job \<Rightarrow> bool" where
  "queue_before a b \<longleftrightarrow> opt_less (queued_at_ms a) (queued_at_ms b) \<or>
     (queued_at_ms a = queued_at_ms b \<and> started_at_ms a < started_at_ms b)"

text \<open>
  \<open>claimQueuedJob\<close>; \<open>automatic\<close> reads the flag of a payload
  (\<open>json_extract(payload_json, '$.args.automatic')\<close>). The payload is parsed after the
  claim is committed, so a corrupt one is an error with the row already running.
\<close>

datatype claim_result = No_Job | Claimed string int jVal string | Claim_Error go_error

definition claimable :: "(string \<Rightarrow> bool) \<Rightarrow> bool \<Rightarrow> job \<Rightarrow> bool" where
  "claimable automatic deferAutomatic j \<longleftrightarrow>
     job_state j = Queued \<and> (\<not> deferAutomatic \<or> \<not> automatic (payload_json j))"

definition claimed_row :: "int \<Rightarrow> int \<Rightarrow> job \<Rightarrow> job" where
  "claimed_row pid now j = j\<lparr>job_state := Running, owner_pid := Some pid, heartbeat_at_ms := Some now,
     cancel_requested := False\<rparr>"

definition claimQueuedJob ::
    "(string \<Rightarrow> bool) \<Rightarrow> (string \<Rightarrow> jVal res) \<Rightarrow> bool \<Rightarrow> int \<Rightarrow> int \<Rightarrow> job list \<Rightarrow> claim_result \<times> job list" where
  "claimQueuedJob automatic parse deferAutomatic pid now js =
     (case first_by queue_before (filter (claimable automatic deferAutomatic) js) of
        None \<Rightarrow> (No_Job, js)
      | Some j \<Rightarrow>
          (case job_update (queued_job (job_id j)) (claimed_row pid now) js of
             Inl e \<Rightarrow> (Claim_Error e, js)
           | Inr js' \<Rightarrow>
               (case parse (payload_json j) of
                  Inl e \<Rightarrow> (Claim_Error (Msg (''queued job '' @ job_id j @ '' has a corrupt payload'')), js')
                | Inr payload \<Rightarrow> (Claimed (job_id j) (started_at_ms j) payload (job_type j), js'))))"

text \<open>One tick of \<open>heartbeatLoop\<close>; the result says whether the loop goes on.\<close>

definition heartbeat_tick :: "string \<Rightarrow> int \<Rightarrow> job list \<Rightarrow> bool \<times> job list" where
  "heartbeat_tick jid now js =
     (let js1 = exec_job_update (running_job jid) (\<lambda>j. j\<lparr>heartbeat_at_ms := Some now\<rparr>) js in
      case find (running_job jid) js1 of
        None \<Rightarrow> (True, js1)
      | Some j \<Rightarrow>
          if cancel_requested j
          then (False, exec_job_update (running_job jid) (finish Cancelled now (Some ''cancelled'')) js1)
          else (True, js1))"

definition flush_progress :: "string \<Rightarrow> float64 \<Rightarrow> job list \<Rightarrow> job list" where
  "flush_progress jid v js = exec_job_update (running_job jid) (\<lambda>j. j\<lparr>progress := Some v\<rparr>) js"

text \<open>The terminal transition of \<open>executeClaimedJob\<close>: the summary, or the error of the mode.\<close>

definition complete_job :: "string \<Rightarrow> string + jVal \<Rightarrow> int \<Rightarrow> job list \<Rightarrow> job list res" where
  "complete_job jid result now js =
     (case result of
        Inl err \<Rightarrow> job_update (running_job jid) (finish Failed now (Some (truncateString err 2000))) js
      | Inr summary \<Rightarrow>
          job_update (running_job jid)
            (\<lambda>j. j\<lparr>job_state := Complete, finished_at_ms := Some now, summary_json := marshalSortedKeys summary\<rparr>) js)"

text \<open>\<open>runWorkerJob\<close> when the sidecar of a claimed job does not open.\<close>

definition fail_claimed :: "string \<Rightarrow> string \<Rightarrow> int \<Rightarrow> job list \<Rightarrow> job list" where
  "fail_claimed jid err now js =
     exec_job_update (running_job jid) (finish Failed now (Some (truncateString err 2000))) js"

section \<open>Cancel\<close>

datatype cancel_result = Cancelled_Now | Cancel_Asked | No_Active_Job

definition opCancelJob :: "string \<Rightarrow> int \<Rightarrow> job list \<Rightarrow> (cancel_result \<times> job list) res" where
  "opCancelJob jid now js =
     (if jid = [] then Inl (Msg ''job_id is required'')
      else and_then (job_update (queued_job jid)
             (\<lambda>j. j\<lparr>job_state := Cancelled, finished_at_ms := Some now\<rparr>) js) (\<lambda>js1.
        if affected_rows (queued_job jid) js > 0 then Inr (Cancelled_Now, js1)
        else and_then (job_update (running_job jid) (\<lambda>j. j\<lparr>cancel_requested := True\<rparr>) js1) (\<lambda>js2.
          if affected_rows (running_job jid) js1 > 0 then Inr (Cancel_Asked, js2)
          else Inr (No_Active_Job, js2))))"

section \<open>Readers\<close>

definition restart_refused :: "bool \<Rightarrow> job list \<Rightarrow> string option" where
  "restart_refused force js =
     (case first_by (\<lambda>a b. started_at_ms a > started_at_ms b) (filter (\<lambda>j. job_state j = Running) js) of
        None \<Rightarrow> None
      | Some j \<Rightarrow> if force then None else Some (job_type j))"

definition activeCuratorJobs :: "job list \<Rightarrow> job list" where
  "activeCuratorJobs js =
     take 10 (sort_key (\<lambda>j. - started_at_ms j) (filter active js))"

definition modelRebuilding :: "int \<Rightarrow> job list \<Rightarrow> bool" where
  "modelRebuilding now js \<longleftrightarrow>
     list_ex (\<lambda>j. job_state j = Running \<and> started_at_ms j > now - 6 * 3600000 \<and> job_type j \<in> set build_types) js"

section \<open>The queue as a transition system\<close>

text \<open>
  The statements of concurrent processes interleave in any order; the clock does not go
  back between them.
\<close>

record queue =
  clock :: int
  store :: sidecar

definition put_jobs :: "job list \<Rightarrow> queue \<Rightarrow> queue" where
  "put_jobs js q = q\<lparr>store := (store q)\<lparr>jobs := js\<rparr>\<rparr>"

abbreviation queue_rows :: "queue \<Rightarrow> job list" where
  "queue_rows q \<equiv> jobs (store q)"

inductive queue_step ::
    "(string \<Rightarrow> string) \<Rightarrow> (string \<Rightarrow> bool) \<Rightarrow> (string \<Rightarrow> jVal res) \<Rightarrow> queue \<Rightarrow> queue \<Rightarrow> bool"
  for clear :: "string \<Rightarrow> string" and automatic :: "string \<Rightarrow> bool" and parse :: "string \<Rightarrow> jVal res" where
  time: "clock q \<le> now \<Longrightarrow> queue_step clear automatic parse q (q\<lparr>clock := now\<rparr>)"
| recover: "queue_step clear automatic parse q (q\<lparr>store := recoverOrphanJobs (clock q) (store q)\<rparr>)"
| enqueue: "enqueue_txn clear jid mode payload (clock q) (queue_rows q) = Inr (r, js) \<Longrightarrow>
    queue_step clear automatic parse q (put_jobs js q)"
| auto_enqueue: "enqueueAutoTask jid mode payload (clock q) (queue_rows q) = Inr (b, js) \<Longrightarrow>
    queue_step clear automatic parse q (put_jobs js q)"
| no_worker: "job_update (queued_job jid) (finish Failed (clock q) (Some err)) (queue_rows q) = Inr js \<Longrightarrow>
    queue_step clear automatic parse q (put_jobs js q)"
| claim: "claimQueuedJob automatic parse defer pid (clock q) (queue_rows q) = (r, js) \<Longrightarrow>
    queue_step clear automatic parse q (put_jobs js q)"
| beat: "heartbeat_tick jid (clock q) (queue_rows q) = (go, js) \<Longrightarrow>
    queue_step clear automatic parse q (put_jobs js q)"
| report: "queue_step clear automatic parse q (put_jobs (flush_progress jid v (queue_rows q)) q)"
| complete: "complete_job jid res (clock q) (queue_rows q) = Inr js \<Longrightarrow>
    queue_step clear automatic parse q (put_jobs js q)"
| open_failed: "queue_step clear automatic parse q (put_jobs (fail_claimed jid err (clock q) (queue_rows q)) q)"
| cancel: "opCancelJob jid (clock q) (queue_rows q) = Inr (r, js) \<Longrightarrow>
    queue_step clear automatic parse q (put_jobs js q)"
| shutdown: "queue_step clear automatic parse q (put_jobs (markRunningCancelled pid (clock q) (queue_rows q)) q)"
| model_update: "update_step (model_updates (store q)) u \<Longrightarrow>
    queue_step clear automatic parse q (q\<lparr>store := (store q)\<lparr>model_updates := u\<rparr>\<rparr>)"

inductive_cases queue_step_cases: "queue_step clear automatic parse q q'"

definition empty_queue :: "queue \<Rightarrow> bool" where
  "empty_queue q \<longleftrightarrow> 0 \<le> clock q \<and> store q = \<lparr>jobs = [], model_updates = initial_update_state\<rparr>"

text \<open>One row: its constraints, and the fields its state implies.\<close>

definition row_ok :: "job \<Rightarrow> bool" where
  "row_ok j \<longleftrightarrow> job_check j \<and> (active j \<longleftrightarrow> finished_at_ms j = None) \<and>
     (job_state j = Running \<longrightarrow> heartbeat_at_ms j \<noteq> None \<and> owner_pid j \<noteq> None)"

text \<open>Two active rows of one type were enqueued at least six hours apart.\<close>

definition spaced :: "job list \<Rightarrow> bool" where
  "spaced js \<longleftrightarrow> (\<forall>i \<in> set js. \<forall>j \<in> set js. active i \<and> active j \<and> job_type i = job_type j \<and> job_id i \<noteq> job_id j \<longrightarrow>
     started_at_ms i + 6 * 3600000 \<le> started_at_ms j \<or> started_at_ms j + 6 * 3600000 \<le> started_at_ms i)"

definition jobs_inv :: "int \<Rightarrow> job list \<Rightarrow> bool" where
  "jobs_inv now js \<longleftrightarrow> unique_key job_id js \<and> (\<forall>j \<in> set js. row_ok j \<and> started_at_ms j \<le> now) \<and> spaced js"

text \<open>What may become of a row.\<close>

definition evolves :: "job \<Rightarrow> job \<Rightarrow> bool" where
  "evolves j k \<longleftrightarrow> job_id k = job_id j \<and> job_type k = job_type j \<and> started_at_ms k = started_at_ms j \<and>
     queued_at_ms k = queued_at_ms j \<and> (\<not> active j \<longrightarrow> k = j) \<and>
     (job_state j = Running \<longrightarrow> job_state k \<noteq> Queued)"

definition jobs_evolve :: "job list \<Rightarrow> job list \<Rightarrow> bool" where
  "jobs_evolve js ks \<longleftrightarrow> (\<forall>j \<in> set js. \<exists>k \<in> set ks. evolves j k)"

lemma evolves_refl [simp]: "evolves j j"
  by (auto simp: evolves_def)

lemma evolves_trans: "evolves i j \<Longrightarrow> evolves j k \<Longrightarrow> evolves i k"
  by (auto simp: evolves_def active_def)

lemma jobs_evolve_refl [simp]: "jobs_evolve js js"
  unfolding jobs_evolve_def using evolves_refl by blast

lemma jobs_evolve_trans: "jobs_evolve is js \<Longrightarrow> jobs_evolve js ks \<Longrightarrow> jobs_evolve is ks"
  unfolding jobs_evolve_def using evolves_trans by blast

text \<open>The statements change rows by legal moves of active rows.\<close>

definition legal_move :: "(job \<Rightarrow> bool) \<Rightarrow> (job \<Rightarrow> job) \<Rightarrow> bool" where
  "legal_move p f \<longleftrightarrow> (\<forall>j. p j \<and> row_ok j \<longrightarrow> active j \<and> evolves j (f j) \<and>
     (active (f j) \<longleftrightarrow> finished_at_ms (f j) = None) \<and>
     (job_state (f j) = Running \<longrightarrow> heartbeat_at_ms (f j) \<noteq> None \<and> owner_pid (f j) \<noteq> None))"

lemma job_update_inv:
  assumes inv: "jobs_inv now js" and legal: "legal_move p f" and upd: "job_update p f js = Inr js'"
  shows "jobs_inv now js' \<and> jobs_evolve js js'"
proof -
  let ?g = "\<lambda>j. if p j then f j else j"
  have js': "js' = map ?g js" and check: "\<forall>j \<in> set js. p j \<longrightarrow> job_check (f j)"
    using upd by (auto simp: job_update_def update_checked_Inr update_where_def)
  have ev: "evolves j (?g j)" if "j \<in> set js" for j
    using inv legal that by (auto simp: jobs_inv_def legal_move_def)
  have act: "active (?g j) \<Longrightarrow> active j" if "j \<in> set js" for j
    using inv legal that by (auto simp: jobs_inv_def legal_move_def split: if_splits)
  have ok: "row_ok (?g j)" if "j \<in> set js" for j
  proof (cases "p j")
    case True
    with that have "row_ok j" "job_check (f j)" using inv check by (auto simp: jobs_inv_def)
    with True legal show ?thesis unfolding legal_move_def row_ok_def [of "?g j"] by auto
  next
    case False
    with that show ?thesis using inv by (simp add: jobs_inv_def)
  qed
  have ids: "map job_id js' = map job_id js"
    using ev by (auto simp: js' evolves_def)
  have same: "job_id (?g j) = job_id j \<and> job_type (?g j) = job_type j \<and> started_at_ms (?g j) = started_at_ms j"
    if "j \<in> set js" for j
    using ev [OF that] by (simp only: evolves_def)
  have "spaced js'"
    unfolding spaced_def
  proof (intro ballI impI)
    fix a b
    assume ab: "a \<in> set js'" "b \<in> set js'"
      and h: "active a \<and> active b \<and> job_type a = job_type b \<and> job_id a \<noteq> job_id b"
    from ab obtain i j where ij: "i \<in> set js" "j \<in> set js" "a = ?g i" "b = ?g j"
      unfolding js' set_map by blast
    have "active i \<and> active j"
      using h act [OF ij(1)] act [OF ij(2)] ij(3,4) by blast
    with h same [OF ij(1)] same [OF ij(2)] inv ij(1,2)
    show "started_at_ms a + 6 * 3600000 \<le> started_at_ms b \<or> started_at_ms b + 6 * 3600000 \<le> started_at_ms a"
      unfolding ij(3,4) jobs_inv_def spaced_def by metis
  qed
  moreover have "unique_key job_id js'"
    using inv ids by (simp add: jobs_inv_def unique_key_def)
  moreover have "\<forall>j \<in> set js'. row_ok j \<and> started_at_ms j \<le> now"
    unfolding js' set_map ball_simps(9) using inv same ok by (metis jobs_inv_def)
  moreover have "jobs_evolve js js'"
    unfolding jobs_evolve_def js' set_map using ev by blast
  ultimately show ?thesis by (simp add: jobs_inv_def)
qed

lemma exec_job_update_inv:
  "jobs_inv now js \<Longrightarrow> legal_move p f \<Longrightarrow>
     jobs_inv now (exec_job_update p f js) \<and> jobs_evolve js (exec_job_update p f js)"
  by (auto simp: exec_job_update_def dest: job_update_inv split: sum.splits)

text \<open>The moves of the statements.\<close>

lemma legal_finish:
  "st \<in> {Complete, Failed, Cancelled} \<Longrightarrow> (\<And>j. p j \<Longrightarrow> active j) \<Longrightarrow> legal_move p (finish st now err)"
  by (auto simp: legal_move_def finish_def evolves_def active_def)

lemma active_states: "job_state j = Queued \<Longrightarrow> active j" "job_state j = Running \<Longrightarrow> active j"
  by (simp_all add: active_def)

lemma legal_complete:
  "legal_move (running_job jid) (\<lambda>j. j\<lparr>job_state := Complete, finished_at_ms := Some now, summary_json := sm\<rparr>)"
  by (auto simp: legal_move_def running_job_def evolves_def active_def)

lemma legal_cancel_queued:
  "legal_move (queued_job jid) (\<lambda>j. j\<lparr>job_state := Cancelled, finished_at_ms := Some now\<rparr>)"
  by (auto simp: legal_move_def queued_job_def evolves_def active_def)

lemma legal_ask_cancel: "legal_move (running_job jid) (\<lambda>j. j\<lparr>cancel_requested := True\<rparr>)"
  by (auto simp: legal_move_def running_job_def evolves_def active_def row_ok_def)

lemma legal_progress: "legal_move (running_job jid) (\<lambda>j. j\<lparr>progress := v\<rparr>)"
  by (auto simp: legal_move_def running_job_def evolves_def active_def row_ok_def)

lemma legal_heartbeat: "legal_move (running_job jid) (\<lambda>j. j\<lparr>heartbeat_at_ms := Some now\<rparr>)"
  by (auto simp: legal_move_def running_job_def evolves_def active_def row_ok_def)

lemma legal_claim:
  "legal_move (queued_job jid) (claimed_row pid now)"
  by (auto simp: legal_move_def claimed_row_def queued_job_def evolves_def active_def row_ok_def)

lemma legal_clear: "legal_move (queued_job jid) (\<lambda>j. j\<lparr>payload_json := clear (payload_json j)\<rparr>)"
  by (auto simp: legal_move_def queued_job_def evolves_def active_def row_ok_def)

lemma legal_recover:
  "legal_move (stale_heartbeat t) (finish Failed now err)"
  "legal_move (stale_legacy t) (finish Failed now err)"
  "legal_move (running_job jid) (finish Failed now err)"
  "legal_move (running_job jid) (finish Cancelled now err)"
  "legal_move (queued_job jid) (finish Failed now err)"
  "legal_move (\<lambda>j. job_state j = Running \<and> (owner_pid j = Some pid \<or> owner_pid j = None)) (finish Cancelled now err)"
  by (rule legal_finish; auto simp: stale_heartbeat_def stale_legacy_def running_job_def queued_job_def active_def)+

lemmas legal_moves = legal_complete legal_cancel_queued legal_ask_cancel legal_progress
  legal_heartbeat legal_claim legal_clear legal_recover

text \<open>The invariant across the operations.\<close>

lemma new_job_sel [simp]:
  "started_at_ms (new_job jid mode now payload) = now" "job_type (new_job jid mode now payload) = mode"
  "job_id (new_job jid mode now payload) = jid" "active (new_job jid mode now payload)"
  by (simp_all add: new_job_def active_def)

lemma insert_inv:
  assumes inv: "jobs_inv now js"
    and none: "\<forall>j \<in> set js. active j \<and> job_type j = mode \<longrightarrow> started_at_ms j \<le> now - 6 * 3600000"
    and ins: "insert_row job_id job_check (new_job jid mode now payload) js = Inr js'"
  shows "jobs_inv now js' \<and> jobs_evolve js js'"
proof -
  let ?n = "new_job jid mode now payload"
  have js': "js' = js @ [?n]" and check: "job_check ?n" and fresh: "jid \<notin> job_id ` set js"
    using ins by (auto simp: insert_row_Inr new_job_def)
  have new: "row_ok ?n"
    using check by (auto simp: row_ok_def active_def new_job_def)
  have "spaced js'"
    using inv none unfolding js' jobs_inv_def spaced_def by auto
  moreover have "unique_key job_id js'"
    using inv fresh by (simp add: js' jobs_inv_def)
  moreover have "jobs_evolve js js'"
    unfolding jobs_evolve_def js' set_append using evolves_refl by blast
  ultimately show ?thesis
    using inv new by (simp add: js' jobs_inv_def)
qed

lemma recent_active_None:
  "recent_active mode now js = None \<longleftrightarrow>
     (\<forall>j \<in> set js. active j \<and> job_type j = mode \<longrightarrow> started_at_ms j \<le> now - 6 * 3600000)"
  by (auto simp: recent_active_def first_by_None filter_empty_conv)

lemma enqueue_txn_inv:
  assumes "jobs_inv now js" "enqueue_txn clear jid mode payload now js = Inr (r, js')"
  shows "jobs_inv now js' \<and> jobs_evolve js js'"
  using assms insert_inv [OF assms(1)] job_update_inv [OF assms(1) legal_clear]
  by (auto simp: enqueue_txn_def and_then_Inr_iff recent_active_None split: option.splits if_splits)

lemma enqueueAutoTask_inv:
  assumes inv: "jobs_inv now js" and run: "enqueueAutoTask jid mode payload now js = Inr (b, js')"
  shows "jobs_inv now js' \<and> jobs_evolve js js'"
proof (cases "list_ex (\<lambda>j. active j \<and> job_type j = mode \<and> started_at_ms j > now - 6 * 3600000) js")
  case True
  with run inv show ?thesis by (simp add: enqueueAutoTask_def Let_def)
next
  case False
  then have "\<forall>j \<in> set js. active j \<and> job_type j = mode \<longrightarrow> started_at_ms j \<le> now - 6 * 3600000"
    by (auto simp: list_ex_iff not_le)
  with False run insert_inv [OF inv] show ?thesis
    by (auto simp: enqueueAutoTask_def Let_def and_then_Inr_iff)
qed

lemma recoverOrphanJobs_inv:
  assumes "jobs_inv now (jobs db)"
  shows "jobs_inv now (jobs (recoverOrphanJobs t db)) \<and> jobs_evolve (jobs db) (jobs (recoverOrphanJobs t db))"
proof -
  let ?js1 = "exec_job_update (stale_heartbeat t) (finish Failed t (Some ''interrupted'')) (jobs db)"
  have 1: "jobs_inv now ?js1 \<and> jobs_evolve (jobs db) ?js1"
    by (rule exec_job_update_inv [OF assms legal_recover(1)])
  then have "jobs_inv now (jobs (recoverOrphanJobs t db)) \<and> jobs_evolve ?js1 (jobs (recoverOrphanJobs t db))"
    using exec_job_update_inv [OF conjunct1 [OF 1] legal_recover(2)]
    by (simp add: recoverOrphanJobs_def Let_def)
  with 1 show ?thesis using jobs_evolve_trans by blast
qed

lemma claim_inv:
  assumes "jobs_inv now js" "claimQueuedJob automatic parse defer pid t js = (r, js')"
  shows "jobs_inv now js' \<and> jobs_evolve js js'"
  using assms job_update_inv [OF assms(1) legal_claim]
  by (fastforce simp: claimQueuedJob_def split: option.splits sum.splits)

lemma heartbeat_inv:
  assumes "jobs_inv now js" "heartbeat_tick jid t js = (go, js')"
  shows "jobs_inv now js' \<and> jobs_evolve js js'"
proof -
  let ?js1 = "exec_job_update (running_job jid) (\<lambda>j. j\<lparr>heartbeat_at_ms := Some t\<rparr>) js"
  have 1: "jobs_inv now ?js1 \<and> jobs_evolve js ?js1"
    by (rule exec_job_update_inv [OF assms(1) legal_heartbeat])
  have "jobs_inv now js' \<and> jobs_evolve ?js1 js'"
    using assms(2) 1 exec_job_update_inv [OF _ legal_recover(4)]
    by (auto simp: heartbeat_tick_def Let_def split: option.splits if_splits)
  with 1 show ?thesis using jobs_evolve_trans by blast
qed

lemma complete_inv:
  assumes "jobs_inv now js" "complete_job jid res t js = Inr js'"
  shows "jobs_inv now js' \<and> jobs_evolve js js'"
proof (cases res)
  case (Inl err)
  with assms(2) have "job_update (running_job jid) (finish Failed t (Some (truncateString err 2000))) js = Inr js'"
    by (simp add: complete_job_def)
  then show ?thesis by (rule job_update_inv [OF assms(1) legal_recover(3)])
next
  case (Inr sm)
  with assms(2) have "job_update (running_job jid) (\<lambda>j. j\<lparr>job_state := Complete, finished_at_ms := Some t,
      summary_json := marshalSortedKeys sm\<rparr>) js = Inr js'"
    by (simp add: complete_job_def)
  then show ?thesis by (rule job_update_inv [OF assms(1) legal_complete])
qed

lemma cancel_inv:
  assumes "jobs_inv now js" "opCancelJob jid t js = Inr (r, js')"
  shows "jobs_inv now js' \<and> jobs_evolve js js'"
proof -
  obtain js1 where js1: "job_update (queued_job jid)
      (\<lambda>j. j\<lparr>job_state := Cancelled, finished_at_ms := Some t\<rparr>) js = Inr js1"
      "js' = js1 \<or> job_update (running_job jid) (\<lambda>j. j\<lparr>cancel_requested := True\<rparr>) js1 = Inr js'"
    using assms(2) by (auto simp: opCancelJob_def and_then_Inr_iff split: if_splits)
  from job_update_inv [OF assms(1) legal_cancel_queued js1(1)]
  have 1: "jobs_inv now js1 \<and> jobs_evolve js js1" .
  then have "jobs_inv now js' \<and> jobs_evolve js1 js'"
    using js1(2) job_update_inv [OF _ legal_ask_cancel] by auto
  with 1 show ?thesis using jobs_evolve_trans by blast
qed

definition queue_inv :: "queue \<Rightarrow> bool" where
  "queue_inv q \<longleftrightarrow> jobs_inv (clock q) (queue_rows q)"

definition queue_history :: "queue \<Rightarrow> queue \<Rightarrow> bool" where
  "queue_history q q' \<longleftrightarrow> clock q \<le> clock q' \<and> jobs_evolve (queue_rows q) (queue_rows q')"

lemma jobs_inv_later: "jobs_inv t js \<Longrightarrow> t \<le> t' \<Longrightarrow> jobs_inv t' js"
  by (auto simp: jobs_inv_def)

lemma put_jobs_sel [simp]: "clock (put_jobs js q) = clock q" "queue_rows (put_jobs js q) = js"
  by (simp_all add: put_jobs_def)

lemma queue_step_inv:
  assumes "queue_inv q" "queue_step clear automatic parse q q'"
  shows "queue_inv q' \<and> queue_history q q'"
  using assms(2,1)
proof (cases rule: queue_step.cases)
  case (time now)
  with assms(1) show ?thesis by (auto simp: queue_inv_def queue_history_def intro: jobs_inv_later)
next
  case recover
  with assms(1) recoverOrphanJobs_inv show ?thesis by (simp add: queue_inv_def queue_history_def)
next
  case (enqueue jid mode payload r js)
  with assms(1) enqueue_txn_inv show ?thesis by (auto simp: queue_inv_def queue_history_def)
next
  case (auto_enqueue jid mode payload b js)
  with assms(1) enqueueAutoTask_inv show ?thesis by (auto simp: queue_inv_def queue_history_def)
next
  case (no_worker jid err js)
  with assms(1) job_update_inv [OF _ legal_recover(5)] show ?thesis
    by (auto simp: queue_inv_def queue_history_def)
next
  case (claim later pid r js)
  with assms(1) claim_inv show ?thesis by (auto simp: queue_inv_def queue_history_def)
next
  case (beat jid go js)
  with assms(1) heartbeat_inv show ?thesis by (auto simp: queue_inv_def queue_history_def)
next
  case (report jid v)
  with assms(1) exec_job_update_inv [OF _ legal_progress] show ?thesis
    by (auto simp: queue_inv_def queue_history_def flush_progress_def)
next
  case (complete jid res js)
  with assms(1) complete_inv show ?thesis by (auto simp: queue_inv_def queue_history_def)
next
  case (open_failed jid err)
  with assms(1) exec_job_update_inv [OF _ legal_recover(3)] show ?thesis
    by (auto simp: queue_inv_def queue_history_def fail_claimed_def)
next
  case (cancel jid r js)
  with assms(1) cancel_inv show ?thesis by (auto simp: queue_inv_def queue_history_def)
next
  case (shutdown pid)
  with assms(1) exec_job_update_inv [OF _ legal_recover(6)] show ?thesis
    by (auto simp: queue_inv_def queue_history_def markRunningCancelled_def)
next
  case (model_update u)
  with assms(1) show ?thesis by (simp add: queue_inv_def queue_history_def)
qed

interpretation job_queue: transition_system empty_queue "queue_step clear automatic parse" queue_inv queue_history
  for clear automatic parse
proof unfold_locales
  show "empty_queue q \<Longrightarrow> queue_inv q" for q
    by (auto simp: empty_queue_def queue_inv_def jobs_inv_def unique_key_def spaced_def)
  show "queue_history q r \<Longrightarrow> queue_history r u \<Longrightarrow> queue_history q u" for q r u
    using jobs_evolve_trans unfolding queue_history_def by force
qed (auto simp: queue_history_def dest: queue_step_inv)

section \<open>Properties\<close>

text \<open>
  C6. The life of a job: once enqueued a row stays in the table under its id with its
  type and enqueue time, a finished job (complete, failed or cancelled) never changes
  again, and a running job never returns to the queue, so no job is claimed twice.
\<close>

theorem job_lifecycle:
  assumes "reachable empty_queue (queue_step clear automatic parse) q"
    and "(queue_step clear automatic parse)\<^sup>*\<^sup>* q q'" and "j \<in> set (jobs (store q))"
  shows "\<exists>k. lookup_row job_id (job_id j) (jobs (store q')) = Some k \<and>
    job_type k = job_type j \<and> started_at_ms k = started_at_ms j \<and>
    (job_state j \<in> {Complete, Failed, Cancelled} \<longrightarrow> k = j) \<and>
    (job_state j = Running \<longrightarrow> job_state k \<noteq> Queued)"
proof -
  have "queue_history q q'"
    by (rule job_queue.reachable_run [OF assms(1,2)])
  then obtain k where k: "k \<in> set (jobs (store q'))" "evolves j k"
    using assms(3) by (auto simp: queue_history_def jobs_evolve_def)
  have "queue_inv q'"
    using job_queue.run_inv [OF assms(2)] job_queue.reachable_inv [OF assms(1)] by blast
  then have "lookup_row job_id (job_id k) (jobs (store q')) = Some k"
    using k(1) by (intro lookup_row_unique) (simp_all add: queue_inv_def jobs_inv_def)
  with k(2) show ?thesis by (auto simp: evolves_def active_def)
qed

text \<open>A concrete run: a build is enqueued, claimed and completed.\<close>

definition sample_queue :: "int \<Rightarrow> job list \<Rightarrow> queue" where
  "sample_queue t js = \<lparr>clock = t, store = \<lparr>jobs = js, model_updates = initial_update_state\<rparr>\<rparr>"

definition sample_job :: job where
  "sample_job = new_job ''j1'' ''build'' 0 ''{}''"

definition sample_running :: "int \<Rightarrow> job" where
  "sample_running t = sample_job\<lparr>job_state := Running, owner_pid := Some 42, heartbeat_at_ms := Some t,
     cancel_requested := False\<rparr>"

lemma sample_enqueue:
  "queue_step clear automatic parse (sample_queue 0 []) (sample_queue 0 [sample_job])"
proof -
  have "marshalCompact (JObj []) = ''{}''" by code_simp
  then have "enqueue_txn clear ''j1'' ''build'' (JObj []) 0 [] = Inr (Enqueued ''j1'', [sample_job])"
    by (simp add: enqueue_txn_def recent_active_def insert_row_def job_check_def new_job_def sample_job_def)
  then show ?thesis
    using queue_step.enqueue [of clear "''j1''" "''build''" "JObj []" "sample_queue 0 []" "Enqueued ''j1''" "[sample_job]"]
    by (simp add: sample_queue_def put_jobs_def)
qed

lemma sample_time:
  "t \<le> t' \<Longrightarrow> queue_step clear automatic parse (sample_queue t js) (sample_queue t' js)"
  using queue_step.time [of "sample_queue t js" t'] by (simp add: sample_queue_def)

lemma sample_claim:
  assumes "0 \<le> t"
  shows "queue_step clear automatic parse (sample_queue t [sample_job]) (sample_queue t [sample_running t])"
proof -
  have "\<exists>r. claimQueuedJob automatic parse False 42 t [sample_job] = (r, [sample_running t])"
    using assms
    by (cases "parse (payload_json sample_job)")
      (simp_all add: claimQueuedJob_def claimed_row_def claimable_def sample_running_def sample_job_def new_job_def
        job_update_def update_checked_def update_where_def queued_job_def job_check_def)
  then obtain r where "claimQueuedJob automatic parse False 42 t [sample_job] = (r, [sample_running t])" ..
  then show ?thesis
    using queue_step.claim [of automatic parse False 42 "sample_queue t [sample_job]" r "[sample_running t]"]
    by (simp add: sample_queue_def put_jobs_def)
qed

lemma sample_reachable:
  assumes "0 \<le> t"
  shows "reachable empty_queue (queue_step clear automatic parse) (sample_queue t [sample_job])"
    and "reachable empty_queue (queue_step clear automatic parse) (sample_queue t [sample_running t])"
proof -
  have "reachable empty_queue (queue_step clear automatic parse) (sample_queue 0 [])"
    by (rule reachable_init) (simp add: empty_queue_def sample_queue_def)
  then have "reachable empty_queue (queue_step clear automatic parse) (sample_queue 0 [sample_job])"
    by (rule reachable_step) (rule sample_enqueue)
  then show 1: "reachable empty_queue (queue_step clear automatic parse) (sample_queue t [sample_job])"
    by (rule reachable_step) (rule sample_time [OF assms])
  show "reachable empty_queue (queue_step clear automatic parse) (sample_queue t [sample_running t])"
    by (rule reachable_step [OF 1]) (rule sample_claim [OF assms])
qed

lemma job_lifecycle_witness:
  "\<exists>k. lookup_row job_id ''j1'' (jobs (store (sample_queue 9 [sample_running 5]))) = Some k \<and> job_state k \<noteq> Queued"
proof -
  have "(queue_step id (\<lambda>_. False) Inl)\<^sup>*\<^sup>* (sample_queue 5 [sample_running 5]) (sample_queue 9 [sample_running 5])"
    for Inl :: "string \<Rightarrow> jVal res"
    by (rule r_into_rtranclp) (simp add: sample_time)
  from job_lifecycle [OF sample_reachable(2) this, of "sample_running 5"] show ?thesis
    by (auto simp: sample_queue_def sample_running_def sample_job_def new_job_def)
qed

text \<open>
  C7. Requests coalesce: in every reachable state ids are unique and two active jobs of
  one type were enqueued at least six hours apart, whatever the interleaving of requests,
  automatic enqueues, claims and cancels.
\<close>

theorem active_jobs_coalesced:
  assumes "reachable empty_queue (queue_step clear automatic parse) q"
  shows "distinct (map job_id (jobs (store q))) \<and>
    (\<forall>i \<in> set (jobs (store q)). \<forall>j \<in> set (jobs (store q)).
       active i \<and> active j \<and> job_type i = job_type j \<and> job_id i \<noteq> job_id j \<longrightarrow>
       \<bar>started_at_ms i - started_at_ms j\<bar> \<ge> 6 * 3600000)"
proof -
  have "queue_inv q" by (rule job_queue.reachable_inv [OF assms])
  then show ?thesis
    by (fastforce simp: queue_inv_def jobs_inv_def unique_key_def spaced_def)
qed

lemma active_jobs_coalesced_witness:
  "distinct (map job_id (jobs (store (sample_queue 7 [sample_job]))))"
  using active_jobs_coalesced [OF sample_reachable(1) [of 7 id "\<lambda>_. False" "\<lambda>_. Inr JNull"]] by simp



text \<open>
  C9. Recovery: in every reachable state, \<open>recoverOrphanJobs\<close> fails exactly the running
  jobs without a heartbeat in the last five minutes and leaves every other row alone, so
  a job that beats is never taken from its worker and a dead one never blocks the queue.
\<close>

theorem recoverOrphanJobs_exact:
  assumes "reachable empty_queue (queue_step clear automatic parse) q"
  shows "jobs (recoverOrphanJobs (clock q) (store q)) =
    map (\<lambda>j. if job_state j = Running \<and> the (heartbeat_at_ms j) \<le> clock q - 5 * 60000
             then j\<lparr>job_state := Failed, finished_at_ms := Some (clock q), job_error := Some ''interrupted''\<rparr>
             else j) (jobs (store q))"
proof -
  let ?now = "clock q"
  let ?f = "finish Failed ?now (Some ''interrupted'')"
  have inv: "jobs_inv ?now (jobs (store q))"
    using job_queue.reachable_inv [OF assms] by (simp add: queue_inv_def)
  have check: "job_check (?f j)" if "j \<in> set (jobs (store q))" for j
    using inv that by (auto simp: jobs_inv_def row_ok_def job_check_def finish_def)
  let ?js1 = "exec_job_update (stale_heartbeat ?now) ?f (jobs (store q))"
  have 1: "?js1 = update_where (stale_heartbeat ?now) ?f (jobs (store q))"
    using check by (simp add: exec_job_update_def job_update_def update_checked_def list_all_iff)
  have "jobs_inv ?now ?js1"
    using exec_job_update_inv [OF inv legal_recover(1)] by blast
  then have "\<not> stale_legacy ?now j" if "j \<in> set ?js1" for j
    using that by (auto simp: jobs_inv_def row_ok_def stale_legacy_def)
  then have "filter (stale_legacy ?now) ?js1 = []"
    by (simp add: filter_empty_conv)
  then have "exec_job_update (stale_legacy ?now) ?f ?js1 = update_where (stale_legacy ?now) ?f ?js1"
    by (simp add: exec_job_update_def job_update_def update_checked_def)
  also have "\<dots> = ?js1"
    using \<open>\<And>j. j \<in> set ?js1 \<Longrightarrow> \<not> stale_legacy ?now j\<close> unfolding update_where_def by (intro map_idI) simp
  finally have "jobs (recoverOrphanJobs ?now (store q)) = update_where (stale_heartbeat ?now) ?f (jobs (store q))"
    using 1 by (simp add: recoverOrphanJobs_def Let_def)
  moreover have "stale_heartbeat ?now j \<longleftrightarrow> job_state j = Running \<and> the (heartbeat_at_ms j) \<le> ?now - 5 * 60000"
    if "j \<in> set (jobs (store q))" for j
    using inv that by (auto simp: jobs_inv_def row_ok_def stale_heartbeat_def heartbeatStaleMs_def)
  ultimately show ?thesis
    by (auto simp: update_where_def finish_def)
qed

lemma recoverOrphanJobs_exact_witness:
  "jobs (recoverOrphanJobs 300005 \<lparr>jobs = [sample_running 5], model_updates = initial_update_state\<rparr>) =
     [(sample_running 5)\<lparr>job_state := Failed, finished_at_ms := Some 300005, job_error := Some ''interrupted''\<rparr>]"
proof -
  have "reachable empty_queue (queue_step id (\<lambda>_. False) (\<lambda>_. Inr JNull)) (sample_queue 300005 [sample_running 5])"
    by (rule reachable_step [OF sample_reachable(2) [of 5]]) (simp_all add: sample_time)
  from recoverOrphanJobs_exact [OF this] show ?thesis
    by (simp add: sample_queue_def sample_running_def)
qed

text \<open>
  C10. Cancelling answers what it did: a queued job is cancelled at once, a running one is
  flagged for its worker (and the worker's next heartbeat ends it), and with no active job
  of that id nothing changes. Only the row with that id is touched.
\<close>

theorem opCancelJob_correct:
  assumes "reachable empty_queue (queue_step clear automatic parse) q"
    and "jid \<noteq> []" and "lookup_row job_id jid (jobs (store q)) = row"
  shows "opCancelJob jid (clock q) (jobs (store q)) = Inr
    (case row of
       None \<Rightarrow> (No_Active_Job, jobs (store q))
     | Some j \<Rightarrow>
         (case job_state j of
            Queued \<Rightarrow> (Cancelled_Now, update_where (\<lambda>k. k = j)
              (\<lambda>k. k\<lparr>job_state := Cancelled, finished_at_ms := Some (clock q)\<rparr>) (jobs (store q)))
          | Running \<Rightarrow> (Cancel_Asked, update_where (\<lambda>k. k = j) (\<lambda>k. k\<lparr>cancel_requested := True\<rparr>) (jobs (store q)))
          | _ \<Rightarrow> (No_Active_Job, jobs (store q))))"
proof -
  let ?js = "jobs (store q)"
  have inv: "jobs_inv (clock q) ?js"
    using job_queue.reachable_inv [OF assms(1)] by (simp add: queue_inv_def)
  have rows: "\<forall>j \<in> set ?js. job_check j \<and> started_at_ms j \<le> clock q"
    using inv by (auto simp: jobs_inv_def row_ok_def)
  have same: "update_where p f ?js = ?js" if "\<forall>j \<in> set ?js. \<not> p j" for p and f :: "job \<Rightarrow> job"
    using that by (auto simp: update_where_def intro: map_idI)
  have none: "job_update p f ?js = Inr ?js" "affected_rows p ?js = 0"
    if "\<forall>j \<in> set ?js. \<not> p j" for p and f :: "job \<Rightarrow> job"
    using that same by (auto simp: job_update_def update_checked_def affected_rows_def list_all_iff filter_empty_conv)
  show ?thesis
  proof (cases row)
    case None
    with assms(3) have "\<forall>j \<in> set ?js. job_id j \<noteq> jid" by (auto simp: lookup_row_None)
    then have "\<forall>j \<in> set ?js. \<not> queued_job jid j" "\<forall>j \<in> set ?js. \<not> running_job jid j"
      by (auto simp: queued_job_def running_job_def)
    with None none assms(2) show ?thesis by (simp add: opCancelJob_def)
  next
    case (Some j)
    with assms(3) have j: "j \<in> set ?js" "job_id j = jid" by (auto dest: lookup_row_Some)
    have only: "job_id k = jid \<longleftrightarrow> k = j" if "k \<in> set ?js" for k
      using inv j that by (auto simp: jobs_inv_def dest: unique_key_inj)
    have q: "queued_job jid k \<longleftrightarrow> k = j \<and> job_state j = Queued"
      and r: "running_job jid k \<longleftrightarrow> k = j \<and> job_state j = Running" if "k \<in> set ?js" for k
      using only [OF that] by (auto simp: queued_job_def running_job_def)
    have upd: "job_update p f ?js = Inr (update_where (\<lambda>k. k = j) f ?js)" "affected_rows p ?js > 0"
      if "\<forall>k \<in> set ?js. p k \<longleftrightarrow> k = j" "job_check (f j)" for p f
      using that j(1) by (auto simp: job_update_def update_checked_def update_where_def affected_rows_def
          list_all_iff length_greater_0_conv filter_empty_conv simp del: length_greater_0_conv intro: filter_False)
    have checks: "job_check (j\<lparr>job_state := Cancelled, finished_at_ms := Some (clock q)\<rparr>)"
      "job_check (j\<lparr>cancel_requested := True\<rparr>)"
      using rows j(1) by (auto simp: job_check_def split: option.splits)
    show ?thesis
    proof (cases "job_state j")
      case Queued
      with q Some assms(2) checks(1)
        upd [of "queued_job jid" "\<lambda>k. k\<lparr>job_state := Cancelled, finished_at_ms := Some (clock q)\<rparr>"]
      show ?thesis by (simp add: opCancelJob_def)
    next
      case Running
      then have "\<forall>k \<in> set ?js. \<not> queued_job jid k" using q by simp
      with Running r none Some assms(2) checks(2)
        upd [of "running_job jid" "\<lambda>k. k\<lparr>cancel_requested := True\<rparr>"]
      show ?thesis by (simp add: opCancelJob_def)
    qed (use q r none Some assms(2) in \<open>simp_all add: opCancelJob_def\<close>)
  qed
qed

lemma opCancelJob_correct_witness:
  "opCancelJob ''j1'' 7 [sample_job] =
     Inr (Cancelled_Now, [sample_job\<lparr>job_state := Cancelled, finished_at_ms := Some 7\<rparr>])"
  using opCancelJob_correct [OF sample_reachable(1) [of 7 id "\<lambda>_. False" "\<lambda>_. Inr JNull"], of "''j1''"]
  by (simp add: sample_queue_def lookup_row_def sample_job_def new_job_def update_where_def)

text \<open>
  A claim leaves \<open>started_at_ms\<close> at the enqueue time, so a build that waited six
  hours in the queue (deferred while the page was open) is, while it runs, invisible to
  \<open>modelRebuilding\<close>, and an automatic request of the same type is enqueued beside it.
\<close>

theorem long_queued_build_invisible:
  "\<exists>q. reachable empty_queue (queue_step clear automatic parse) q \<and>
    (\<exists>j \<in> set (jobs (store q)). job_state j = Running \<and> job_type j = ''build'') \<and>
    \<not> modelRebuilding (clock q) (jobs (store q)) \<and>
    (\<exists>js. enqueueAutoTask ''j2'' ''build'' (JObj []) (clock q) (jobs (store q)) = Inr (True, js))"
proof (intro exI conjI)
  let ?q = "sample_queue 21600000 [sample_running 21600000]"
  show "reachable empty_queue (queue_step clear automatic parse) ?q"
    by (rule sample_reachable) simp
  show "\<exists>j \<in> set (jobs (store ?q)). job_state j = Running \<and> job_type j = ''build''"
    by (simp add: sample_queue_def sample_running_def sample_job_def)
  show "\<not> modelRebuilding (clock ?q) (jobs (store ?q))"
    by (simp add: sample_queue_def sample_running_def sample_job_def modelRebuilding_def)
  show "enqueueAutoTask ''j2'' ''build'' (JObj []) (clock ?q) (jobs (store ?q)) = Inr (True,
      jobs (store ?q) @ [new_job ''j2'' ''build'' (clock ?q)
        (marshalCompact (JObj [(''args'', JObj [(''automatic'', JBool True)])]))])"
    by (simp add: sample_queue_def sample_running_def sample_job_def enqueueAutoTask_def insert_row_def
        job_check_def new_job_def jset_def jget_def Let_def)
qed

end
