(* ===== verification/Feedback.thy ===== *)
theory Feedback
  imports Model_Updates Api_Args
begin

text \<open>
  Direct feedback: \<open>submitFeedbackBody\<close> and \<open>correctFeedbackBody\<close> of \<open>core/writes.go\<close>,
  with the tables they keep: \<open>feedback\<close>, \<open>exclusion\<close>, \<open>pruning_candidate\<close>, and the
  impressions a feedback may refer to; and the decisions of the pruning page
  (\<open>core/prune.go\<close>), which write \<open>pruning_candidate\<close> too.
\<close>

section \<open>Tables\<close>

record feedback =
  feedback_id :: string
  f_scene_id :: string
  feedback_type :: string
  f_value :: "string option"
  f_occurred_at_ms :: int
  reversed_by_id :: "string option"
  f_impression_id :: "string option"
  f_payload_json :: string

record exclusion =
  exclusion_id :: string
  entity_type :: string
  entity_id :: string
  exclusion_type :: string
  created_at_ms :: int
  expires_at_ms :: "int option"
  reversed_at_ms :: "int option"

datatype pruning_state = Review | Keep | Remove

record pruning_candidate =
  p_scene_id :: string
  p_state :: pruning_state
  p_created_at_ms :: int
  p_updated_at_ms :: int
  p_reason :: "string option"

record feedback_db =
  feedbacks :: "feedback list"
  exclusions :: "exclusion list"
  prunings :: "pruning_candidate list"
  impression_ids :: "string list"
  library_scenes :: "string list"
  source_tags :: "(string \<times> string) list"
  scene_tags :: "(string \<times> string) list"
  update_row :: model_update_state

definition feedback_check :: "feedback \<Rightarrow> bool" where
  "feedback_check f \<longleftrightarrow> 0 \<le> f_occurred_at_ms f"

definition exclusion_key :: "exclusion \<Rightarrow> string \<times> string \<times> string" where
  "exclusion_key e = (entity_type e, entity_id e, exclusion_type e)"

definition exclusion_check :: "exclusion \<Rightarrow> bool" where
  "exclusion_check e \<longleftrightarrow> 0 \<le> created_at_ms e"

definition pruning_check :: "pruning_candidate \<Rightarrow> bool" where
  "pruning_check p \<longleftrightarrow> 0 \<le> p_created_at_ms p \<and> p_updated_at_ms p \<ge> p_created_at_ms p"

section \<open>Normalisation\<close>

definition feedbackTypes :: "string list" where
  "feedbackTypes = [''thumb_up'', ''thumb_down'', ''not_now'', ''never_show'', ''prune'', ''metadata_wrong'']"

definition normalizeFeedbackEntry :: "jVal \<Rightarrow> feedback res" where
  "normalizeFeedbackEntry entry =
     (let ty = pythonStrOrEmpty (jget entry ''feedback_type'');
          fid = pythonStrOrEmpty (jget entry ''feedback_id'');
          scene = pythonStrOrEmpty (jget entry ''scene_id'');
          occurred = pythonIntErrOr (jget entry ''occurred_at_ms'') (-1);
          v = jget entry ''value''; imp = jget entry ''impression_id''; pl = jget entry ''payload''
      in if ty \<notin> set feedbackTypes then Inl (Msg (''unknown feedback type: '' @ ty))
         else if fid = [] \<or> scene = [] \<or> occurred < 0
         then Inl (Msg ''feedback_id, scene_id, and occurred_at_ms are required'')
         else Inr \<lparr>feedback_id = fid, f_scene_id = scene, feedback_type = ty,
           f_value = (if v = JNull then None else Some (asString v)),
           f_occurred_at_ms = occurred, reversed_by_id = None,
           f_impression_id = (if truthy imp then Some (asString imp) else None),
           f_payload_json = marshalSortedKeys (if is_obj pl then pl else JObj [])\<rparr>)"

section \<open>Effects of a feedback\<close>

text \<open>The go string of an entry without a value is empty.\<close>

definition review_row :: "feedback \<Rightarrow> string \<Rightarrow> pruning_candidate" where
  "review_row f reason =
     \<lparr>p_scene_id = f_scene_id f, p_state = Review, p_created_at_ms = f_occurred_at_ms f,
      p_updated_at_ms = f_occurred_at_ms f, p_reason = Some reason\<rparr>"

definition reopen_merge :: "pruning_candidate \<Rightarrow> pruning_candidate \<Rightarrow> pruning_candidate" where
  "reopen_merge old new = old\<lparr>p_state := Review, p_updated_at_ms := p_updated_at_ms new, p_reason := p_reason new\<rparr>"

definition reopenPruning :: "feedback \<Rightarrow> string \<Rightarrow> feedback_db \<Rightarrow> feedback_db res" where
  "reopenPruning f reason db =
     and_then (upsert_checked p_scene_id pruning_check reopen_merge (review_row f reason) (prunings db))
       (\<lambda>ps. Inr (db\<lparr>prunings := ps\<rparr>))"

definition never_show_row :: "feedback \<Rightarrow> exclusion" where
  "never_show_row f =
     \<lparr>exclusion_id = ''exclusion:'' @ f_scene_id f, entity_type = ''scene'', entity_id = f_scene_id f,
      exclusion_type = ''never_show'', created_at_ms = f_occurred_at_ms f,
      expires_at_ms = None, reversed_at_ms = None\<rparr>"

definition exclude_merge :: "exclusion \<Rightarrow> exclusion \<Rightarrow> exclusion" where
  "exclude_merge old new = old\<lparr>created_at_ms := created_at_ms new, reversed_at_ms := None, expires_at_ms := None\<rparr>"

definition applyFeedback :: "feedback \<Rightarrow> feedback_db \<Rightarrow> feedback_db res" where
  "applyFeedback f db =
     (if feedback_type f = ''never_show'' then
        and_then (upsert_checked exclusion_key exclusion_check exclude_merge (never_show_row f) (exclusions db))
          (\<lambda>es. reopenPruning f ''Never show'' (db\<lparr>exclusions := es\<rparr>))
      else if feedback_type f = ''thumb_down'' then reopenPruning f ''Thumbs down'' db
      else if feedback_type f = ''prune'' then
        reopenPruning f (case f_value f of Some v \<Rightarrow> v | None \<Rightarrow> []) db
      else Inr db)"

section \<open>Submitting\<close>

text \<open>
  \<open>INSERT OR IGNORE INTO feedback\<close>: a known id or a violated CHECK is ignored, an unknown
  impression violates the foreign key, which OR IGNORE does not cover.
\<close>

definition insert_feedback :: "feedback \<Rightarrow> feedback_db \<Rightarrow> (bool \<times> feedback_db) res" where
  "insert_feedback f db =
     (if \<not> feedback_check f \<or> feedback_id f \<in> set (map feedback_id (feedbacks db)) then Inr (False, db)
      else case f_impression_id f of
        Some i \<Rightarrow> if i \<in> set (impression_ids db) then Inr (True, db\<lparr>feedbacks := feedbacks db @ [f]\<rparr>)
                  else Inl Foreign_Key_Violation
      | None \<Rightarrow> Inr (True, db\<lparr>feedbacks := feedbacks db @ [f]\<rparr>))"

definition submit_one :: "feedback \<Rightarrow> int \<times> feedback_db \<Rightarrow> (int \<times> feedback_db) res" where
  "submit_one f = (\<lambda>(inserted, db).
     and_then (insert_feedback f db) (\<lambda>(new, db').
       if new then and_then (applyFeedback f db') (\<lambda>db''. Inr (inserted + 1, db''))
       else Inr (inserted, db')))"

definition request_update :: "string \<Rightarrow> int \<Rightarrow> feedback_db \<Rightarrow> feedback_db res" where
  "request_update cause now db =
     and_then (coordinatorRequest cause now (update_row db)) (\<lambda>u. Inr (db\<lparr>update_row := u\<rparr>))"

text \<open>The transaction of \<open>submitFeedbackBody\<close>; an error rolls it back.\<close>

definition submit_feedback_txn :: "feedback list \<Rightarrow> int \<Rightarrow> feedback_db \<Rightarrow> (int \<times> feedback_db) res" where
  "submit_feedback_txn entries now db =
     and_then (fold_res submit_one entries (0, db)) (\<lambda>(inserted, db').
       if inserted > 0
       then and_then (request_update ''direct_feedback'' now db') (\<lambda>db''. Inr (inserted, db''))
       else Inr (inserted, db'))"

definition submitFeedbackBody :: "jVal \<Rightarrow> int \<Rightarrow> feedback_db \<Rightarrow> feedback_db \<times> int res" where
  "submitFeedbackBody payload now db =
     (let entries = jget (jget payload ''args'') ''entries'' in
      if \<not> is_arr entries then (db, Inl (Msg ''entries must be a list''))
      else case map_res normalizeFeedbackEntry (arr_of entries) of
        Inl e \<Rightarrow> (db, Inl e)
      | Inr normalized \<Rightarrow>
          (case submit_feedback_txn normalized now db of
             Inl e \<Rightarrow> (db, Inl e)
           | Inr (inserted, db') \<Rightarrow> (db', Inr inserted)))"

section \<open>Correcting\<close>

definition negative_types :: "string list" where
  "negative_types = [''thumb_down'', ''never_show'', ''prune'']"

definition active_feedback :: "string list \<Rightarrow> string \<Rightarrow> feedback \<Rightarrow> bool" where
  "active_feedback types scene f \<longleftrightarrow>
     f_scene_id f = scene \<and> feedback_type f \<in> set types \<and> reversed_by_id f = None"

definition reverse_exclusion :: "string \<Rightarrow> int \<Rightarrow> feedback_db \<Rightarrow> feedback_db" where
  "reverse_exclusion scene now db =
     (if list_ex (active_feedback [''never_show''] scene) (feedbacks db) then db
      else db\<lparr>exclusions := update_where
        (\<lambda>e. exclusion_key e = (''scene'', scene, ''never_show'') \<and> reversed_at_ms e = None)
        (\<lambda>e. e\<lparr>reversed_at_ms := Some now\<rparr>) (exclusions db)\<rparr>)"

definition drop_review :: "string \<Rightarrow> string \<Rightarrow> feedback_db \<Rightarrow> feedback_db" where
  "drop_review originalType scene db =
     (if originalType \<notin> set negative_types
         \<or> list_ex (active_feedback negative_types scene) (feedbacks db) then db
      else db\<lparr>prunings := delete_where (\<lambda>p. p_scene_id p = scene \<and> p_state p = Review) (prunings db)\<rparr>)"

text \<open>The correction row, of the new type or a reversal.\<close>

definition correction_row :: "string \<Rightarrow> feedback \<Rightarrow> string option \<Rightarrow> int \<Rightarrow> feedback" where
  "correction_row correctionID original newType now =
     \<lparr>feedback_id = correctionID, f_scene_id = f_scene_id original,
      feedback_type = (case newType of Some t \<Rightarrow> t | None \<Rightarrow> ''reversal''), f_value = None,
      f_occurred_at_ms = now, reversed_by_id = None, f_impression_id = None,
      f_payload_json = marshalCompact (JObj [(''replaces_feedback_id'', JStr (feedback_id original))])\<rparr>"

definition correct_feedback_txn ::
    "string \<Rightarrow> string \<Rightarrow> string option \<Rightarrow> int \<Rightarrow> feedback_db \<Rightarrow> feedback_db res" where
  "correct_feedback_txn feedbackID correctionID newType now db =
     (case lookup_row feedback_id feedbackID (feedbacks db) of
        None \<Rightarrow> Inl (Msg ''unknown feedback'')
      | Some original \<Rightarrow>
          if reversed_by_id original \<noteq> None then Inl (Msg ''feedback was already corrected'')
          else if now < f_occurred_at_ms original then Inl (Msg ''correction cannot predate feedback'')
          else let correction = correction_row correctionID original newType now in
            and_then (insert_row feedback_id feedback_check correction (feedbacks db)) (\<lambda>fs.
            let db1 = db\<lparr>feedbacks := update_where (\<lambda>f. feedback_id f = feedbackID)
                  (\<lambda>f. f\<lparr>reversed_by_id := Some correctionID\<rparr>) fs\<rparr> in
            and_then (if newType \<noteq> None then applyFeedback correction db1 else Inr db1) (\<lambda>db2.
              request_update ''feedback_correction'' now
                (drop_review (feedback_type original) (f_scene_id original)
                  (reverse_exclusion (f_scene_id original) now db2)))))"

definition correctFeedbackBody :: "jVal \<Rightarrow> int \<Rightarrow> feedback_db \<Rightarrow> feedback_db \<times> unit res" where
  "correctFeedbackBody payload now db =
     (let args = jget payload ''args'';
          fid = pythonStrOrEmpty (jget args ''feedback_id'');
          cid = pythonStrOrEmpty (jget args ''correction_id'');
          ty = (if truthy (jget args ''feedback_type'') then Some (asString (jget args ''feedback_type'')) else None)
      in if ty \<noteq> None \<and> the ty \<notin> set feedbackTypes
         then (db, Inl (Msg (''unknown feedback type: '' @ the ty)))
         else if fid = [] \<or> cid = [] \<or> now < 0
         then (db, Inl (Msg ''feedback_id, correction_id, and occurred_at_ms are required''))
         else case correct_feedback_txn fid cid ty now db of
           Inl e \<Rightarrow> (db, Inl e)
         | Inr db' \<Rightarrow> (db', Inr ()))"

section \<open>The pruning page\<close>

definition set_pruning :: "pruning_state \<Rightarrow> string \<Rightarrow> string \<Rightarrow> int \<Rightarrow> feedback_db \<Rightarrow> feedback_db res" where
  "set_pruning st reason scene now db =
     and_then (upsert_checked p_scene_id pruning_check
         (\<lambda>old new. old\<lparr>p_state := st, p_updated_at_ms := p_updated_at_ms new, p_reason := p_reason new\<rparr>)
         \<lparr>p_scene_id = scene, p_state = st, p_created_at_ms = now, p_updated_at_ms = now, p_reason = Some reason\<rparr>
         (prunings db))
       (\<lambda>ps. Inr (db\<lparr>prunings := ps\<rparr>))"

definition dismissPruneCandidate :: "string \<Rightarrow> int \<Rightarrow> feedback_db \<Rightarrow> feedback_db res" where
  "dismissPruneCandidate scene now db = set_pruning Keep ''Dismissed model suspect'' scene now db"

definition tag_scene :: "string \<Rightarrow> string \<Rightarrow> int \<Rightarrow> string \<Rightarrow> feedback_db \<Rightarrow> feedback_db res" where
  "tag_scene tagID tagName now scene db =
     (if (scene, tagID) \<in> set (scene_tags db)
      then set_pruning Remove (''Tagged '' @ tagName) scene now db
      else if scene \<notin> set (library_scenes db) then Inl Foreign_Key_Violation
      else set_pruning Remove (''Tagged '' @ tagName) scene now
             (db\<lparr>scene_tags := scene_tags db @ [(scene, tagID)]\<rparr>))"

definition untag_scene :: "string \<Rightarrow> string \<Rightarrow> feedback_db \<Rightarrow> feedback_db" where
  "untag_scene tagID scene db =
     db\<lparr>scene_tags := filter (\<lambda>t. t \<noteq> (scene, tagID)) (scene_tags db),
        prunings := delete_where (\<lambda>p. p_scene_id p = scene \<and> p_state p = Remove) (prunings db)\<rparr>"

definition recordPruneTags ::
    "string list \<Rightarrow> bool \<Rightarrow> string \<Rightarrow> string \<Rightarrow> int \<Rightarrow> feedback_db \<Rightarrow> feedback_db res" where
  "recordPruneTags scenes tagged tagID tagName now db =
     (let db1 = db\<lparr>source_tags := upsert_row fst (\<lambda>old new. new) (tagID, tagName) (source_tags db)\<rparr> in
      if tagged then fold_res (tag_scene tagID tagName now) scenes db1
      else Inr (fold (untag_scene tagID) scenes db1))"

definition tagged_scenes :: "string \<Rightarrow> feedback_db \<Rightarrow> string list" where
  "tagged_scenes tagName db =
     map fst (filter (\<lambda>(scene, tag). \<exists>t \<in> set (source_tags db).
       fst t = tag \<and> to_lower (snd t) = to_lower tagName) (scene_tags db))"

text \<open>
  \<open>reconcilePruneTag\<close>; Go ranges over the tagged scenes in any order, the argument
  \<open>order\<close>. The upsert has a WHERE: a row already removed for this reason is not touched.
\<close>

definition reconcile_one ::
    "string \<Rightarrow> int \<Rightarrow> string \<Rightarrow> bool \<times> feedback_db \<Rightarrow> (bool \<times> feedback_db) res" where
  "reconcile_one reason now scene = (\<lambda>(changed, db).
     (case lookup_row p_scene_id scene (prunings db) of
        Some p \<Rightarrow>
          if p_state p = Remove \<and> p_reason p = Some reason then Inr (changed, db)
          else and_then (set_pruning Remove reason scene now db) (\<lambda>db'. Inr (True, db'))
      | None \<Rightarrow> and_then (set_pruning Remove reason scene now db) (\<lambda>db'. Inr (True, db'))))"

definition reconcilePruneTag ::
    "string list \<Rightarrow> string \<Rightarrow> int \<Rightarrow> feedback_db \<Rightarrow> (bool \<times> feedback_db) res" where
  "reconcilePruneTag order tagName now db =
     (let gone = (\<lambda>p. p_state p = Remove \<and> p_scene_id p \<notin> set (tagged_scenes tagName db));
          db1 = db\<lparr>prunings := delete_where gone (prunings db)\<rparr>
      in fold_res (reconcile_one (''Tagged '' @ tagName) now) order
           (affected_rows gone (prunings db) > 0, db1))"

section \<open>The contract\<close>

text \<open>
  Ids are unique; a scene is excluded exactly while an uncorrected \<open>never_show\<close> exists,
  and it stands for review only while an uncorrected negative feedback exists.
\<close>

definition excluded :: "feedback_db \<Rightarrow> string \<Rightarrow> bool" where
  "excluded db scene \<longleftrightarrow> (\<exists>e \<in> set (exclusions db).
     exclusion_key e = (''scene'', scene, ''never_show'') \<and> reversed_at_ms e = None)"

definition in_review :: "feedback_db \<Rightarrow> string \<Rightarrow> bool" where
  "in_review db scene \<longleftrightarrow> (\<exists>p \<in> set (prunings db). p_scene_id p = scene \<and> p_state p = Review)"

definition has_active :: "string list \<Rightarrow> feedback_db \<Rightarrow> string \<Rightarrow> bool" where
  "has_active types db scene \<longleftrightarrow> (\<exists>f \<in> set (feedbacks db). active_feedback types scene f)"

definition feedback_inv :: "feedback_db \<Rightarrow> bool" where
  "feedback_inv db \<longleftrightarrow>
     unique_key feedback_id (feedbacks db) \<and> unique_key exclusion_key (exclusions db) \<and>
     unique_key p_scene_id (prunings db) \<and>
     (\<forall>scene. excluded db scene \<longleftrightarrow> has_active [''never_show''] db scene) \<and>
     (\<forall>scene. in_review db scene \<longrightarrow> has_active negative_types db scene)"

definition empty_feedback_db :: "feedback_db \<Rightarrow> bool" where
  "empty_feedback_db db \<longleftrightarrow> feedbacks db = [] \<and> exclusions db = [] \<and> prunings db = []"

inductive feedback_step :: "feedback_db \<Rightarrow> feedback_db \<Rightarrow> bool" where
  submit: "submitFeedbackBody payload now db = (db', r) \<Longrightarrow> feedback_step db db'"
| correct: "correctFeedbackBody payload now db = (db', r) \<Longrightarrow> feedback_step db db'"
| dismiss: "dismissPruneCandidate scene now db = Inr db' \<Longrightarrow> feedback_step db db'"
| prune_tags: "recordPruneTags scenes tagged tagID tagName now db = Inr db' \<Longrightarrow> feedback_step db db'"
| reconcile: "reconcilePruneTag order tagName now db = Inr (c, db') \<Longrightarrow> feedback_step db db'"
| impressions: "feedback_step db (db\<lparr>impression_ids := is, library_scenes := ss\<rparr>)"

inductive_cases feedback_step_cases: "feedback_step db db'"

lemma set_pruning_frame:
  assumes "set_pruning st reason scene now db = Inr db'"
  shows "feedbacks db' = feedbacks db" and "exclusions db' = exclusions db"
    and "unique_key p_scene_id (prunings db) \<Longrightarrow> unique_key p_scene_id (prunings db')"
    and "st \<noteq> Review \<Longrightarrow> in_review db' sc \<Longrightarrow> in_review db sc"
proof -
  obtain ps where ps: "upsert_checked p_scene_id pruning_check
         (\<lambda>old new. old\<lparr>p_state := st, p_updated_at_ms := p_updated_at_ms new, p_reason := p_reason new\<rparr>)
         \<lparr>p_scene_id = scene, p_state = st, p_created_at_ms = now, p_updated_at_ms = now, p_reason = Some reason\<rparr>
         (prunings db) = Inr ps" and db': "db' = db\<lparr>prunings := ps\<rparr>"
    using assms by (auto simp: set_pruning_def and_then_Inr_iff)
  then show "feedbacks db' = feedbacks db" "exclusions db' = exclusions db" by simp_all
  show "unique_key p_scene_id (prunings db) \<Longrightarrow> unique_key p_scene_id (prunings db')"
    using ps db' by (auto simp: upsert_checked_Inr intro: unique_key_upsert)
  show "st \<noteq> Review \<Longrightarrow> in_review db' sc \<Longrightarrow> in_review db sc"
    using ps db' by (auto simp: upsert_checked_Inr in_review_def upsert_row_def set_update_where split: if_splits)
qed

lemma reopenPruning_effect:
  assumes "reopenPruning f reason db = Inr db'"
  shows "feedbacks db' = feedbacks db" and "exclusions db' = exclusions db"
    and "unique_key p_scene_id (prunings db) \<Longrightarrow> unique_key p_scene_id (prunings db')"
    and "in_review db' sc \<longleftrightarrow> in_review db sc \<or> sc = f_scene_id f"
proof -
  obtain ps where ps: "upsert_checked p_scene_id pruning_check reopen_merge (review_row f reason) (prunings db) = Inr ps"
      and db': "db' = db\<lparr>prunings := ps\<rparr>"
    using assms by (auto simp: reopenPruning_def and_then_Inr_iff)
  then show "feedbacks db' = feedbacks db" "exclusions db' = exclusions db" by simp_all
  show "unique_key p_scene_id (prunings db) \<Longrightarrow> unique_key p_scene_id (prunings db')"
    using ps db' by (auto simp: upsert_checked_Inr reopen_merge_def review_row_def intro!: unique_key_upsert)
  have eq: "ps = upsert_row p_scene_id reopen_merge (review_row f reason) (prunings db)"
    using ps by (simp add: upsert_checked_Inr)
  show "in_review db' sc \<longleftrightarrow> in_review db sc \<or> sc = f_scene_id f"
  proof -
    have "(\<exists>p \<in> set ps. p_scene_id p = sc \<and> p_state p = Review) \<longleftrightarrow>
        (\<exists>p \<in> set (prunings db). p_scene_id p = sc \<and> p_state p = Review) \<or> sc = f_scene_id f"
      unfolding eq by (rule bex_upsert) (auto simp: reopen_merge_def review_row_def)
    then show ?thesis by (simp add: db' in_review_def)
  qed
qed

lemma never_show_effect:
  assumes "upsert_checked exclusion_key exclusion_check exclude_merge (never_show_row f) (exclusions db) = Inr es"
  shows "unique_key exclusion_key (exclusions db) \<Longrightarrow> unique_key exclusion_key es"
    and "excluded (db\<lparr>exclusions := es\<rparr>) sc \<longleftrightarrow> excluded db sc \<or> sc = f_scene_id f"
proof -
  have eq: "es = upsert_row exclusion_key exclude_merge (never_show_row f) (exclusions db)"
    using assms by (simp add: upsert_checked_Inr)
  have key: "exclusion_key (exclude_merge x y) = exclusion_key x" for x y
    by (simp add: exclusion_key_def exclude_merge_def)
  have row: "exclusion_key (never_show_row f) = (''scene'', f_scene_id f, ''never_show'')"
    by (simp add: exclusion_key_def never_show_row_def)
  show "unique_key exclusion_key (exclusions db) \<Longrightarrow> unique_key exclusion_key es"
    unfolding eq by (rule unique_key_upsert) (simp_all add: key)
  have new: "reversed_at_ms (exclude_merge x y) = None" "reversed_at_ms (never_show_row f) = None" for x y
    by (simp_all add: exclude_merge_def never_show_row_def)
  show "excluded (db\<lparr>exclusions := es\<rparr>) sc \<longleftrightarrow> excluded db sc \<or> sc = f_scene_id f"
  proof -
    have "(\<exists>e \<in> set es. exclusion_key e = (''scene'', sc, ''never_show'') \<and> reversed_at_ms e = None) \<longleftrightarrow>
        (\<exists>e \<in> set (exclusions db). exclusion_key e = (''scene'', sc, ''never_show'') \<and> reversed_at_ms e = None)
          \<or> sc = f_scene_id f"
      unfolding eq by (rule bex_upsert) (auto simp: key row new)
    then show ?thesis by (simp add: excluded_def)
  qed
qed

lemma applyFeedback_effect:
  assumes "applyFeedback f db = Inr db'"
  shows "feedbacks db' = feedbacks db"
    and "unique_key p_scene_id (prunings db) \<Longrightarrow> unique_key p_scene_id (prunings db')"
    and "unique_key exclusion_key (exclusions db) \<Longrightarrow> unique_key exclusion_key (exclusions db')"
    and "excluded db' sc \<longleftrightarrow> excluded db sc \<or> (feedback_type f = ''never_show'' \<and> sc = f_scene_id f)"
    and "in_review db' sc \<longleftrightarrow> in_review db sc \<or> (feedback_type f \<in> set negative_types \<and> sc = f_scene_id f)"
proof -
  have ex: "excluded d sc = excluded d' sc" if "exclusions d = exclusions d'" for d d'
    using that by (simp add: excluded_def)
  have rv: "in_review d sc = in_review d' sc" if "prunings d = prunings d'" for d d'
    using that by (simp add: in_review_def)
  consider (never) "feedback_type f = ''never_show''"
    | (other) reason where "feedback_type f \<in> {''thumb_down'', ''prune''}" "reopenPruning f reason db = Inr db'"
    | (none) "feedback_type f \<notin> set negative_types" "db' = db"
    using assms by (auto simp: applyFeedback_def negative_types_def split: if_splits)
  then have "feedbacks db' = feedbacks db \<and>
    (unique_key p_scene_id (prunings db) \<longrightarrow> unique_key p_scene_id (prunings db')) \<and>
    (unique_key exclusion_key (exclusions db) \<longrightarrow> unique_key exclusion_key (exclusions db')) \<and>
    (excluded db' sc \<longleftrightarrow> excluded db sc \<or> (feedback_type f = ''never_show'' \<and> sc = f_scene_id f)) \<and>
    (in_review db' sc \<longleftrightarrow> in_review db sc \<or> (feedback_type f \<in> set negative_types \<and> sc = f_scene_id f))"
  proof cases
    case never
    then obtain es where es: "upsert_checked exclusion_key exclusion_check exclude_merge (never_show_row f) (exclusions db) = Inr es"
        and re: "reopenPruning f ''Never show'' (db\<lparr>exclusions := es\<rparr>) = Inr db'"
      using assms by (auto simp: applyFeedback_def and_then_Inr_iff)
    show ?thesis
      using never reopenPruning_effect [OF re] never_show_effect [OF es] ex [of db' "db\<lparr>exclusions := es\<rparr>"]
        rv [of db "db\<lparr>exclusions := es\<rparr>"]
      by (simp add: negative_types_def)
  next
    case other
    then show ?thesis
      using reopenPruning_effect [OF other(2)] ex [of db' db] by (auto simp: negative_types_def)
  next
    case none
    then show ?thesis by (auto simp: negative_types_def)
  qed
  then show "feedbacks db' = feedbacks db"
    and "unique_key p_scene_id (prunings db) \<Longrightarrow> unique_key p_scene_id (prunings db')"
    and "unique_key exclusion_key (exclusions db) \<Longrightarrow> unique_key exclusion_key (exclusions db')"
    and "excluded db' sc \<longleftrightarrow> excluded db sc \<or> (feedback_type f = ''never_show'' \<and> sc = f_scene_id f)"
    and "in_review db' sc \<longleftrightarrow> in_review db sc \<or> (feedback_type f \<in> set negative_types \<and> sc = f_scene_id f)"
    by blast+
qed

lemma active_new:
  assumes "reversed_by_id f = None"
  shows "has_active types (db\<lparr>feedbacks := feedbacks db @ [f]\<rparr>) sc \<longleftrightarrow>
    has_active types db sc \<or> (feedback_type f \<in> set types \<and> sc = f_scene_id f)"
  using assms by (auto simp: has_active_def active_feedback_def)

lemma feedback_inv_cong:
  assumes "feedbacks db = feedbacks db'" "exclusions db = exclusions db'" "prunings db = prunings db'"
  shows "feedback_inv db = feedback_inv db'"
  using assms by (simp add: feedback_inv_def excluded_def in_review_def has_active_def)

lemma submit_one_inv:
  assumes inv: "feedback_inv db" and run: "submit_one f (n, db) = Inr (n', db')" and new: "reversed_by_id f = None"
  shows "feedback_inv db'"
proof (cases "insert_feedback f db = Inr (False, db)")
  case True
  with run inv show ?thesis by (simp add: submit_one_def)
next
  case False
  let ?db1 = "db\<lparr>feedbacks := feedbacks db @ [f]\<rparr>"
  have fresh: "feedback_id f \<notin> feedback_id ` set (feedbacks db)"
    and ins: "insert_feedback f db = Inr (True, ?db1)"
    using run False
    by (auto simp: submit_one_def insert_feedback_def and_then_Inr_iff split: if_splits option.splits)
  from run ins have app: "applyFeedback f ?db1 = Inr db'"
    by (auto simp: submit_one_def and_then_Inr_iff)
  have base: "excluded ?db1 sc = excluded db sc" "in_review ?db1 sc = in_review db sc" for sc
    by (simp_all add: excluded_def in_review_def)
  have act: "has_active types db' sc \<longleftrightarrow> has_active types db sc \<or> (feedback_type f \<in> set types \<and> sc = f_scene_id f)"
    for types sc
    using active_new [OF new, of types db sc] applyFeedback_effect(1) [OF app] by (simp add: has_active_def)
  show ?thesis
    using inv fresh applyFeedback_effect [OF app] base act
    unfolding feedback_inv_def by (simp add: unique_key_snoc)
qed


lemma normalize_not_reversed: "normalizeFeedbackEntry e = Inr f \<Longrightarrow> reversed_by_id f = None"
  by (auto simp: normalizeFeedbackEntry_def Let_def split: if_splits)

lemma submit_step_inv:
  assumes inv: "feedback_inv db" and run: "submitFeedbackBody payload now db = (db', r)"
  shows "feedback_inv db'"
proof (cases "db' = db")
  case True
  with inv show ?thesis by simp
next
  case False
  then obtain fs n db1 where fs: "map_res normalizeFeedbackEntry (arr_of (jget (jget payload ''args'') ''entries'')) = Inr fs"
      and loop: "fold_res submit_one fs (0, db) = Inr (n, db1)"
      and last: "feedbacks db' = feedbacks db1" "exclusions db' = exclusions db1" "prunings db' = prunings db1"
    using run
    by (auto simp: submitFeedbackBody_def submit_feedback_txn_def request_update_def Let_def and_then_Inr_iff
        split: if_splits sum.splits prod.splits)
  have new: "\<forall>f \<in> set fs. reversed_by_id f = None"
    by (rule map_res_all [OF fs normalize_not_reversed])
  have "feedback_inv (snd (n, db1))"
    by (rule fold_res_invariant [OF loop]) (use inv new submit_one_inv in force)+
  then show ?thesis using feedback_inv_cong [OF last] by simp
qed

section \<open>The effect of a correction\<close>

definition other_active :: "string \<Rightarrow> string list \<Rightarrow> feedback_db \<Rightarrow> string \<Rightarrow> bool" where
  "other_active fid types db scene \<longleftrightarrow>
     (\<exists>f \<in> set (feedbacks db). feedback_id f \<noteq> fid \<and> active_feedback types scene f)"

lemma has_active_other:
  assumes "unique_key feedback_id (feedbacks db)" "f \<in> set (feedbacks db)" "reversed_by_id f = None"
  shows "has_active types db sc \<longleftrightarrow>
    other_active (feedback_id f) types db sc \<or> (feedback_type f \<in> set types \<and> sc = f_scene_id f)"
  using assms unique_key_inj [OF assms(1,2)]
  by (auto simp: has_active_def other_active_def active_feedback_def) (metis option.distinct(1))+

lemma reverse_exclusion_effect:
  "feedbacks (reverse_exclusion scene now db) = feedbacks db"
  "prunings (reverse_exclusion scene now db) = prunings db"
  "excluded (reverse_exclusion scene now db) sc \<longleftrightarrow>
     excluded db sc \<and> (sc = scene \<longrightarrow> has_active [''never_show''] db scene)"
  "unique_key exclusion_key (exclusions db) \<Longrightarrow>
     unique_key exclusion_key (exclusions (reverse_exclusion scene now db))"
  by (auto simp: reverse_exclusion_def list_ex_iff has_active_def excluded_def set_update_where
      exclusion_key_def intro!: unique_key_update_where)

lemma drop_review_effect:
  "feedbacks (drop_review ty scene db) = feedbacks db"
  "exclusions (drop_review ty scene db) = exclusions db"
  "in_review (drop_review ty scene db) sc \<longleftrightarrow>
     in_review db sc \<and> (sc = scene \<and> ty \<in> set negative_types \<longrightarrow> has_active negative_types db scene)"
  "unique_key p_scene_id (prunings db) \<Longrightarrow> unique_key p_scene_id (prunings (drop_review ty scene db))"
  by (auto simp: drop_review_def list_ex_iff has_active_def in_review_def intro: unique_key_delete)

lemma correct_feedback_txn_run:
  assumes "correct_feedback_txn fid cid newType now db = Inr db'" and inv: "feedback_inv db"
  obtains orig db1 db2 where
    "orig \<in> set (feedbacks db)" "feedback_id orig = fid" "reversed_by_id orig = None"
    "f_occurred_at_ms orig \<le> now" "cid \<notin> feedback_id ` set (feedbacks db)"
    "lookup_row feedback_id fid (feedbacks db) = Some orig"
    "db1 = db\<lparr>feedbacks := update_where (\<lambda>f. feedback_id f = fid) (\<lambda>f. f\<lparr>reversed_by_id := Some cid\<rparr>)
        (feedbacks db @ [correction_row cid orig newType now])\<rparr>"
    "(if newType \<noteq> None then applyFeedback (correction_row cid orig newType now) db1 else Inr db1) = Inr db2"
    "request_update ''feedback_correction'' now
       (drop_review (feedback_type orig) (f_scene_id orig) (reverse_exclusion (f_scene_id orig) now db2)) = Inr db'"
proof -
  from assms(1) obtain orig where orig: "lookup_row feedback_id fid (feedbacks db) = Some orig"
    by (auto simp: correct_feedback_txn_def split: option.splits)
  note facts = lookup_row_Some [OF orig]
  have id: "feedback_id (correction_row cid orig newType now) = cid"
    by (simp add: correction_row_def)
  show ?thesis
    using assms(1) orig facts
    by (auto simp: correct_feedback_txn_def Let_def and_then_Inr_iff insert_row_Inr id
        simp del: not_None_eq split: if_splits intro!: that [of orig])
qed

lemma correction_active:
  assumes db1: "db1 = db\<lparr>feedbacks := update_where (\<lambda>f. feedback_id f = fid) (\<lambda>f. f\<lparr>reversed_by_id := Some cid\<rparr>)
        (feedbacks db @ [correction_row cid orig newType now])\<rparr>"
    and "feedback_id orig = fid" "orig \<in> set (feedbacks db)" "cid \<notin> feedback_id ` set (feedbacks db)"
    and "''reversal'' \<notin> set types"
  shows "has_active types db1 sc \<longleftrightarrow>
    other_active fid types db sc \<or> (\<exists>ty \<in> set types. newType = Some ty \<and> sc = f_scene_id orig)"
proof -
  have neq: "cid \<noteq> fid" using assms(2-4) by auto
  have type: "feedback_type (correction_row cid orig newType now) \<in> set types \<longleftrightarrow>
      (\<exists>ty \<in> set types. newType = Some ty)"
    using assms(5) by (auto simp: correction_row_def split: option.splits)
  have id: "feedback_id (correction_row cid orig newType now) = cid"
    "reversed_by_id (correction_row cid orig newType now) = None"
    "f_scene_id (correction_row cid orig newType now) = f_scene_id orig"
    by (simp_all add: correction_row_def)
  have old: "(\<exists>f \<in> set (feedbacks db). active_feedback types sc (if feedback_id f = fid then f\<lparr>reversed_by_id := Some cid\<rparr> else f))
      \<longleftrightarrow> other_active fid types db sc"
    by (auto simp: active_feedback_def other_active_def)
  have "has_active types db1 sc \<longleftrightarrow>
      (\<exists>f \<in> set (feedbacks db). active_feedback types sc (if feedback_id f = fid then f\<lparr>reversed_by_id := Some cid\<rparr> else f))
        \<or> active_feedback types sc (correction_row cid orig newType now)"
    using neq by (auto simp: db1 has_active_def set_update_where id)
  then show ?thesis
    unfolding old by (auto simp: active_feedback_def id type)
qed

lemma correct_feedback_inv:
  assumes inv: "feedback_inv db" and run: "correct_feedback_txn fid cid newType now db = Inr db'"
  shows "feedback_inv db'"
  using run inv
proof (rule correct_feedback_txn_run)
  fix orig db1 db2
  let ?c = "correction_row cid orig newType now" and ?sc = "f_scene_id orig"
  assume orig: "orig \<in> set (feedbacks db)" "feedback_id orig = fid" "reversed_by_id orig = None"
    and fresh: "cid \<notin> feedback_id ` set (feedbacks db)"
    and db1: "db1 = db\<lparr>feedbacks := update_where (\<lambda>f. feedback_id f = fid) (\<lambda>f. f\<lparr>reversed_by_id := Some cid\<rparr>)
        (feedbacks db @ [?c])\<rparr>"
    and app: "(if newType \<noteq> None then applyFeedback ?c db1 else Inr db1) = Inr db2"
    and req: "request_update ''feedback_correction'' now (drop_review (feedback_type orig) ?sc
        (reverse_exclusion ?sc now db2)) = Inr db'"
  let ?db3 = "drop_review (feedback_type orig) ?sc (reverse_exclusion ?sc now db2)"
  have uniq: "unique_key feedback_id (feedbacks db)" and uq: "unique_key exclusion_key (exclusions db)"
      "unique_key p_scene_id (prunings db)"
    using inv by (simp_all add: feedback_inv_def)
  have uniq1: "unique_key feedback_id (feedbacks db1)"
    unfolding db1 using uniq fresh
    by (auto simp: correction_row_def intro!: unique_key_update_where)
  have same: "excluded db1 sc = excluded db sc" "in_review db1 sc = in_review db sc" for sc
    by (simp_all add: db1 excluded_def in_review_def)
  have cid: "feedback_type ?c = (case newType of Some t \<Rightarrow> t | None \<Rightarrow> ''reversal'')" "f_scene_id ?c = ?sc"
    by (simp_all add: correction_row_def)
  have eff: "feedbacks db2 = feedbacks db1" "unique_key p_scene_id (prunings db2)"
      "unique_key exclusion_key (exclusions db2)"
      "excluded db2 sc \<longleftrightarrow> excluded db sc \<or> (newType = Some ''never_show'' \<and> sc = ?sc)"
      "in_review db2 sc \<longleftrightarrow> in_review db sc \<or> (\<exists>ty \<in> set negative_types. newType = Some ty \<and> sc = ?sc)" for sc
    using app applyFeedback_effect [of ?c db1 db2] uq same [of sc] cid
    by (auto simp: db1 split: if_splits option.splits)
  have act: "has_active types db2 sc \<longleftrightarrow> other_active fid types db sc \<or> (\<exists>ty \<in> set types. newType = Some ty \<and> sc = ?sc)"
    if "''reversal'' \<notin> set types" for types sc
    using correction_active [OF db1 orig(2,1) fresh that] eff(1) by (simp add: has_active_def)
  have before: "has_active types db sc \<longleftrightarrow> other_active fid types db sc \<or> (feedback_type orig \<in> set types \<and> sc = ?sc)"
    for types sc
    using has_active_other [OF uniq orig(1,3), of types sc] orig(2) by simp
  have fs: "feedbacks ?db3 = feedbacks db2"
    by (simp add: drop_review_effect reverse_exclusion_effect)
  then have act3: "has_active types ?db3 sc = has_active types db2 sc" for types sc
    by (simp add: has_active_def)
  have ex3: "excluded ?db3 sc \<longleftrightarrow> excluded db2 sc \<and> (sc = ?sc \<longrightarrow> has_active [''never_show''] db2 ?sc)" for sc
    using reverse_exclusion_effect(3) [of ?sc now db2 sc] drop_review_effect(2)
    by (simp add: excluded_def)
  have ha: "has_active types (reverse_exclusion ?sc now db2) sc = has_active types db2 sc" for types sc
    by (simp add: has_active_def reverse_exclusion_effect)
  have rv3: "in_review ?db3 sc \<longleftrightarrow> in_review db2 sc \<and>
      (sc = ?sc \<and> feedback_type orig \<in> set negative_types \<longrightarrow> has_active negative_types db2 ?sc)" for sc
    using drop_review_effect(3) [of "feedback_type orig" ?sc "reverse_exclusion ?sc now db2" sc]
      reverse_exclusion_effect(2) [of ?sc now db2] ha
    by (simp add: in_review_def)
  have ns: "''reversal'' \<notin> set [''never_show'']" "''reversal'' \<notin> set negative_types"
    by (simp_all add: negative_types_def)
  have inv_ex: "excluded db sc \<longleftrightarrow> has_active [''never_show''] db sc"
    and inv_rv: "in_review db sc \<Longrightarrow> has_active negative_types db sc" for sc
    using inv by (simp_all add: feedback_inv_def)
  have "feedback_inv ?db3"
    unfolding feedback_inv_def
  proof (intro conjI allI impI)
    show "unique_key feedback_id (feedbacks ?db3)" using uniq1 eff(1) fs by simp
    show "unique_key exclusion_key (exclusions ?db3)"
      using eff(3) by (simp add: drop_review_effect reverse_exclusion_effect)
    show "unique_key p_scene_id (prunings ?db3)"
      using eff(2) by (simp add: drop_review_effect reverse_exclusion_effect)
    show "excluded ?db3 sc \<longleftrightarrow> has_active [''never_show''] ?db3 sc" for sc
      using inv_ex [of sc] act [OF ns(1)] before [of "[''never_show'']" sc] eff(4) [of sc]
      by (auto simp: ex3 act3)
    show "has_active negative_types ?db3 sc" if "in_review ?db3 sc" for sc
      using that inv_rv [of sc] act [OF ns(2)] before [of negative_types sc] eff(5) [of sc]
      by (auto simp: rv3 act3)
  qed
  moreover have "feedback_inv db' = feedback_inv ?db3"
    by (rule feedback_inv_cong) (use req in \<open>auto simp: request_update_def and_then_Inr_iff\<close>)
  ultimately show "feedback_inv db'" by simp
qed

lemma correct_step_inv:
  assumes "feedback_inv db" "correctFeedbackBody payload now db = (db', r)"
  shows "feedback_inv db'"
  using assms correct_feedback_inv
  by (auto simp: correctFeedbackBody_def Let_def split: if_splits sum.splits)

section \<open>The pruning page keeps the contract\<close>

text \<open>Everything but a \<open>submit\<close> or a correction leaves the feedback and the exclusions alone.\<close>

definition page_effect :: "feedback_db \<Rightarrow> feedback_db \<Rightarrow> bool" where
  "page_effect db db' \<longleftrightarrow> feedbacks db' = feedbacks db \<and> exclusions db' = exclusions db \<and>
     (unique_key p_scene_id (prunings db) \<longrightarrow> unique_key p_scene_id (prunings db')) \<and>
     (\<forall>sc. in_review db' sc \<longrightarrow> in_review db sc)"

lemma page_effect_refl [simp]: "page_effect db db"
  by (simp add: page_effect_def)

lemma page_effect_trans: "page_effect a b \<Longrightarrow> page_effect b c \<Longrightarrow> page_effect a c"
  by (simp add: page_effect_def)

lemma page_effect_inv: "feedback_inv db \<Longrightarrow> page_effect db db' \<Longrightarrow> feedback_inv db'"
  by (auto simp: feedback_inv_def page_effect_def excluded_def has_active_def)

lemma page_effect_set_pruning:
  "st \<noteq> Review \<Longrightarrow> set_pruning st reason scene now db = Inr db' \<Longrightarrow> page_effect db db'"
  using set_pruning_frame [of st reason scene now db db'] by (auto simp: page_effect_def)

lemma page_effect_delete:
  "page_effect db (db\<lparr>prunings := delete_where p (prunings db)\<rparr>)"
  by (auto simp: page_effect_def in_review_def intro: unique_key_delete)

lemma page_effect_frame:
  "page_effect db (db\<lparr>source_tags := ts, scene_tags := st\<rparr>)" "page_effect db (db\<lparr>source_tags := ts\<rparr>)"
  "page_effect db (db\<lparr>scene_tags := st\<rparr>)" "page_effect db (db\<lparr>impression_ids := is, library_scenes := ss\<rparr>)"
  by (simp_all add: page_effect_def in_review_def)

lemma page_effect_tag: "tag_scene tagID tagName now scene db = Inr db' \<Longrightarrow> page_effect db db'"
  by (auto simp: tag_scene_def split: if_splits
      intro: page_effect_set_pruning page_effect_trans [OF page_effect_frame(3)])

lemma page_effect_untag: "page_effect db (untag_scene tagID scene db)"
  by (auto simp: page_effect_def untag_scene_def in_review_def intro: unique_key_delete)

lemma page_effect_untags: "page_effect db (fold (untag_scene tagID) scenes db)"
proof (induction scenes arbitrary: db)
  case Nil
  then show ?case by simp
next
  case (Cons sc scenes)
  then show ?case using page_effect_trans [OF page_effect_untag Cons] by simp
qed

lemma page_effect_prune_tags:
  assumes "recordPruneTags scenes tagged tagID tagName now db = Inr db'"
  shows "page_effect db db'"
proof (cases tagged)
  case True
  let ?db1 = "db\<lparr>source_tags := upsert_row fst (\<lambda>old new. new) (tagID, tagName) (source_tags db)\<rparr>"
  have loop: "fold_res (tag_scene tagID tagName now) scenes ?db1 = Inr db'"
    using assms True by (simp add: recordPruneTags_def Let_def)
  show ?thesis
    by (rule fold_res_invariant [OF loop, of "page_effect db"])
      (blast intro: page_effect_frame page_effect_trans page_effect_tag)+
next
  case False
  then show ?thesis
    using assms page_effect_trans [OF page_effect_frame(2) page_effect_untags]
    by (auto simp: recordPruneTags_def Let_def)
qed

lemma page_effect_reconcile:
  assumes "reconcilePruneTag order tagName now db = Inr (c, db')"
  shows "page_effect db db'"
proof -
  have one: "page_effect (snd s) (snd s')" if "reconcile_one reason now scene s = Inr s'" for reason scene s s'
    using that by (cases s) (auto simp: reconcile_one_def and_then_Inr_iff split: option.splits if_splits
        intro: page_effect_set_pruning)
  have "page_effect db (snd (c, db'))"
    by (rule fold_res_invariant [where P = "\<lambda>s. page_effect db (snd s)",
          OF assms [unfolded reconcilePruneTag_def Let_def]])
      (use one page_effect_trans in \<open>force intro: page_effect_delete\<close>)+
  then show ?thesis by simp
qed

lemma feedback_step_inv: "feedback_step db db' \<Longrightarrow> feedback_inv db \<Longrightarrow> feedback_inv db'"
  by (induction rule: feedback_step.induct)
    (auto intro: submit_step_inv correct_step_inv page_effect_inv page_effect_prune_tags
      page_effect_reconcile page_effect_frame page_effect_set_pruning simp: dismissPruneCandidate_def)

section \<open>Feedback rows are corrected once and never deleted\<close>

definition later_row :: "feedback \<Rightarrow> feedback \<Rightarrow> bool" where
  "later_row f f' \<longleftrightarrow> f' = f \<or> (reversed_by_id f = None \<and> (\<exists>c. f' = f\<lparr>reversed_by_id := Some c\<rparr>))"

definition feedback_history :: "feedback_db \<Rightarrow> feedback_db \<Rightarrow> bool" where
  "feedback_history db db' \<longleftrightarrow> (\<forall>f \<in> set (feedbacks db). \<exists>f' \<in> set (feedbacks db'). later_row f f')"

lemma later_row_trans: "later_row a b \<Longrightarrow> later_row b c \<Longrightarrow> later_row a c"
  by (auto simp: later_row_def)

lemma feedback_history_refl: "feedback_history db db"
  by (auto simp: feedback_history_def later_row_def)

lemma feedback_history_trans: "feedback_history a b \<Longrightarrow> feedback_history b c \<Longrightarrow> feedback_history a c"
  unfolding feedback_history_def using later_row_trans by meson

lemma feedback_history_subset: "set (feedbacks a) \<subseteq> set (feedbacks b) \<Longrightarrow> feedback_history a b"
  by (auto simp: feedback_history_def later_row_def)

lemma submit_one_subset:
  assumes "submit_one f s = Inr s'"
  shows "set (feedbacks (snd s)) \<subseteq> set (feedbacks (snd s'))"
  using assms by (cases s)
    (auto simp: submit_one_def insert_feedback_def and_then_Inr_iff
      dest!: applyFeedback_effect(1) split: if_splits option.splits)

lemma submit_history:
  assumes "submitFeedbackBody payload now db = (db', r)"
  shows "set (feedbacks db) \<subseteq> set (feedbacks db')"
proof (cases "db' = db")
  case False
  then obtain fs n db1 where loop: "fold_res submit_one fs (0, db) = Inr (n, db1)"
      and last: "feedbacks db' = feedbacks db1"
    using assms
    by (auto simp: submitFeedbackBody_def submit_feedback_txn_def request_update_def Let_def and_then_Inr_iff
        split: if_splits sum.splits prod.splits)
  have "set (feedbacks db) \<subseteq> set (feedbacks (snd (n, db1)))"
    by (rule fold_res_invariant [OF loop]) (use submit_one_subset in force)+
  with last show ?thesis by simp
qed simp

lemma correct_history:
  assumes "correctFeedbackBody payload now db = (db', r)" "feedback_inv db"
  shows "feedback_history db db'"
proof (cases "db' = db")
  case True
  then show ?thesis by (simp add: feedback_history_refl)
next
  case False
  then obtain fid cid ty where "correct_feedback_txn fid cid ty now db = Inr db'"
    using assms(1) by (auto simp: correctFeedbackBody_def Let_def split: if_splits sum.splits)
  then show ?thesis
    using assms(2)
  proof (rule correct_feedback_txn_run)
    fix orig db1 db2
    let ?c = "correction_row cid orig ty now"
    assume orig: "orig \<in> set (feedbacks db)" "feedback_id orig = fid" "reversed_by_id orig = None"
      and db1: "db1 = db\<lparr>feedbacks := update_where (\<lambda>f. feedback_id f = fid) (\<lambda>f. f\<lparr>reversed_by_id := Some cid\<rparr>)
        (feedbacks db @ [?c])\<rparr>"
      and app: "(if ty \<noteq> None then applyFeedback ?c db1 else Inr db1) = Inr db2"
      and req: "request_update ''feedback_correction'' now (drop_review (feedback_type orig) (f_scene_id orig)
        (reverse_exclusion (f_scene_id orig) now db2)) = Inr db'"
    have fs: "feedbacks db' = feedbacks db1"
      using req app by (auto simp: request_update_def and_then_Inr_iff drop_review_effect reverse_exclusion_effect
          dest!: applyFeedback_effect(1) split: if_splits)
    let ?upd = "\<lambda>f. if feedback_id f = fid then f\<lparr>reversed_by_id := Some cid\<rparr> else f"
    have later: "later_row f (?upd f)" if "f \<in> set (feedbacks db)" for f
      using that orig assms(2) unique_key_inj [of feedback_id "feedbacks db" f orig]
      by (auto simp: later_row_def feedback_inv_def)
    have "?upd ` set (feedbacks db) \<subseteq> set (feedbacks db')"
      unfolding fs db1 by (auto simp: set_update_where)
    with later show "feedback_history db db'"
      unfolding feedback_history_def by (meson imageI subsetD)
  qed
qed

lemma page_effect_history: "page_effect db db' \<Longrightarrow> feedback_history db db'"
  by (simp add: page_effect_def feedback_history_subset)

interpretation feedback_run: transition_system empty_feedback_db feedback_step feedback_inv feedback_history
proof unfold_locales
  show "empty_feedback_db db \<Longrightarrow> feedback_inv db" for db
    by (simp add: empty_feedback_db_def feedback_inv_def unique_key_def excluded_def has_active_def in_review_def)
  show "feedback_inv db \<Longrightarrow> feedback_step db db' \<Longrightarrow> feedback_inv db'" for db db'
    by (rule feedback_step_inv)
  show "feedback_inv db \<Longrightarrow> feedback_step db db' \<Longrightarrow> feedback_history db db'" for db db'
    by (erule feedback_step_cases)
      (auto intro: page_effect_history correct_history page_effect_prune_tags page_effect_reconcile
        page_effect_frame page_effect_set_pruning feedback_history_subset
        simp: dismissPruneCandidate_def submit_history [THEN subsetD])
qed (auto intro: feedback_history_refl feedback_history_trans)

section \<open>Reconciling the prune tag\<close>







section \<open>Sending a batch again\<close>

interpretation feedback_store: retry_store submit_one
  "\<lambda>f db. \<not> feedback_check f \<or> feedback_id f \<in> feedback_id ` set (feedbacks db)"
proof unfold_locales
  fix f db n n' db'
  assume run: "submit_one f (n, db) = Inr (n', db')"
  have sub: "set (feedbacks db) \<subseteq> set (feedbacks db')"
    using submit_one_subset [OF run] by simp
  then show "\<not> feedback_check d \<or> feedback_id d \<in> feedback_id ` set (feedbacks db) \<Longrightarrow>
      \<not> feedback_check d \<or> feedback_id d \<in> feedback_id ` set (feedbacks db')" for d
    by blast
  show "\<not> feedback_check f \<or> feedback_id f \<in> feedback_id ` set (feedbacks db')"
    using run sub by (auto simp: submit_one_def insert_feedback_def and_then_Inr_iff
        dest!: applyFeedback_effect(1) split: if_splits option.splits)
qed (auto simp: submit_one_def insert_feedback_def)

lemma feedback_retry:
  assumes "submitFeedbackBody payload now db = (db', Inr n)"
  shows "submitFeedbackBody payload now' db' = (db', Inr 0)"
proof -
  let ?xs = "arr_of (jget (jget payload ''args'') ''entries'')"
  obtain fs m db1 where arr: "is_arr (jget (jget payload ''args'') ''entries'')"
      and items: "map_res normalizeFeedbackEntry ?xs = Inr fs"
      and loop: "fold_res submit_one fs (0, db) = Inr (m, db1)"
      and db': "db' = db1 \<or> (\<exists>u. db' = db1\<lparr>update_row := u\<rparr>)"
    using assms
    by (auto simp: submitFeedbackBody_def submit_feedback_txn_def request_update_def Let_def and_then_Inr_iff
        split: if_splits sum.splits prod.splits)
  have "fold_res submit_one fs (0, db') = Inr (0, db')"
    by (rule feedback_store.batch_retry [OF loop]) (use db' in auto)
  then show ?thesis
    using arr items by (simp add: submitFeedbackBody_def submit_feedback_txn_def)
qed

section \<open>Properties\<close>

text \<open>
  C15. Whatever feedback is submitted, corrected or retracted and whatever the pruning page does,
  in every reachable state a scene is excluded exactly while an uncorrected \<open>never_show\<close>
  of it exists, and a scene stands for review only while an uncorrected negative feedback exists.
\<close>

theorem exclusion_tracks_feedback:
  assumes "reachable empty_feedback_db feedback_step db"
  shows "(excluded db scene \<longleftrightarrow> has_active [''never_show''] db scene) \<and>
    (in_review db scene \<longrightarrow> has_active negative_types db scene)"
  using feedback_run.reachable_inv [OF assms] by (simp add: feedback_inv_def)

definition no_feedback :: feedback_db where
  "no_feedback = \<lparr>feedbacks = [], exclusions = [], prunings = [], impression_ids = [],
     library_scenes = [''7''], source_tags = [], scene_tags = [], update_row = initial_update_state\<rparr>"

definition never_show_7 :: feedback where
  "never_show_7 = \<lparr>feedback_id = ''a'', f_scene_id = ''7'', feedback_type = ''never_show'', f_value = None,
     f_occurred_at_ms = 5, reversed_by_id = None, f_impression_id = None, f_payload_json = ''{}''\<rparr>"

definition never_show_payload :: jVal where
  "never_show_payload = JObj [(''args'', JObj [(''entries'', JArr [JObj [
     (''feedback_id'', JStr ''a''), (''scene_id'', JStr ''7''), (''feedback_type'', JStr ''never_show''),
     (''occurred_at_ms'', jvInt 5)]])])]"

lemma never_show_normalized:
  "map_res normalizeFeedbackEntry (arr_of (jget (jget never_show_payload ''args'') ''entries'')) = Inr [never_show_7]"
  by (simp add: never_show_payload_def never_show_7_def normalizeFeedbackEntry_def pythonStrOrEmpty_def
      pythonIntErrOr_jvInt min_int64_def max_int64_def marshalSortedKeys_def bracketed_def jget_JObj feedbackTypes_def 
      marshalSortedKeys_def bracketed_def)

lemma submit_never_show:
  "fst (submitFeedbackBody never_show_payload 9 no_feedback) =
     no_feedback\<lparr>feedbacks := [never_show_7], exclusions := [never_show_row never_show_7],
       prunings := [review_row never_show_7 ''Never show''],
       update_row := initial_update_state\<lparr>requested_generation := 1, requested_at_ms := Some 9,
         last_cause := Some ''direct_feedback''\<rparr>\<rparr>"
    unfolding submitFeedbackBody_def never_show_normalized Let_def
    by (simp add: never_show_payload_def jget_JObj submit_feedback_txn_def submit_one_def insert_feedback_def
        no_feedback_def never_show_7_def feedback_check_def applyFeedback_def upsert_checked_def
        exclusion_check_def never_show_row_def upsert_row_def reopenPruning_def review_row_def
        pruning_check_def request_update_def coordinatorRequest_def initial_update_state_def)

theorem exclusion_tracks_feedback_witness:
  "excluded (fst (submitFeedbackBody never_show_payload 9 no_feedback)) ''7'' \<and>
   has_active [''never_show''] (fst (submitFeedbackBody never_show_payload 9 no_feedback)) ''7''"
proof -
  have "reachable empty_feedback_db feedback_step (fst (submitFeedbackBody never_show_payload 9 no_feedback))"
    by (rule reachable_step [OF reachable_init])
      (auto simp: empty_feedback_db_def no_feedback_def intro: submit surjective_pairing)
  from exclusion_tracks_feedback [OF this, of "''7''"] show ?thesis
    by (simp add: submit_never_show has_active_def active_feedback_def never_show_7_def)
qed





text \<open>
  A negative feedback that arrives late, with a time before the creation of the review row its
  scene already has, breaks the CHECK of \<open>pruning_candidate\<close>: the whole batch it heads is refused
  and nothing of it is stored.
\<close>

theorem late_feedback_refuses_batch:
  assumes "p \<in> set (prunings db)" "p_scene_id p = f_scene_id f" "f_occurred_at_ms f < p_created_at_ms p"
    and "feedback_type f \<in> set negative_types" "0 \<le> f_occurred_at_ms f" "f_impression_id f = None"
    and "feedback_id f \<notin> feedback_id ` set (feedbacks db)"
    and "map_res normalizeFeedbackEntry (arr_of (jget (jget payload ''args'') ''entries'')) = Inr (f # fs)"
  shows "fst (submitFeedbackBody payload now db) = db \<and> \<not> is_ok (snd (submitFeedbackBody payload now db))"
proof -
  have bad: "\<exists>x \<in> set (prunings db). p_scene_id x = f_scene_id f \<and> \<not> pruning_check (reopen_merge x (review_row f reason))"
    for reason
    using assms(1-3) by (intro bexI [of _ p]) (auto simp: pruning_check_def reopen_merge_def review_row_def)
  have re: "reopenPruning f reason d = Inl Check_Violation" if "prunings d = prunings db" for reason d
    using bad [of reason] that
    by (auto simp: reopenPruning_def upsert_checked_def list_all_iff review_row_def)
  have "\<exists>e. applyFeedback f (db\<lparr>feedbacks := feedbacks db @ [f]\<rparr>) = Inl e"
    using assms(4) re by (auto simp: applyFeedback_def negative_types_def and_then_Inl_iff sum.exhaust_sel
        upsert_checked_def split: if_splits)
  then have "\<exists>e. submit_feedback_txn (f # fs) now db = Inl e"
    using assms(5-7) by (auto simp: submit_feedback_txn_def submit_one_def insert_feedback_def feedback_check_def)
  with assms(8) show ?thesis
    by (auto simp: submitFeedbackBody_def Let_def split: if_splits)
qed

theorem late_feedback_refuses_batch_witness:
  "fst (submitFeedbackBody never_show_payload 20
     (no_feedback\<lparr>prunings := [\<lparr>p_scene_id = ''7'', p_state = Keep, p_created_at_ms = 6, p_updated_at_ms = 6, p_reason = None\<rparr>]\<rparr>)) =
   no_feedback\<lparr>prunings := [\<lparr>p_scene_id = ''7'', p_state = Keep, p_created_at_ms = 6, p_updated_at_ms = 6, p_reason = None\<rparr>]\<rparr>"
proof -
  let ?p = "\<lparr>p_scene_id = ''7'', p_state = Keep, p_created_at_ms = 6, p_updated_at_ms = 6, p_reason = None\<rparr>"
  show ?thesis
    using late_feedback_refuses_batch [of ?p "no_feedback\<lparr>prunings := [?p]\<rparr>" never_show_7 never_show_payload "[]" 20]
      never_show_normalized
    by (simp add: never_show_7_def negative_types_def no_feedback_def)
qed

end
