(* ===== verification/Tag_Preferences.thy ===== *)
theory Tag_Preferences
  imports Model_Updates Api_Args "HOL-Library.Product_Lexorder"
begin

text \<open>
  Tag sentiment: \<open>submitTagPreferencesBody\<close> of \<open>core/writes.go\<close>, with the append-only
  history of answers and the current answer of each tag.
\<close>

section \<open>Tables\<close>

record tag_answer =
  h_preference_id :: string
  h_tag_id :: string
  h_value :: "float64 option"
  h_blocked :: bool
  h_occurred_at_ms :: int
  h_replaced_by_id :: "string option"

record tag_preference =
  t_tag_id :: string
  t_preference_id :: string
  t_value :: float64
  t_blocked :: bool
  t_occurred_at_ms :: int

record tag_pref_db =
  pref_history :: "tag_answer list"
  tag_prefs :: "tag_preference list"
  known_tags :: "string list"
  role_tags :: "string list"
  pref_update :: model_update_state

definition tagSentimentValues :: "float64 list" where
  "tagSentimentValues = [Fin True 1, Fin True (3/4), Fin True (1/2), Fin False 0,
     Fin False (1/2), Fin False (3/4), Fin False 1]"

definition on_scale :: "float64 \<Rightarrow> bool" where
  "on_scale f \<longleftrightarrow> list_ex (float_eq f) tagSentimentValues"

definition blockedTagValue :: float64 where "blockedTagValue = Fin True 1"

definition answer_check :: "tag_answer \<Rightarrow> bool" where
  "answer_check h \<longleftrightarrow> (case h_value h of None \<Rightarrow> True | Some f \<Rightarrow> on_scale f) \<and> 0 \<le> h_occurred_at_ms h"

definition preference_check :: "tag_preference \<Rightarrow> bool" where
  "preference_check r \<longleftrightarrow> on_scale (t_value r) \<and> 0 \<le> t_occurred_at_ms r"

section \<open>Entries\<close>

record tagPreferenceEntry =
  e_preference_id :: string
  e_tag_id :: string
  e_value :: jVal
  e_blocked :: bool
  e_occurred_at_ms :: int

text \<open>\<open>None\<close> is an entry that is dropped: its tag has no role in the effective configuration.\<close>

definition normalizeTagPreferenceEntry :: "string list \<Rightarrow> jVal \<Rightarrow> tagPreferenceEntry option res" where
  "normalizeTagPreferenceEntry roles entry =
     (let pid = pythonStrOrEmpty (jget entry ''preference_id'');
          tag = pythonStrOrEmpty (jget entry ''tag_id'');
          occurred = pythonIntErrOr (jget entry ''occurred_at_ms'') (-1);
          blocked = truthy (jget entry ''blocked'');
          raw = jget entry ''value'';
          scaled = (if raw = JNull then Inr raw
            else if \<not> isJSONNumber raw then Inl (Msg ''tag sentiment must be numeric or null'')
            else case pythonFloat raw of (f, err) \<Rightarrow>
              if err \<noteq> None \<or> \<not> on_scale f
              then Inl (Msg ''tag sentiment must use the fixed seven-point scale'')
              else Inr (jvFloat f))
      in and_then scaled (\<lambda>v.
        let v' = (if blocked then jvFloat blockedTagValue else v) in
        if pid = [] \<or> tag = [] \<or> occurred < 0
        then Inl (Msg ''preference_id, tag_id, and occurred_at_ms are required'')
        else if tag \<notin> set roles then Inr None
        else Inr (Some \<lparr>e_preference_id = pid, e_tag_id = tag, e_value = v', e_blocked = blocked,
          e_occurred_at_ms = occurred\<rparr>)))"

section \<open>Submitting\<close>

definition value_arg :: "tagPreferenceEntry \<Rightarrow> float64 option" where
  "value_arg e = (if e_value e = JNull then None else Some (pythonFloatOr (e_value e) (Fin False 0)))"

definition answer_row :: "tagPreferenceEntry \<Rightarrow> tag_answer" where
  "answer_row e = \<lparr>h_preference_id = e_preference_id e, h_tag_id = e_tag_id e, h_value = value_arg e,
     h_blocked = e_blocked e, h_occurred_at_ms = e_occurred_at_ms e, h_replaced_by_id = None\<rparr>"

definition current_row :: "tagPreferenceEntry \<Rightarrow> float64 \<Rightarrow> tag_preference" where
  "current_row e f = \<lparr>t_tag_id = e_tag_id e, t_preference_id = e_preference_id e, t_value = f,
     t_blocked = e_blocked e, t_occurred_at_ms = e_occurred_at_ms e\<rparr>"

definition mark_replaced :: "string \<Rightarrow> string \<Rightarrow> tag_pref_db \<Rightarrow> tag_pref_db" where
  "mark_replaced old new db = db\<lparr>pref_history :=
     update_where (\<lambda>h. h_preference_id h = old) (\<lambda>h. h\<lparr>h_replaced_by_id := Some new\<rparr>) (pref_history db)\<rparr>"

text \<open>The answer becomes the current one of its tag; an answer without a value clears it.\<close>

definition install_answer :: "tagPreferenceEntry \<Rightarrow> tag_pref_db \<Rightarrow> tag_pref_db res" where
  "install_answer e db =
     (case value_arg e of
        None \<Rightarrow> Inr (db\<lparr>tag_prefs := delete_where (\<lambda>r. t_tag_id r = e_tag_id e) (tag_prefs db)\<rparr>)
      | Some f \<Rightarrow>
          if list_ex (\<lambda>r. t_preference_id r = e_preference_id e \<and> t_tag_id r \<noteq> e_tag_id e) (tag_prefs db)
          then Inl Unique_Violation
          else and_then (upsert_checked t_tag_id preference_check (\<lambda>old new. new) (current_row e f) (tag_prefs db))
            (\<lambda>rs. Inr (db\<lparr>tag_prefs := rs\<rparr>)))"

text \<open>The current answer is at least as recent; a tie goes to the greater id.\<close>

definition supersedes :: "tag_preference \<Rightarrow> tagPreferenceEntry \<Rightarrow> bool" where
  "supersedes c e \<longleftrightarrow> t_occurred_at_ms c > e_occurred_at_ms e \<or>
     (t_occurred_at_ms c = e_occurred_at_ms e \<and> t_preference_id c \<ge> e_preference_id e)"

definition submit_answer :: "tagPreferenceEntry \<Rightarrow> int \<times> tag_pref_db \<Rightarrow> (int \<times> tag_pref_db) res" where
  "submit_answer e = (\<lambda>(inserted, db).
     let current = lookup_row t_tag_id (e_tag_id e) (tag_prefs db); h = answer_row e in
     if \<not> answer_check h \<or> h_preference_id h \<in> set (map h_preference_id (pref_history db))
     then Inr (inserted, db)
     else if e_tag_id e \<notin> set (known_tags db) then Inl Foreign_Key_Violation
     else let db1 = db\<lparr>pref_history := pref_history db @ [h]\<rparr> in
       case current of
         Some c \<Rightarrow>
           if supersedes c e
           then Inr (inserted + 1, mark_replaced (e_preference_id e) (t_preference_id c) db1)
           else and_then (install_answer e (mark_replaced (t_preference_id c) (e_preference_id e) db1))
             (\<lambda>db2. Inr (inserted + 1, db2))
       | None \<Rightarrow> and_then (install_answer e db1) (\<lambda>db2. Inr (inserted + 1, db2)))"

definition submit_answers_txn :: "tagPreferenceEntry list \<Rightarrow> int \<Rightarrow> tag_pref_db \<Rightarrow> (int \<times> tag_pref_db) res" where
  "submit_answers_txn es now db =
     and_then (fold_res submit_answer es (0, db)) (\<lambda>(inserted, db').
       if inserted > 0
       then and_then (coordinatorRequest ''direct_tag_preference'' now (pref_update db'))
         (\<lambda>u. Inr (inserted, db'\<lparr>pref_update := u\<rparr>))
       else Inr (inserted, db'))"

definition submitTagPreferencesBody :: "jVal \<Rightarrow> int \<Rightarrow> tag_pref_db \<Rightarrow> tag_pref_db \<times> int res" where
  "submitTagPreferencesBody payload now db =
     (let entries = jget (jget payload ''args'') ''entries'' in
      if \<not> is_arr entries then (db, Inl (Msg ''entries must be a list''))
      else case map_res (normalizeTagPreferenceEntry (role_tags db)) (arr_of entries) of
        Inl e \<Rightarrow> (db, Inl e)
      | Inr items \<Rightarrow>
          (case submit_answers_txn (List.map_filter id items) now db of
             Inl e \<Rightarrow> (db, Inl e)
           | Inr (inserted, db') \<Rightarrow> (db', Inr inserted)))"

text \<open>A sync that drops a tag deletes its answers with it (ON DELETE CASCADE).\<close>

definition drop_tag :: "string \<Rightarrow> tag_pref_db \<Rightarrow> tag_pref_db" where
  "drop_tag tag db = db\<lparr>known_tags := filter (\<lambda>t. t \<noteq> tag) (known_tags db),
     pref_history := delete_where (\<lambda>h. h_tag_id h = tag) (pref_history db),
     tag_prefs := delete_where (\<lambda>r. t_tag_id r = tag) (tag_prefs db)\<rparr>"

inductive tag_pref_step :: "tag_pref_db \<Rightarrow> tag_pref_db \<Rightarrow> bool" where
  answers: "submitTagPreferencesBody payload now db = (db', r) \<Longrightarrow> tag_pref_step db db'"
| dropped: "tag_pref_step db (drop_tag tag db)"
| synced: "tag_pref_step db (db\<lparr>known_tags := known_tags db @ ts, role_tags := rs\<rparr>)"

section \<open>The contract\<close>

definition answer_key :: "tag_answer \<Rightarrow> int \<times> string" where
  "answer_key h = (h_occurred_at_ms h, h_preference_id h)"

definition current_key :: "tag_preference \<Rightarrow> int \<times> string" where
  "current_key r = (t_occurred_at_ms r, t_preference_id r)"

definition records :: "tag_answer \<Rightarrow> tag_preference \<Rightarrow> bool" where
  "records h r \<longleftrightarrow> h_preference_id h = t_preference_id r \<and> h_tag_id h = t_tag_id r \<and>
     h_value h = Some (t_value r) \<and> h_blocked h = t_blocked r \<and> h_occurred_at_ms h = t_occurred_at_ms r"

definition cleared :: "tag_pref_db \<Rightarrow> string \<Rightarrow> bool" where
  "cleared db tag \<longleftrightarrow> (\<exists>h \<in> set (pref_history db). h_tag_id h = tag \<and> h_value h = None)"

definition tag_pref_inv :: "tag_pref_db \<Rightarrow> bool" where
  "tag_pref_inv db \<longleftrightarrow>
     unique_key h_preference_id (pref_history db) \<and> unique_key t_tag_id (tag_prefs db) \<and>
     (\<forall>r \<in> set (tag_prefs db). preference_check r \<and> (\<exists>h \<in> set (pref_history db). records h r)) \<and>
     (\<forall>h \<in> set (pref_history db). \<not> cleared db (h_tag_id h) \<longrightarrow>
        (\<exists>r \<in> set (tag_prefs db). t_tag_id r = h_tag_id h \<and> answer_key h \<le> current_key r))"


lemma mark_replaced_frame [simp]:
  "tag_prefs (mark_replaced old new db) = tag_prefs db"
  "cleared (mark_replaced old new db) tag = cleared db tag"
  "unique_key h_preference_id (pref_history (mark_replaced old new db)) \<longleftrightarrow>
     unique_key h_preference_id (pref_history db)"
  "(\<exists>h \<in> set (pref_history (mark_replaced old new db)). records h r) \<longleftrightarrow> (\<exists>h \<in> set (pref_history db). records h r)"
  by (simp_all add: mark_replaced_def cleared_def bex_update_where records_def if_distrib
      unique_key_def keys_update_where cong: if_cong)

lemma mark_replaced_inv: "tag_pref_inv (mark_replaced old new db) = tag_pref_inv db"
proof -
  have "(\<forall>h \<in> set (pref_history (mark_replaced old new db)). \<not> cleared db (h_tag_id h) \<longrightarrow>
      (\<exists>r \<in> set (tag_prefs db). t_tag_id r = h_tag_id h \<and> answer_key h \<le> current_key r)) \<longleftrightarrow>
    (\<forall>h \<in> set (pref_history db). \<not> cleared db (h_tag_id h) \<longrightarrow>
      (\<exists>r \<in> set (tag_prefs db). t_tag_id r = h_tag_id h \<and> answer_key h \<le> current_key r))"
    by (auto simp: mark_replaced_def ball_update_where answer_key_def)
  then show ?thesis by (simp add: tag_pref_inv_def)
qed

lemma install_mark_commute:
  "install_answer e (mark_replaced old new db) = Inr db' \<longleftrightarrow>
     (\<exists>d. install_answer e db = Inr d \<and> db' = mark_replaced old new d)"
  by (auto simp: install_answer_def mark_replaced_def and_then_Inr_iff split: option.splits)

lemma answer_row_simps [simp]:
  "h_preference_id (answer_row e) = e_preference_id e" "h_tag_id (answer_row e) = e_tag_id e"
  "h_value (answer_row e) = value_arg e" "h_blocked (answer_row e) = e_blocked e"
  "h_occurred_at_ms (answer_row e) = e_occurred_at_ms e"
  by (simp_all add: answer_row_def)

lemma cleared_snoc [simp]:
  "cleared (db\<lparr>pref_history := pref_history db @ [h]\<rparr>) tag \<longleftrightarrow>
     cleared db tag \<or> (h_tag_id h = tag \<and> h_value h = None)"
  by (auto simp: cleared_def)

text \<open>A new answer becomes the current one of its tag.\<close>

lemma install_inv:
  assumes inv: "tag_pref_inv db" and fresh: "e_preference_id e \<notin> h_preference_id ` set (pref_history db)"
    and check: "0 \<le> e_occurred_at_ms e"
    and newest: "\<forall>c \<in> set (tag_prefs db). t_tag_id c = e_tag_id e \<longrightarrow> \<not> supersedes c e"
    and run: "install_answer e (db\<lparr>pref_history := pref_history db @ [answer_row e]\<rparr>) = Inr db'"
  shows "tag_pref_inv db'"
proof -
  let ?db1 = "db\<lparr>pref_history := pref_history db @ [answer_row e]\<rparr>"
  have old: "\<exists>r \<in> set (tag_prefs db). t_tag_id r = h_tag_id h \<and> answer_key h \<le> current_key r"
    if "h \<in> set (pref_history db)" "\<not> cleared db (h_tag_id h)" for h
    using inv that by (auto simp: tag_pref_inv_def)
  have less: "answer_key h \<le> (e_occurred_at_ms e, e_preference_id e)"
    if "answer_key h \<le> current_key r" "r \<in> set (tag_prefs db)" "t_tag_id r = e_tag_id e" for h r
  proof -
    have "current_key r \<le> (e_occurred_at_ms e, e_preference_id e)"
      using newest that(2,3) by (auto simp: supersedes_def current_key_def less_eq_prod_def)
    with that(1) show ?thesis by (rule order_trans)
  qed
  have uniq: "unique_key t_tag_id (tag_prefs db)" and recs: "\<forall>r \<in> set (tag_prefs db). preference_check r \<and>
      (\<exists>h \<in> set (pref_history db). records h r)"
    and uniqh: "unique_key h_preference_id (pref_history db @ [answer_row e])"
    using inv fresh by (auto simp: tag_pref_inv_def)
  show ?thesis
  proof (cases "value_arg e")
    case None
    then have db': "db' = ?db1\<lparr>tag_prefs := delete_where (\<lambda>r. t_tag_id r = e_tag_id e) (tag_prefs db)\<rparr>"
      using run by (simp add: install_answer_def)
    have "cleared db' tag \<longleftrightarrow> cleared db tag \<or> tag = e_tag_id e" for tag
      using None by (auto simp: db' cleared_def)
    moreover have "\<exists>r. r \<in> set (tag_prefs db) \<and> t_tag_id r \<noteq> e_tag_id e \<and> t_tag_id r = h_tag_id h \<and> answer_key h \<le> current_key r"
      if "h \<in> set (pref_history db)" "\<not> cleared db (h_tag_id h)" "h_tag_id h \<noteq> e_tag_id e" for h
      using old [OF that(1,2)] that(3) by auto
    ultimately show ?thesis
      using uniq uniqh recs unfolding tag_pref_inv_def
      by (auto simp: db' intro: unique_key_delete)
  next
    case (Some f)
    let ?r = "current_row e f"
    have ps: "db' = ?db1\<lparr>tag_prefs := upsert_row t_tag_id (\<lambda>old new. new) ?r (tag_prefs db)\<rparr>"
      and chk: "preference_check ?r"
      using run Some by (auto simp: install_answer_def and_then_Inr_iff upsert_checked_Inr split: if_splits)
    have tag: "t_tag_id ?r = e_tag_id e" "current_key ?r = (e_occurred_at_ms e, e_preference_id e)"
      by (simp_all add: current_row_def current_key_def)
    have set': "set (tag_prefs db') = insert ?r {r \<in> set (tag_prefs db). t_tag_id r \<noteq> e_tag_id e}"
      by (simp add: ps set_upsert_replace tag)
    have cl: "cleared db' t = cleared db t" for t
      using Some by (auto simp: ps cleared_def)
    have hist: "pref_history db' = pref_history db @ [answer_row e]"
      by (simp add: ps)
    have rec: "records (answer_row e) ?r"
      using Some by (simp add: records_def current_row_def)
    have up: "\<exists>r \<in> set (tag_prefs db'). t_tag_id r = h_tag_id h \<and> answer_key h \<le> current_key r"
      if "h \<in> set (pref_history db')" "\<not> cleared db' (h_tag_id h)" for h
    proof (cases "h = answer_row e")
      case True
      then show ?thesis by (simp add: set' tag answer_key_def)
    next
      case False
      with that have h: "h \<in> set (pref_history db)" "\<not> cleared db (h_tag_id h)"
        by (simp_all add: hist cl)
      then obtain r where r: "r \<in> set (tag_prefs db)" "t_tag_id r = h_tag_id h" "answer_key h \<le> current_key r"
        using old by blast
      show ?thesis
        using r less [OF r(3,1)] by (cases "t_tag_id r = e_tag_id e") (auto simp: set' tag)
    qed
    have "unique_key t_tag_id (tag_prefs db')"
      unfolding ps using uniq by (auto intro: unique_key_upsert)
    then show ?thesis
      using up uniqh recs chk rec unfolding tag_pref_inv_def by (auto simp: set' hist)
  qed
qed

lemma submit_answer_inv:
  assumes inv: "tag_pref_inv db" and run: "submit_answer e (n, db) = Inr (n', db')"
  shows "tag_pref_inv db'"
proof (cases "db' = db")
  case True
  with inv show ?thesis by simp
next
  case False
  let ?db1 = "db\<lparr>pref_history := pref_history db @ [answer_row e]\<rparr>"
  have uniq: "unique_key t_tag_id (tag_prefs db)"
    using inv by (simp add: tag_pref_inv_def)
  have new: "answer_check (answer_row e)" "e_preference_id e \<notin> h_preference_id ` set (pref_history db)"
    using run False by (auto simp: submit_answer_def Let_def split: if_splits)
  then have at: "0 \<le> e_occurred_at_ms e" by (simp add: answer_check_def)
  consider (behind) c where "lookup_row t_tag_id (e_tag_id e) (tag_prefs db) = Some c" "supersedes c e"
      "db' = mark_replaced (e_preference_id e) (t_preference_id c) ?db1"
    | (front) d where "\<forall>c \<in> set (tag_prefs db). t_tag_id c = e_tag_id e \<longrightarrow> \<not> supersedes c e"
      "install_answer e ?db1 = Inr d" "tag_pref_inv db' = tag_pref_inv d"
  proof (cases "lookup_row t_tag_id (e_tag_id e) (tag_prefs db)")
    case None
    then have "install_answer e ?db1 = Inr db'"
      using run new False by (auto simp: submit_answer_def Let_def and_then_Inr_iff split: if_splits)
    with None show ?thesis by (intro that(2)) (force simp: lookup_row_None)+
  next
    case (Some c)
    note c = lookup_row_Some [OF Some]
    show ?thesis
    proof (cases "supersedes c e")
      case True
      then show ?thesis
        using run new False Some by (intro that(1) [OF Some]) (auto simp: submit_answer_def Let_def split: if_splits)
    next
      case False
      then obtain d where "install_answer e ?db1 = Inr d"
          "db' = mark_replaced (t_preference_id c) (e_preference_id e) d"
        using run new \<open>db' \<noteq> db\<close> Some
        by (auto simp: submit_answer_def Let_def and_then_Inr_iff install_mark_commute split: if_splits)
      moreover have "\<forall>r \<in> set (tag_prefs db). t_tag_id r = e_tag_id e \<longrightarrow> \<not> supersedes r e"
        using False c unique_key_inj [OF uniq] by metis
      ultimately show ?thesis by (intro that(2)) (auto simp: mark_replaced_inv)
    qed
  qed
  then show ?thesis
  proof cases
    case behind
    note c = lookup_row_Some [OF behind(1)]
    have key: "answer_key (answer_row e) \<le> current_key c"
      using behind(2) by (auto simp: supersedes_def answer_key_def current_key_def less_eq_prod_def)
    have "tag_pref_inv ?db1"
      using inv new(2) c key unfolding tag_pref_inv_def by auto
    then show ?thesis by (simp add: behind(3) mark_replaced_inv)
  next
    case front
    with install_inv [OF inv new(2) at front(1,2)] show ?thesis by simp
  qed
qed


lemma answers_step_inv:
  assumes inv: "tag_pref_inv db" and run: "submitTagPreferencesBody payload now db = (db', r)"
  shows "tag_pref_inv db'"
proof (cases "db' = db")
  case True
  with inv show ?thesis by simp
next
  case False
  then obtain es n db1 where loop: "fold_res submit_answer es (0, db) = Inr (n, db1)"
      and same: "pref_history db' = pref_history db1" "tag_prefs db' = tag_prefs db1"
    using run
    by (auto simp: submitTagPreferencesBody_def submit_answers_txn_def Let_def and_then_Inr_iff
        split: if_splits sum.splits prod.splits)
  have "tag_pref_inv (snd (n, db1))"
    by (rule fold_res_invariant [OF loop]) (use inv submit_answer_inv in force)+
  then show ?thesis by (simp add: tag_pref_inv_def cleared_def same)
qed

lemma drop_tag_inv: "tag_pref_inv db \<Longrightarrow> tag_pref_inv (drop_tag tag db)"
  unfolding tag_pref_inv_def drop_tag_def cleared_def records_def
  by (auto intro!: unique_key_delete) metis+

lemma tag_pref_step_inv: "tag_pref_step db db' \<Longrightarrow> tag_pref_inv db \<Longrightarrow> tag_pref_inv db'"
proof (induction rule: tag_pref_step.induct)
  case (synced db ts rs)
  then show ?case by (simp add: tag_pref_inv_def cleared_def)
qed (auto intro: answers_step_inv drop_tag_inv)

definition no_answers :: "tag_pref_db \<Rightarrow> bool" where
  "no_answers db \<longleftrightarrow> pref_history db = [] \<and> tag_prefs db = []"

text \<open>A blocked tag carries the lowest sentiment, whatever value was sent.\<close>

definition blocked_inv :: "tag_pref_db \<Rightarrow> bool" where
  "blocked_inv db \<longleftrightarrow> (\<forall>h \<in> set (pref_history db). h_blocked h \<longrightarrow> h_value h = Some blockedTagValue)"

lemma normalize_blocked:
  assumes "normalizeTagPreferenceEntry roles x = Inr (Some e)"
  shows "e_blocked e \<longrightarrow> value_arg e = Some blockedTagValue"
proof -
  have "pythonFloatOr (jvFloat blockedTagValue) (Fin False 0) = blockedTagValue" by code_simp
  moreover have "jvFloat f \<noteq> JNull" for f by (simp add: jvFloat_def)
  ultimately show ?thesis
    using assms by (auto simp: normalizeTagPreferenceEntry_def Let_def and_then_Inr_iff value_arg_def
        split: if_splits prod.splits)
qed

lemma install_answer_history: "install_answer e db = Inr db' \<Longrightarrow> pref_history db' = pref_history db"
  by (auto simp: install_answer_def and_then_Inr_iff split: option.splits if_splits)

lemma blocked_inv_simps:
  "blocked_inv (mark_replaced old new db) \<longleftrightarrow> blocked_inv db"
  "blocked_inv (db\<lparr>pref_history := pref_history db @ [h]\<rparr>) \<longleftrightarrow>
     blocked_inv db \<and> (h_blocked h \<longrightarrow> h_value h = Some blockedTagValue)"
  "install_answer e db = Inr db' \<Longrightarrow> blocked_inv db' \<longleftrightarrow> blocked_inv db"
  by (auto simp: blocked_inv_def mark_replaced_def ball_update_where dest: install_answer_history)

lemma submit_answer_blocked:
  assumes "submit_answer e s = Inr s'" "blocked_inv (snd s)" "e_blocked e \<longrightarrow> value_arg e = Some blockedTagValue"
  shows "blocked_inv (snd s')"
  using assms
  by (cases s) (auto simp: submit_answer_def Let_def blocked_inv_simps(1,2) and_then_Inr_iff
      dest!: blocked_inv_simps(3) split: if_splits option.splits)

lemma answers_step_blocked:
  assumes "blocked_inv db" "submitTagPreferencesBody payload now db = (db', r)"
  shows "blocked_inv db'"
proof (cases "db' = db")
  case True
  with assms(1) show ?thesis by simp
next
  case False
  then obtain items n db1 where items: "map_res (normalizeTagPreferenceEntry (role_tags db))
        (arr_of (jget (jget payload ''args'') ''entries'')) = Inr items"
      and loop: "fold_res submit_answer (List.map_filter id items) (0, db) = Inr (n, db1)"
      and same: "pref_history db' = pref_history db1"
    using assms(2)
    by (auto simp: submitTagPreferencesBody_def submit_answers_txn_def Let_def and_then_Inr_iff
        split: if_splits sum.splits prod.splits)
  have "\<forall>x \<in> set items. \<forall>e. x = Some e \<longrightarrow> (e_blocked e \<longrightarrow> value_arg e = Some blockedTagValue)"
    by (rule map_res_all [OF items]) (use normalize_blocked in blast)
  then have good: "e_blocked e \<longrightarrow> value_arg e = Some blockedTagValue" if "e \<in> set (List.map_filter id items)" for e
    using that by (auto simp: map_filter_def)
  have "blocked_inv (snd (n, db1))"
    by (rule fold_res_invariant [OF loop]) (use assms(1) good submit_answer_blocked in force)+
  then show ?thesis by (simp add: blocked_inv_def same)
qed

lemma tag_pref_step_blocked: "tag_pref_step db db' \<Longrightarrow> blocked_inv db \<Longrightarrow> blocked_inv db'"
proof (induction rule: tag_pref_step.induct)
  case (answers payload now db db' r)
  then show ?case by (blast intro: answers_step_blocked)
qed (auto simp: blocked_inv_def drop_tag_def)

lemma no_answers_inv: "no_answers db \<Longrightarrow> tag_pref_inv db" "no_answers db \<Longrightarrow> blocked_inv db"
  by (simp_all add: no_answers_def tag_pref_inv_def blocked_inv_def unique_key_def)

interpretation tag_pref_run: transition_system no_answers tag_pref_step
  "\<lambda>db. tag_pref_inv db \<and> blocked_inv db" "\<lambda>_ _. True"
  by unfold_locales (auto intro: tag_pref_step_inv tag_pref_step_blocked no_answers_inv)

section \<open>Sending a batch again\<close>

lemma mark_replaced_ids:
  "h_preference_id ` set (pref_history (mark_replaced a b d)) = h_preference_id ` set (pref_history d)"
proof -
  have "map h_preference_id (pref_history (mark_replaced a b d)) = map h_preference_id (pref_history d)"
    unfolding mark_replaced_def by (simp add: keys_update_where)
  then show ?thesis by (metis list.set_map)
qed

lemma submit_answer_ids:
  assumes "submit_answer e (n, db) = Inr (n', db')"
  shows "h_preference_id ` set (pref_history db) \<subseteq> h_preference_id ` set (pref_history db') \<and>
    (answer_check (answer_row e) \<longrightarrow> e_preference_id e \<in> h_preference_id ` set (pref_history db')) \<and>
    role_tags db' = role_tags db"
proof -
  let ?db1 = "db\<lparr>pref_history := pref_history db @ [answer_row e]\<rparr>"
  have install: "pref_history d' = pref_history d \<and> role_tags d' = role_tags d" if "install_answer e d = Inr d'" for d d'
    using that by (auto simp: install_answer_def and_then_Inr_iff split: option.splits if_splits)
  have roles: "role_tags (mark_replaced a b d) = role_tags d" for a b d
    by (simp add: mark_replaced_def)
  consider "db' = db" "\<not> answer_check (answer_row e) \<or> e_preference_id e \<in> h_preference_id ` set (pref_history db)"
    | "h_preference_id ` set (pref_history db') = h_preference_id ` set (pref_history ?db1)" "role_tags db' = role_tags db"
    using assms by (auto simp: submit_answer_def Let_def and_then_Inr_iff mark_replaced_ids roles simp del: set_append
        dest!: install split: if_splits option.splits)
  then show ?thesis by cases auto
qed

interpretation tag_store: retry_store submit_answer
  "\<lambda>e db. \<not> answer_check (answer_row e) \<or> e_preference_id e \<in> h_preference_id ` set (pref_history db)"
proof unfold_locales
  fix e db n n' db'
  assume "submit_answer e (n, db) = Inr (n', db')"
  note ids = submit_answer_ids [OF this]
  show "\<not> answer_check (answer_row d) \<or> e_preference_id d \<in> h_preference_id ` set (pref_history db) \<Longrightarrow>
      \<not> answer_check (answer_row d) \<or> e_preference_id d \<in> h_preference_id ` set (pref_history db')" for d
    using ids by blast
  show "\<not> answer_check (answer_row e) \<or> e_preference_id e \<in> h_preference_id ` set (pref_history db')"
    using ids by blast
qed (auto simp: submit_answer_def Let_def)

lemma submit_answers_roles:
  assumes "fold_res submit_answer es s = Inr s'"
  shows "role_tags (snd s') = role_tags (snd s)"
proof (rule fold_res_invariant [OF assms, of "\<lambda>t. role_tags (snd t) = role_tags (snd s)"])
  fix e u t assume "role_tags (snd u) = role_tags (snd s)" "submit_answer e u = Inr t"
  then show "role_tags (snd t) = role_tags (snd s)"
    using submit_answer_ids [of e "fst u" "snd u" "fst t" "snd t"] by simp
qed simp

lemma tag_answers_retry:
  assumes "submitTagPreferencesBody payload now db = (db', Inr n)"
  shows "submitTagPreferencesBody payload now' db' = (db', Inr 0)"
proof -
  let ?xs = "arr_of (jget (jget payload ''args'') ''entries'')"
  obtain items m db1 where arr: "is_arr (jget (jget payload ''args'') ''entries'')"
      and items: "map_res (normalizeTagPreferenceEntry (role_tags db)) ?xs = Inr items"
      and loop: "fold_res submit_answer (List.map_filter id items) (0, db) = Inr (m, db1)"
      and db': "db' = db1 \<or> (\<exists>u. db' = db1\<lparr>pref_update := u\<rparr>)"
    using assms
    by (auto simp: submitTagPreferencesBody_def submit_answers_txn_def Let_def and_then_Inr_iff
        split: if_splits sum.splits prod.splits)
  have roles: "role_tags db' = role_tags db"
    using db' submit_answers_roles [OF loop] by auto
  have "fold_res submit_answer (List.map_filter id items) (0, db') = Inr (0, db')"
    by (rule tag_store.batch_retry [OF loop]) (use db' in auto)
  then show ?thesis
    using arr items roles by (simp add: submitTagPreferencesBody_def submit_answers_txn_def)
qed

section \<open>Properties\<close>

text \<open>The answers recorded for a tag, without the bookkeeping of what replaced them.\<close>

definition answers_of :: "string \<Rightarrow> tag_pref_db \<Rightarrow> (int \<times> string \<times> float64 option \<times> bool) set" where
  "answers_of tag db = (\<lambda>h. (h_occurred_at_ms h, h_preference_id h, h_value h, h_blocked h)) `
     {h \<in> set (pref_history db). h_tag_id h = tag}"

lemma current_is_greatest:
  assumes inv: "tag_pref_inv db" and nc: "\<not> cleared db tag" and r: "lookup_row t_tag_id tag (tag_prefs db) = Some r"
  shows "(t_occurred_at_ms r, t_preference_id r, Some (t_value r), t_blocked r) \<in> answers_of tag db"
    and "(ms, pid, v, b) \<in> answers_of tag db \<Longrightarrow> (ms, pid) \<le> current_key r"
proof -
  note r = lookup_row_Some [OF r]
  then obtain h where "h \<in> set (pref_history db)" "records h r"
    using inv by (auto simp: tag_pref_inv_def)
  with r show "(t_occurred_at_ms r, t_preference_id r, Some (t_value r), t_blocked r) \<in> answers_of tag db"
    by (auto simp: answers_of_def records_def image_iff intro!: exI [of _ h])
  show "(ms, pid) \<le> current_key r" if ans: "(ms, pid, v, b) \<in> answers_of tag db"
  proof -
    from ans obtain h' where h': "h' \<in> set (pref_history db)" "h_tag_id h' = tag" "answer_key h' = (ms, pid)"
      by (auto simp: answers_of_def answer_key_def)
    then obtain r' where "r' \<in> set (tag_prefs db)" "t_tag_id r' = tag" "(ms, pid) \<le> current_key r'"
      using inv nc by (force simp: tag_pref_inv_def)
    with r inv show ?thesis
      using unique_key_inj [of t_tag_id "tag_prefs db" r r'] by (auto simp: tag_pref_inv_def)
  qed
qed

lemma no_current_no_answers:
  assumes "tag_pref_inv db" "\<not> cleared db tag" "lookup_row t_tag_id tag (tag_prefs db) = None"
  shows "answers_of tag db = {}"
proof -
  have "h_tag_id h \<noteq> tag" if "h \<in> set (pref_history db)" for h
  proof
    assume tag: "h_tag_id h = tag"
    with assms(1,2) that obtain r where "r \<in> set (tag_prefs db)" "t_tag_id r = tag"
      unfolding tag_pref_inv_def by metis
    with assms(3) show False by (auto simp: lookup_row_None)
  qed
  then show ?thesis by (auto simp: answers_of_def)
qed

text \<open>
  C18. The answers of a tag converge: two reachable states that recorded the same answers for a
  tag, none of them a clear, agree on its current answer, in whatever order, batches and retries the
  answers arrived; it is the one with the greatest time, ties going to the greatest id.
\<close>

theorem tag_answers_converge:
  assumes "reachable no_answers tag_pref_step db" and "reachable no_answers tag_pref_step db'"
    and "answers_of tag db = answers_of tag db'" and "\<not> cleared db tag"
  shows "lookup_row t_tag_id tag (tag_prefs db) = lookup_row t_tag_id tag (tag_prefs db') \<and>
    (\<forall>r. lookup_row t_tag_id tag (tag_prefs db) = Some r \<longrightarrow>
      (t_occurred_at_ms r, t_preference_id r, Some (t_value r), t_blocked r) \<in> answers_of tag db \<and>
      (\<forall>(ms, pid, v, b) \<in> answers_of tag db. (ms, pid) \<le> current_key r))"
proof -
  have inv: "tag_pref_inv db" "tag_pref_inv db'"
    using assms(1,2) tag_pref_run.reachable_inv by blast+
  have "(\<exists>ms pid b. (ms, pid, None, b) \<in> answers_of tag db) \<longleftrightarrow> cleared db tag" for db
    by (force simp: answers_of_def cleared_def)
  then have nc: "\<not> cleared db' tag" using assms(3,4) by metis
  note greatest = current_is_greatest [OF inv(1) assms(4)]
  note greatest' = current_is_greatest [OF inv(2) nc, folded assms(3)]
  have "r = r'" if r: "lookup_row t_tag_id tag (tag_prefs db) = Some r" and
      r': "lookup_row t_tag_id tag (tag_prefs db') = Some r'" for r r'
  proof -
    have key: "current_key r = current_key r'"
      using greatest(2) [OF r greatest'(1) [OF r']] greatest'(2) [OF r' greatest(1) [OF r]]
      by (auto simp: current_key_def)
    obtain h h' where h: "h \<in> set (pref_history db)" "h_preference_id h = t_preference_id r"
        "h_value h = Some (t_value r)" "h_blocked h = t_blocked r"
      and h': "h' \<in> set (pref_history db)" "h_preference_id h' = t_preference_id r'"
        "h_value h' = Some (t_value r')" "h_blocked h' = t_blocked r'"
      using greatest(1) [OF r] greatest'(1) [OF r'] by (auto simp: answers_of_def)
    have "h = h'"
      using inv(1) key h h' unique_key_inj [of h_preference_id "pref_history db" h h']
      by (simp add: tag_pref_inv_def current_key_def)
    with key h h' lookup_row_Some [OF r] lookup_row_Some [OF r'] show ?thesis
      by (simp add: current_key_def)
  qed
  moreover have "lookup_row t_tag_id tag (tag_prefs db) = None \<longleftrightarrow> lookup_row t_tag_id tag (tag_prefs db') = None"
    using greatest(1) greatest'(1) no_current_no_answers [OF inv(1) assms(4)]
      no_current_no_answers [OF inv(2) nc] assms(3) by (metis empty_iff not_None_eq)
  ultimately show ?thesis
    using greatest by (cases "lookup_row t_tag_id tag (tag_prefs db)") auto
qed


definition no_tag_answers :: tag_pref_db where
  "no_tag_answers = \<lparr>pref_history = [], tag_prefs = [], known_tags = [''9''], role_tags = [''9''],
     pref_update = initial_update_state\<rparr>"

definition tag_entry :: "string \<Rightarrow> jVal \<Rightarrow> int \<Rightarrow> jVal" where
  "tag_entry pid v ms = JObj [(''preference_id'', JStr pid), (''tag_id'', JStr ''9''), (''value'', v),
     (''blocked'', JBool False), (''occurred_at_ms'', jvInt ms)]"

definition entries_payload :: "jVal list \<Rightarrow> jVal" where
  "entries_payload es = JObj [(''args'', JObj [(''entries'', JArr es)])]"

definition entry_half :: "string \<Rightarrow> int \<Rightarrow> tagPreferenceEntry" where
  "entry_half pid ms = \<lparr>e_preference_id = pid, e_tag_id = ''9'', e_value = jvFloat (Fin False (1/2)),
     e_blocked = False, e_occurred_at_ms = ms\<rparr>"

lemma half_value: "pythonFloatOr (jvFloat (Fin False (1/2))) (Fin False 0) = Fin False (1/2)" by code_simp
lemma half_on_scale: "on_scale (Fin False (1/2))" by code_simp

lemma entry_half_normalized:
  "0 \<le> ms \<Longrightarrow> ms \<le> max_int64 \<Longrightarrow> pid \<noteq> [] \<Longrightarrow>
   normalizeTagPreferenceEntry [''9''] (tag_entry pid (JNum ''0.5'') ms) = Inr (Some (entry_half pid ms))"
  using half_literal half_on_scale
  by (simp add: normalizeTagPreferenceEntry_def tag_entry_def entry_half_def pythonStrOrEmpty_def jget_JObj
      pythonIntErrOr_jvInt min_int64_def del: pythonFloat.simps)

lemma value_half: "value_arg (entry_half pid ms) = Some (Fin False (1/2))"
  using half_value by (simp add: value_arg_def entry_half_def jvFloat_def)

lemma submit_half:
  assumes "0 \<le> ms" "ms \<le> max_int64" "pid \<noteq> []"
  shows "\<exists>db. submitTagPreferencesBody (entries_payload [tag_entry pid (JNum ''0.5'') ms]) 30 no_tag_answers = (db, Inr 1) \<and>
    pref_history db = [answer_row (entry_half pid ms)] \<and> tag_prefs db = [current_row (entry_half pid ms) (Fin False (1/2))]"
  using assms entry_half_normalized [OF assms] half_on_scale
  by (simp add: submitTagPreferencesBody_def entries_payload_def jget_JObj no_tag_answers_def map_filter_def
      submit_answers_txn_def submit_answer_def lookup_row_def answer_check_def value_half install_answer_def
      upsert_checked_def upsert_row_def preference_check_def coordinatorRequest_def Let_def)
    (simp add: current_row_def entry_half_def)


lemma half_reachable:
  assumes "0 \<le> ms" "ms \<le> max_int64" "pid \<noteq> []"
  obtains db where "reachable no_answers tag_pref_step db"
    "pref_history db = [answer_row (entry_half pid ms)]"
    "tag_prefs db = [current_row (entry_half pid ms) (Fin False (1/2))]"
proof -
  obtain db where db: "submitTagPreferencesBody (entries_payload [tag_entry pid (JNum ''0.5'') ms]) 30 no_tag_answers = (db, Inr 1)"
      "pref_history db = [answer_row (entry_half pid ms)]"
      "tag_prefs db = [current_row (entry_half pid ms) (Fin False (1/2))]"
    using submit_half [OF assms] by blast
  have "reachable no_answers tag_pref_step db"
    using reachable_step [of no_answers tag_pref_step no_tag_answers db] answers [OF db(1)]
      reachable_init [of no_answers no_tag_answers tag_pref_step]
    by (simp add: no_answers_def no_tag_answers_def)
  with db that show ?thesis by blast
qed

theorem tag_answers_converge_witness:
  "\<exists>db. reachable no_answers tag_pref_step db \<and> \<not> cleared db ''9'' \<and>
     (\<exists>r. lookup_row t_tag_id ''9'' (tag_prefs db) = Some r \<and> (10, ''p'', Some (t_value r), t_blocked r) \<in> answers_of ''9'' db)"
proof -
  obtain db where db: "reachable no_answers tag_pref_step db" "pref_history db = [answer_row (entry_half ''p'' 10)]"
      "tag_prefs db = [current_row (entry_half ''p'' 10) (Fin False (1/2))]"
    by (rule half_reachable [of 10 "''p''"]) (simp_all add: max_int64_def)
  have nc: "\<not> cleared db ''9''"
    using db(2) by (simp add: cleared_def value_half)
  have r: "lookup_row t_tag_id ''9'' (tag_prefs db) = Some (current_row (entry_half ''p'' 10) (Fin False (1/2)))"
    using db(3) by (simp add: lookup_row_def current_row_def entry_half_def)
  show ?thesis
    using tag_answers_converge [OF db(1) db(1) refl nc] r db(1) nc
    by (auto simp: current_row_def entry_half_def)
qed

text \<open>
  C19. In every reachable state the current sentiment of a tag is one of the seven steps, hence
  between -1 and 1, and a blocked tag has exactly the sentiment -1.
\<close>

theorem tag_sentiment_bounds:
  assumes "reachable no_answers tag_pref_step db" and "r \<in> set (tag_prefs db)"
  shows "on_scale (t_value r) \<and> -1 \<le> float_val (t_value r) \<and> float_val (t_value r) \<le> 1 \<and>
    (t_blocked r \<longrightarrow> t_value r = blockedTagValue)"
proof -
  have inv: "tag_pref_inv db" "blocked_inv db"
    using tag_pref_run.reachable_inv [OF assms(1)] by simp_all
  then have scale: "on_scale (t_value r)"
    using assms(2) by (auto simp: tag_pref_inv_def preference_check_def)
  obtain h where h: "h \<in> set (pref_history db)" "records h r"
    using inv(1) assms(2) by (auto simp: tag_pref_inv_def)
  have "-1 \<le> float_val f \<and> float_val f \<le> 1" if "on_scale f" for f
    using that by (cases f) (auto simp: on_scale_def tagSentimentValues_def split: if_splits)
  with scale h inv(2) show ?thesis by (auto simp: blocked_inv_def records_def)
qed

theorem tag_sentiment_bounds_witness:
  "\<exists>db r. reachable no_answers tag_pref_step db \<and> r \<in> set (tag_prefs db) \<and> float_val (t_value r) \<le> 1"
proof -
  obtain db where db: "reachable no_answers tag_pref_step db"
      "tag_prefs db = [current_row (entry_half ''p'' 10) (Fin False (1/2))]"
    by (rule half_reachable [of 10 "''p''"]) (simp_all add: max_int64_def)
  then show ?thesis using tag_sentiment_bounds [OF db(1)] by (intro exI) auto
qed

text \<open>
  An answer of a tag without a current answer is installed, even when it is older than the
  answer that cleared the tag: after a clear the order of arrival decides, not the time.
\<close>

theorem stale_answer_after_clear:
  assumes "h \<in> set (pref_history db)" "h_tag_id h = e_tag_id e" "h_value h = None"
    and "e_occurred_at_ms e < h_occurred_at_ms h" and "reachable no_answers tag_pref_step db"
    and "lookup_row t_tag_id (e_tag_id e) (tag_prefs db) = None"
    and "value_arg e = Some f" "on_scale f" "0 \<le> e_occurred_at_ms e" "e_tag_id e \<in> set (known_tags db)"
    and "e_preference_id e \<notin> h_preference_id ` set (pref_history db)"
  shows "\<exists>db'. submit_answer e (n, db) = Inr (n + 1, db') \<and>
    lookup_row t_tag_id (e_tag_id e) (tag_prefs db') = Some (current_row e f)"
proof -
  have inv: "tag_pref_inv db"
    using tag_pref_run.reachable_inv [OF assms(5)] by simp
  have "\<not> list_ex (\<lambda>r. t_preference_id r = e_preference_id e \<and> t_tag_id r \<noteq> e_tag_id e) (tag_prefs db)"
    using inv assms(11) by (force simp: list_ex_iff tag_pref_inv_def records_def)
  then show ?thesis
    using assms(6-11)
    by (auto simp: submit_answer_def Let_def answer_check_def install_answer_def upsert_checked_def
        preference_check_def list_all_iff current_row_def lookup_upsert)
qed


definition clear_entry :: tagPreferenceEntry where
  "clear_entry = \<lparr>e_preference_id = ''q'', e_tag_id = ''9'', e_value = JNull, e_blocked = False, e_occurred_at_ms = 20\<rparr>"

lemma cleared_reachable:
  obtains db where "reachable no_answers tag_pref_step db" "pref_history db = [answer_row clear_entry]"
    "tag_prefs db = []" "known_tags db = [''9'']"
proof -
  have norm: "normalizeTagPreferenceEntry [''9''] (tag_entry ''q'' JNull 20) = Inr (Some clear_entry)"
    by (simp add: normalizeTagPreferenceEntry_def tag_entry_def clear_entry_def pythonStrOrEmpty_def jget_JObj
        pythonIntErrOr_jvInt min_int64_def max_int64_def)
  obtain db where db: "submitTagPreferencesBody (entries_payload [tag_entry ''q'' JNull 20]) 30 no_tag_answers = (db, Inr 1)"
      "pref_history db = [answer_row clear_entry]" "tag_prefs db = []" "known_tags db = [''9'']"
    using norm
    by (simp add: submitTagPreferencesBody_def entries_payload_def jget_JObj no_tag_answers_def map_filter_def
        submit_answers_txn_def submit_answer_def lookup_row_def answer_check_def value_arg_def install_answer_def
        coordinatorRequest_def Let_def delete_where_def clear_entry_def)
  have "reachable no_answers tag_pref_step db"
    using reachable_step [of no_answers tag_pref_step no_tag_answers db] answers [OF db(1)]
      reachable_init [of no_answers no_tag_answers tag_pref_step]
    by (simp add: no_answers_def no_tag_answers_def)
  with db that show ?thesis by blast
qed

theorem stale_answer_after_clear_witness:
  "\<exists>db db'. reachable no_answers tag_pref_step db \<and> cleared db ''9'' \<and>
     submit_answer (entry_half ''p'' 5) (0, db) = Inr (1, db') \<and>
     lookup_row t_tag_id ''9'' (tag_prefs db') = Some (current_row (entry_half ''p'' 5) (Fin False (1/2)))"
proof -
  obtain db where db: "reachable no_answers tag_pref_step db" "pref_history db = [answer_row clear_entry]"
      "tag_prefs db = []" "known_tags db = [''9'']"
    by (rule cleared_reachable)
  have hyps: "answer_row clear_entry \<in> set (pref_history db)" "e_tag_id (entry_half ''p'' 5) = ''9''"
    "e_occurred_at_ms (entry_half ''p'' 5) = 5" "h_value (answer_row clear_entry) = None"
    "h_tag_id (answer_row clear_entry) = ''9''" "h_occurred_at_ms (answer_row clear_entry) = 20"
    "e_preference_id (entry_half ''p'' 5) \<noteq> e_preference_id clear_entry"
    "lookup_row t_tag_id ''9'' (tag_prefs db) = None"
    by (simp_all add: db entry_half_def clear_entry_def value_arg_def lookup_row_def)
  show ?thesis
    using stale_answer_after_clear [of "answer_row clear_entry" db "entry_half ''p'' 5" "Fin False (1/2)" 0]
      hyps db value_half half_on_scale by (auto simp: cleared_def)
qed

end
