(* ===== verification/Scene_Reasons.thy ===== *)
theory Scene_Reasons
  imports Model_Updates Api_Args
begin

text \<open>
  The "Why these?" answers: \<open>submitSceneReasonsBody\<close> of \<open>core/writes.go\<close> for library
  scenes and \<open>submitExternalSceneReasonsBody\<close> of \<open>core/external_dismissal.go\<close> for StashDB
  scenes, with the two pairs of tables they keep.
\<close>

section \<open>Tables\<close>

record reason_answer =
  answer_id :: string
  a_scene_id :: string
  polarity :: int
  flipped :: bool
  flip_strength :: string
  a_occurred_at_ms :: int

text \<open>\<open>ext_answers\<close> holds the external id in \<open>a_scene_id\<close>; its table has no flips.\<close>

record reason_db =
  answers :: "reason_answer list"
  reasons :: "(string \<times> string \<times> string) list"
  ext_answers :: "reason_answer list"
  ext_reasons :: "(string \<times> string \<times> string) list"
  reason_scenes :: "string list"
  reason_update :: model_update_state

definition sceneReasonSubjects :: "string list" where
  "sceneReasonSubjects = [''performer'', ''tag'', ''studio'', ''missing_tag'', ''scene'']"

definition externalSceneReasonSubjects :: "string list" where
  "externalSceneReasonSubjects = [''performer'', ''tag'', ''studio'']"

definition sceneReasonLimit :: nat where "sceneReasonLimit = 20"

definition reason_answer_check :: "reason_answer \<Rightarrow> bool" where
  "reason_answer_check a \<longleftrightarrow> polarity a \<in> {-1, 1} \<and> 0 \<le> a_occurred_at_ms a \<and>
     flip_strength a \<in> {''mild'', ''strong''}"

text \<open>The CHECK constraints of the reason rows.\<close>

definition reason_check :: "string \<times> string \<times> string \<Rightarrow> bool" where
  "reason_check r \<longleftrightarrow> fst (snd r) \<in> set sceneReasonSubjects"

definition ext_reason_check :: "string \<times> string \<times> string \<Rightarrow> bool" where
  "ext_reason_check r \<longleftrightarrow> fst (snd r) \<in> set externalSceneReasonSubjects \<and> snd (snd r) \<noteq> []"

section \<open>Entries\<close>

record sceneReasonEntry =
  r_answer :: reason_answer
  r_reasons :: "(string \<times> string) list"

definition normalize_subject :: "string list \<Rightarrow> bool \<Rightarrow> jVal \<Rightarrow> (string \<times> string) res" where
  "normalize_subject subjects scene_allowed reason =
     (let kind = pythonStrOrEmpty (jget reason ''subject_type'');
          subject = pythonStrOrEmpty (jget reason ''subject_id'')
      in if \<not> is_obj reason then Inl (Msg ''each reason must be an object'')
         else if kind \<notin> set subjects then Inl (Msg (''unsupported reason subject: '' @ kind))
         else if scene_allowed \<and> kind = ''scene'' then Inr (kind, [])
         else if subject = [] then Inl (Msg ''reason subject_id is required'')
         else Inr (kind, subject))"

definition polarity_ok :: "jVal \<Rightarrow> bool" where
  "polarity_ok v \<longleftrightarrow> isJSONInt v \<and> (v = JNum ''1'' \<or> v = JNum ''-1'')"

text \<open>\<open>None\<close> is an answer that is dropped: its scene is no longer in the library.\<close>

definition normalizeSceneReasonEntry :: "string list \<Rightarrow> jVal \<Rightarrow> sceneReasonEntry option res" where
  "normalizeSceneReasonEntry scenes entry =
     (let aid = pythonStrOrEmpty (jget entry ''answer_id'');
          scene = pythonStrOrEmpty (jget entry ''scene_id'');
          occurred = pythonIntErrOr (jget entry ''occurred_at_ms'') (-1);
          pol = jget entry ''polarity''; rs = jget entry ''reasons'';
          flip = truthy (jget entry ''flipped'');
          strength = argsString entry ''flip_strength'' ''mild''
      in if aid = [] \<or> scene = [] \<or> occurred < 0
         then Inl (Msg ''answer_id, scene_id, and occurred_at_ms are required'')
         else if \<not> polarity_ok pol then Inl (Msg ''polarity must be 1 or -1'')
         else if \<not> is_arr rs \<or> length (arr_of rs) > sceneReasonLimit
         then Inl (Msg ''reasons must be a list of at most 20 items'')
         else and_then (map_res (normalize_subject sceneReasonSubjects True) (arr_of rs)) (\<lambda>subjects.
           if strength \<notin> {''mild'', ''strong''} then Inl (Msg ''flip_strength must be mild or strong'')
           else if subjects = [] \<and> \<not> flip then Inl (Msg ''an answer needs a reason or a flip'')
           else if scene \<notin> set scenes then Inr None
           else Inr (Some \<lparr>r_answer = \<lparr>answer_id = aid, a_scene_id = scene,
               polarity = (if pol = JNum ''-1'' then -1 else 1), flipped = flip, flip_strength = strength,
               a_occurred_at_ms = occurred\<rparr>, r_reasons = subjects\<rparr>)))"

definition normalizeExternalSceneReasonEntry :: "jVal \<Rightarrow> sceneReasonEntry res" where
  "normalizeExternalSceneReasonEntry entry =
     (let aid = pythonStrOrEmpty (jget entry ''answer_id'');
          ext = pythonStrOrEmpty (jget entry ''external_id'');
          occurred = pythonIntErrOr (jget entry ''occurred_at_ms'') (-1);
          pol = jget entry ''polarity''; rs = jget entry ''reasons''
      in if aid = [] \<or> ext = [] \<or> occurred < 0
         then Inl (Msg ''answer_id, external_id, and occurred_at_ms are required'')
         else if \<not> polarity_ok pol then Inl (Msg ''polarity must be 1 or -1'')
         else if \<not> is_arr rs \<or> arr_of rs = [] \<or> length (arr_of rs) > sceneReasonLimit
         then Inl (Msg ''reasons must be a list of 1 to 20 items'')
         else and_then (map_res (normalize_subject externalSceneReasonSubjects False) (arr_of rs)) (\<lambda>subjects.
           Inr \<lparr>r_answer = \<lparr>answer_id = aid, a_scene_id = ext,
               polarity = (if pol = JNum ''-1'' then -1 else 1), flipped = False, flip_strength = ''mild'',
               a_occurred_at_ms = occurred\<rparr>, r_reasons = subjects\<rparr>))"

section \<open>Submitting\<close>

text \<open>The rows of one answer; OR IGNORE drops a repeated reason.\<close>

definition insert_reasons ::
    "(string \<times> string \<times> string \<Rightarrow> bool) \<Rightarrow> string \<Rightarrow> (string \<times> string) list \<Rightarrow>
     (string \<times> string \<times> string) list \<Rightarrow> (string \<times> string \<times> string) list" where
  "insert_reasons check aid rs rows =
     fold (\<lambda>(kind, subject). insert_or_ignore (\<lambda>r. r) check (aid, kind, subject)) rs rows"

definition submit_reason :: "sceneReasonEntry \<Rightarrow> int \<times> reason_db \<Rightarrow> (int \<times> reason_db) res" where
  "submit_reason e = (\<lambda>(inserted, db).
     let a = r_answer e in
     if \<not> reason_answer_check a \<or> answer_id a \<in> set (map answer_id (answers db)) then Inr (inserted, db)
     else if a_scene_id a \<notin> set (reason_scenes db) then Inl Foreign_Key_Violation
     else Inr (inserted + 1, db\<lparr>answers := answers db @ [a],
       reasons := insert_reasons reason_check (answer_id a) (r_reasons e) (reasons db)\<rparr>))"

definition submit_ext_reason :: "sceneReasonEntry \<Rightarrow> int \<times> reason_db \<Rightarrow> (int \<times> reason_db) res" where
  "submit_ext_reason e = (\<lambda>(inserted, db).
     let a = r_answer e in
     if \<not> reason_answer_check a \<or> answer_id a \<in> set (map answer_id (ext_answers db)) then Inr (inserted, db)
     else Inr (inserted + 1, db\<lparr>ext_answers := ext_answers db @ [a],
       ext_reasons := insert_reasons ext_reason_check (answer_id a) (r_reasons e) (ext_reasons db)\<rparr>))"

definition submit_reasons_txn ::
    "(sceneReasonEntry \<Rightarrow> int \<times> reason_db \<Rightarrow> (int \<times> reason_db) res) \<Rightarrow>
     sceneReasonEntry list \<Rightarrow> int \<Rightarrow> reason_db \<Rightarrow> (int \<times> reason_db) res" where
  "submit_reasons_txn submit es now db =
     and_then (fold_res submit es (0, db)) (\<lambda>(inserted, db').
       if inserted > 0
       then and_then (coordinatorRequest ''scene_reason'' now (reason_update db'))
         (\<lambda>u. Inr (inserted, db'\<lparr>reason_update := u\<rparr>))
       else Inr (inserted, db'))"

definition submitSceneReasonsBody :: "jVal \<Rightarrow> int \<Rightarrow> reason_db \<Rightarrow> reason_db \<times> int res" where
  "submitSceneReasonsBody payload now db =
     (let entries = jget (jget payload ''args'') ''entries'' in
      if \<not> is_arr entries then (db, Inl (Msg ''entries must be a list''))
      else case map_res (normalizeSceneReasonEntry (reason_scenes db)) (arr_of entries) of
        Inl e \<Rightarrow> (db, Inl e)
      | Inr items \<Rightarrow>
          (case submit_reasons_txn submit_reason (List.map_filter id items) now db of
             Inl e \<Rightarrow> (db, Inl e)
           | Inr (inserted, db') \<Rightarrow> (db', Inr inserted)))"

definition submitExternalSceneReasonsBody :: "jVal \<Rightarrow> int \<Rightarrow> reason_db \<Rightarrow> reason_db \<times> int res" where
  "submitExternalSceneReasonsBody payload now db =
     (let entries = jget (jget payload ''args'') ''entries'' in
      if \<not> is_arr entries then (db, Inl (Msg ''entries must be a list''))
      else case map_res normalizeExternalSceneReasonEntry (arr_of entries) of
        Inl e \<Rightarrow> (db, Inl e)
      | Inr items \<Rightarrow>
          (case submit_reasons_txn submit_ext_reason items now db of
             Inl e \<Rightarrow> (db, Inl e)
           | Inr (inserted, db') \<Rightarrow> (db', Inr inserted)))"

text \<open>A sync that drops a scene deletes its answers and their reasons (ON DELETE CASCADE).\<close>

definition drop_scene :: "string \<Rightarrow> reason_db \<Rightarrow> reason_db" where
  "drop_scene scene db =
     (let gone = map answer_id (filter (\<lambda>a. a_scene_id a = scene) (answers db))
      in db\<lparr>reason_scenes := filter (\<lambda>s. s \<noteq> scene) (reason_scenes db),
        answers := delete_where (\<lambda>a. a_scene_id a = scene) (answers db),
        reasons := delete_where (\<lambda>r. fst r \<in> set gone) (reasons db)\<rparr>)"

inductive reason_step :: "reason_db \<Rightarrow> reason_db \<Rightarrow> bool" where
  library: "submitSceneReasonsBody payload now db = (db', r) \<Longrightarrow> reason_step db db'"
| external: "submitExternalSceneReasonsBody payload now db = (db', r) \<Longrightarrow> reason_step db db'"
| removed: "reason_step db (drop_scene scene db)"
| added: "reason_step db (db\<lparr>reason_scenes := reason_scenes db @ ss\<rparr>)"


section \<open>The contract\<close>

definition answer_store_typed ::
    "string list \<Rightarrow> reason_answer list \<Rightarrow> (string \<times> string \<times> string) list \<Rightarrow> bool" where
  "answer_store_typed subjects as rs \<longleftrightarrow>
     unique_key answer_id as \<and>
     (\<forall>a \<in> set as. reason_answer_check a \<and> (flipped a \<or> (\<exists>r \<in> set rs. fst r = answer_id a)) \<and>
        length (filter (\<lambda>r. fst r = answer_id a) rs) \<le> sceneReasonLimit) \<and>
     (\<forall>(aid, kind, subject) \<in> set rs. aid \<in> answer_id ` set as \<and> kind \<in> set subjects \<and>
        (kind = ''scene'' \<longleftrightarrow> subject = []))"

definition reason_inv :: "reason_db \<Rightarrow> bool" where
  "reason_inv db \<longleftrightarrow>
     answer_store_typed sceneReasonSubjects (answers db) (reasons db) \<and>
     answer_store_typed externalSceneReasonSubjects (ext_answers db) (ext_reasons db)"

definition typed_entry :: "string list \<Rightarrow> sceneReasonEntry \<Rightarrow> bool" where
  "typed_entry subjects e \<longleftrightarrow> reason_answer_check (r_answer e) \<and>
     (flipped (r_answer e) \<or> r_reasons e \<noteq> []) \<and> length (r_reasons e) \<le> sceneReasonLimit \<and>
     (\<forall>(kind, subject) \<in> set (r_reasons e). kind \<in> set subjects \<and> (kind = ''scene'' \<longleftrightarrow> subject = []))"

lemma normalize_subjects_typed:
  assumes "map_res (normalize_subject subjects sa) xs = Inr ys" "sa \<or> ''scene'' \<notin> set subjects"
  shows "length ys = length xs \<and> (\<forall>(kind, subject) \<in> set ys. kind \<in> set subjects \<and> (kind = ''scene'' \<longleftrightarrow> subject = []))"
proof -
  have "\<forall>y \<in> set ys. fst y \<in> set subjects \<and> (fst y = ''scene'' \<longleftrightarrow> snd y = [])"
    by (rule map_res_all [OF assms(1)]) (use assms(2) in \<open>auto simp: normalize_subject_def Let_def split: if_splits\<close>)
  with map_res_Inr [OF assms(1)] show ?thesis by auto
qed

lemma normalizeSceneReasonEntry_typed:
  assumes "normalizeSceneReasonEntry scenes x = Inr (Some e)"
  shows "typed_entry sceneReasonSubjects e"
  using assms unfolding normalizeSceneReasonEntry_def Let_def and_then_Inr_iff guard_Inr guard_dropped
proof (elim conjE exE, goal_cases)
  case (1 subjects)
  have a: "\<not> argsString x ''flip_strength'' ''mild'' \<notin> {''mild'', ''strong''}" by fact
  have b: "\<not> (subjects = [] \<and> \<not> truthy (jget x ''flipped''))" by fact
  have m: "map_res (normalize_subject sceneReasonSubjects True) (arr_of (jget x ''reasons'')) = Inr subjects" by fact
  have r: "\<not> (\<not> is_arr (jget x ''reasons'') \<or> sceneReasonLimit < length (arr_of (jget x ''reasons'')))" by fact
  have g: "\<not> (pythonStrOrEmpty (jget x ''answer_id'') = [] \<or> pythonStrOrEmpty (jget x ''scene_id'') = [] \<or>
      pythonIntErrOr (jget x ''occurred_at_ms'') (- 1) < 0)" by fact
  have e: "\<lparr>r_answer = \<lparr>answer_id = pythonStrOrEmpty (jget x ''answer_id''),
               a_scene_id = pythonStrOrEmpty (jget x ''scene_id''),
               polarity = (if jget x ''polarity'' = JNum ''-1'' then -1 else 1),
               flipped = truthy (jget x ''flipped''), flip_strength = argsString x ''flip_strength'' ''mild'',
               a_occurred_at_ms = pythonIntErrOr (jget x ''occurred_at_ms'') (-1)\<rparr>, r_reasons = subjects\<rparr> = e" by fact
  have rs: "r_reasons e = subjects" and fl: "flipped (r_answer e) = truthy (jget x ''flipped'')"
    and st: "flip_strength (r_answer e) = argsString x ''flip_strength'' ''mild''"
    and po: "polarity (r_answer e) = (if jget x ''polarity'' = JNum ''-1'' then -1 else 1)"
    and oc: "a_occurred_at_ms (r_answer e) = pythonIntErrOr (jget x ''occurred_at_ms'') (-1)"
    unfolding e [symmetric] by (simp_all only: reason_answer.simps sceneReasonEntry.simps)
  have "length subjects = length (arr_of (jget x ''reasons''))"
    using normalize_subjects_typed [OF m] by blast
  then have len: "length (r_reasons e) \<le> sceneReasonLimit" using r unfolding rs by linarith
  have typed: "\<forall>(kind, subject) \<in> set (r_reasons e). kind \<in> set sceneReasonSubjects \<and> (kind = ''scene'' \<longleftrightarrow> subject = [])"
    using normalize_subjects_typed [OF m] unfolding rs by blast
  have some: "flipped (r_answer e) \<or> r_reasons e \<noteq> []" using b unfolding rs fl by blast
  have "flip_strength (r_answer e) \<in> {''mild'', ''strong''}" using a unfolding st by blast
  moreover have "polarity (r_answer e) \<in> {-1, 1}" unfolding po by simp
  moreover have "0 \<le> a_occurred_at_ms (r_answer e)" using g unfolding oc by linarith
  ultimately show ?case
    unfolding typed_entry_def reason_answer_check_def using len typed some by blast
qed

lemma normalizeExternalSceneReasonEntry_typed:
  assumes "normalizeExternalSceneReasonEntry x = Inr e"
  shows "typed_entry externalSceneReasonSubjects e"
  using assms unfolding normalizeExternalSceneReasonEntry_def Let_def and_then_Inr_iff guard_Inr sum.inject
proof (elim conjE exE, goal_cases)
  case (1 subjects)
  have m: "map_res (normalize_subject externalSceneReasonSubjects False) (arr_of (jget x ''reasons'')) = Inr subjects" by fact
  have r: "\<not> (\<not> is_arr (jget x ''reasons'') \<or> arr_of (jget x ''reasons'') = [] \<or>
      sceneReasonLimit < length (arr_of (jget x ''reasons'')))" by fact
  have g: "\<not> (pythonStrOrEmpty (jget x ''answer_id'') = [] \<or> pythonStrOrEmpty (jget x ''external_id'') = [] \<or>
      pythonIntErrOr (jget x ''occurred_at_ms'') (- 1) < 0)" by fact
  have e: "\<lparr>r_answer = \<lparr>answer_id = pythonStrOrEmpty (jget x ''answer_id''),
               a_scene_id = pythonStrOrEmpty (jget x ''external_id''),
               polarity = (if jget x ''polarity'' = JNum ''-1'' then -1 else 1),
               flipped = False, flip_strength = ''mild'',
               a_occurred_at_ms = pythonIntErrOr (jget x ''occurred_at_ms'') (-1)\<rparr>, r_reasons = subjects\<rparr> = e" by fact
  have rs: "r_reasons e = subjects" and st: "flip_strength (r_answer e) = ''mild''"
    and po: "polarity (r_answer e) = (if jget x ''polarity'' = JNum ''-1'' then -1 else 1)"
    and oc: "a_occurred_at_ms (r_answer e) = pythonIntErrOr (jget x ''occurred_at_ms'') (-1)"
    unfolding e [symmetric] by (simp_all only: reason_answer.simps sceneReasonEntry.simps)
  have lens: "length subjects = length (arr_of (jget x ''reasons''))"
    using normalize_subjects_typed [OF m] by (simp add: externalSceneReasonSubjects_def)
  then have len: "length (r_reasons e) \<le> sceneReasonLimit" "r_reasons e \<noteq> []"
    using r unfolding rs by auto
  have typed: "\<forall>(kind, subject) \<in> set (r_reasons e). kind \<in> set externalSceneReasonSubjects \<and> (kind = ''scene'' \<longleftrightarrow> subject = [])"
    using normalize_subjects_typed [OF m] unfolding rs by (simp add: externalSceneReasonSubjects_def)
  have "polarity (r_answer e) \<in> {-1, 1}" unfolding po by simp
  moreover have "0 \<le> a_occurred_at_ms (r_answer e)" using g unfolding oc by linarith
  ultimately show ?case
    unfolding typed_entry_def reason_answer_check_def st using len typed by blast
qed

lemma set_insert_reasons:
  "set (insert_reasons check aid rs rows) = set rows \<union> {(aid, k, s) | k s. (k, s) \<in> set rs \<and> check (aid, k, s)}"
  unfolding insert_reasons_def
  by (induction rs arbitrary: rows) (auto simp: insert_or_ignore_def)

lemma length_insert_reasons:
  "length (filter p (insert_reasons check aid rs rows)) \<le> length (filter p rows) + length rs"
proof (induction rs arbitrary: rows)
  case Nil
  then show ?case by (simp add: insert_reasons_def)
next
  case (Cons r rs)
  obtain k s where r: "r = (k, s)" by fastforce
  let ?rows = "insert_or_ignore (\<lambda>r. r) check (aid, k, s) rows"
  have "length (filter p ?rows) \<le> length (filter p rows) + 1"
    by (simp add: insert_or_ignore_def)
  with Cons [of ?rows] show ?case by (simp add: insert_reasons_def r)
qed

lemma filter_insert_reasons:
  "b \<noteq> aid \<Longrightarrow> filter (\<lambda>r. fst r = b) (insert_reasons check aid rs rows) = filter (\<lambda>r. fst r = b) rows"
proof (induction rs arbitrary: rows)
  case Nil
  then show ?case by (simp add: insert_reasons_def)
next
  case (Cons r rs)
  obtain k s where r: "r = (k, s)" by fastforce
  let ?rows = "insert_or_ignore (\<lambda>r. r) check (aid, k, s) rows"
  have "filter (\<lambda>r. fst r = b) ?rows = filter (\<lambda>r. fst r = b) rows"
    using Cons.prems by (simp add: insert_or_ignore_def)
  with Cons.IH [OF Cons.prems, of ?rows] show ?case by (simp add: insert_reasons_def r)
qed

lemma store_typed_add:
  assumes inv: "answer_store_typed subjects as rs" and e: "typed_entry subjects e"
    and fresh: "answer_id (r_answer e) \<notin> answer_id ` set as"
    and check: "\<And>k s. (k, s) \<in> set (r_reasons e) \<Longrightarrow> check (answer_id (r_answer e), k, s)"
  shows "answer_store_typed subjects (as @ [r_answer e])
    (insert_reasons check (answer_id (r_answer e)) (r_reasons e) rs)"
proof -
  let ?aid = "answer_id (r_answer e)"
  let ?rs = "insert_reasons check ?aid (r_reasons e) rs"
  have set': "set ?rs = set rs \<union> {(?aid, k, s) | k s. (k, s) \<in> set (r_reasons e)}"
    using check by (auto simp: set_insert_reasons)
  have none: "filter (\<lambda>r. fst r = ?aid) rs = []"
    using inv fresh by (force simp: answer_store_typed_def filter_empty_conv)
  have len: "length (filter (\<lambda>r. fst r = ?aid) ?rs) \<le> sceneReasonLimit"
    using length_insert_reasons [of "\<lambda>r. fst r = ?aid" check ?aid "r_reasons e" rs] none e
    by (simp add: typed_entry_def)
  have old: "filter (\<lambda>r. fst r = answer_id a) ?rs = filter (\<lambda>r. fst r = answer_id a) rs"
    if "a \<in> set as" for a
    using fresh that by (intro filter_insert_reasons) (metis imageI)
  have some: "flipped (r_answer e) \<or> (\<exists>r \<in> set ?rs. fst r = ?aid)"
  proof (cases "r_reasons e")
    case Nil
    with e show ?thesis by (simp add: typed_entry_def)
  next
    case (Cons r rest)
    then have "(fst r, snd r) \<in> set (r_reasons e)" by simp
    then have "(?aid, fst r, snd r) \<in> set ?rs" unfolding set' by blast
    then show ?thesis by force
  qed
  show ?thesis
    unfolding answer_store_typed_def
  proof (intro conjI)
    show "unique_key answer_id (as @ [r_answer e])"
      using inv fresh by (simp add: answer_store_typed_def)
    show "\<forall>a \<in> set (as @ [r_answer e]). reason_answer_check a \<and> (flipped a \<or> (\<exists>r \<in> set ?rs. fst r = answer_id a)) \<and>
        length (filter (\<lambda>r. fst r = answer_id a) ?rs) \<le> sceneReasonLimit"
      using inv e some len old unfolding answer_store_typed_def typed_entry_def
      by (auto simp: set')
    show "\<forall>(aid, kind, subject) \<in> set ?rs. aid \<in> answer_id ` set (as @ [r_answer e]) \<and> kind \<in> set subjects \<and>
        (kind = ''scene'' \<longleftrightarrow> subject = [])"
      using inv e unfolding answer_store_typed_def typed_entry_def by (auto simp: set')
  qed
qed

lemma store_typed_drop:
  assumes inv: "answer_store_typed subjects as rs"
  shows "answer_store_typed subjects (delete_where p as)
    (delete_where (\<lambda>r. fst r \<in> set (map answer_id (filter p as))) rs)"
proof -
  let ?gone = "set (map answer_id (filter p as))"
  have keep: "answer_id a \<notin> ?gone" if "a \<in> set as" "\<not> p a" for a
    using inv that unique_key_inj [of answer_id as a] by (auto simp: answer_store_typed_def)
  have same: "filter (\<lambda>r. fst r = answer_id a) (delete_where (\<lambda>r. fst r \<in> ?gone) rs) =
      filter (\<lambda>r. fst r = answer_id a) rs" if "a \<in> set as" "\<not> p a" for a
    using keep [OF that] unfolding delete_where_def filter_filter by (intro filter_cong) auto
  have rest: "aid \<in> answer_id ` set (delete_where p as)" if "aid \<in> answer_id ` set as" "aid \<notin> ?gone" for aid
    using that by auto
  show ?thesis
    unfolding answer_store_typed_def
  proof (intro conjI ballI)
    show "unique_key answer_id (delete_where p as)"
      using inv by (auto simp: answer_store_typed_def intro: unique_key_delete)
  next
    fix a assume a: "a \<in> set (delete_where p as)"
    then show "reason_answer_check a" using inv by (simp add: answer_store_typed_def)
    show "flipped a \<or> (\<exists>r \<in> set (delete_where (\<lambda>r. fst r \<in> ?gone) rs). fst r = answer_id a)"
      using inv a keep [of a] by (force simp: answer_store_typed_def)
    show "length (filter (\<lambda>r. fst r = answer_id a) (delete_where (\<lambda>r. fst r \<in> ?gone) rs)) \<le> sceneReasonLimit"
      using inv a same [of a] by (simp add: answer_store_typed_def)
  next
    fix r assume r: "r \<in> set (delete_where (\<lambda>r. fst r \<in> ?gone) rs)"
    obtain aid k s where eq: "r = (aid, k, s)" by (cases r)
    with inv r have "aid \<in> answer_id ` set as" "aid \<notin> ?gone" "k \<in> set subjects" "(k = ''scene'') = (s = [])"
      by (auto simp: answer_store_typed_def)
    with rest show "case r of (aid, kind, subject) \<Rightarrow> aid \<in> answer_id ` set (delete_where p as) \<and>
        kind \<in> set subjects \<and> (kind = ''scene'' \<longleftrightarrow> subject = [])"
      by (simp add: eq)
  qed
qed


section \<open>Steps keep the contract, and a batch may be sent again\<close>

lemma library_kinds_pass:
  assumes "typed_entry sceneReasonSubjects e" "(k, s) \<in> set (r_reasons e)"
  shows "reason_check (aid, k, s)"
  using assms by (auto simp: typed_entry_def reason_check_def)

lemma external_kinds_pass:
  assumes "typed_entry externalSceneReasonSubjects e" "(k, s) \<in> set (r_reasons e)"
  shows "ext_reason_check (aid, k, s)"
proof -
  have "k \<in> set externalSceneReasonSubjects" "(k = ''scene'') = (s = [])"
    using assms by (auto simp: typed_entry_def)
  moreover from this have "k \<noteq> ''scene''" by (auto simp: externalSceneReasonSubjects_def)
  ultimately show ?thesis by (simp add: ext_reason_check_def)
qed

lemma submit_reason_inv:
  assumes "reason_inv (snd s)" "typed_entry sceneReasonSubjects e" "submit_reason e s = Inr s'"
  shows "reason_inv (snd s')"
proof (cases "snd s' = snd s")
  case True
  with assms(1) show ?thesis by simp
next
  case False
  let ?a = "r_answer e" and ?db = "snd s"
  have fresh: "answer_id ?a \<notin> answer_id ` set (answers ?db)"
    and s': "snd s' = ?db\<lparr>answers := answers ?db @ [?a],
      reasons := insert_reasons reason_check (answer_id ?a) (r_reasons e) (reasons ?db)\<rparr>"
    using assms(3) False by (cases s; auto simp: submit_reason_def Let_def split: if_splits)+
  show ?thesis
    using assms(1) store_typed_add [OF _ assms(2) fresh, where check = reason_check] library_kinds_pass [OF assms(2)]
    by (simp add: reason_inv_def s')
qed

lemma submit_ext_reason_inv:
  assumes "reason_inv (snd s)" "typed_entry externalSceneReasonSubjects e" "submit_ext_reason e s = Inr s'"
  shows "reason_inv (snd s')"
proof (cases "snd s' = snd s")
  case True
  with assms(1) show ?thesis by simp
next
  case False
  let ?a = "r_answer e" and ?db = "snd s"
  have fresh: "answer_id ?a \<notin> answer_id ` set (ext_answers ?db)"
    and s': "snd s' = ?db\<lparr>ext_answers := ext_answers ?db @ [?a],
      ext_reasons := insert_reasons ext_reason_check (answer_id ?a) (r_reasons e) (ext_reasons ?db)\<rparr>"
    using assms(3) False by (cases s; auto simp: submit_ext_reason_def Let_def split: if_splits)+
  show ?thesis
    using assms(1) store_typed_add [OF _ assms(2) fresh, where check = ext_reason_check] external_kinds_pass [OF assms(2)]
    by (simp add: reason_inv_def s')
qed

lemma submit_reasons_txn_inv:
  assumes inv: "reason_inv db" and run: "submit_reasons_txn submit es now db = Inr (n, db')"
    and step: "\<And>e s s'. e \<in> set es \<Longrightarrow> reason_inv (snd s) \<Longrightarrow> submit e s = Inr s' \<Longrightarrow> reason_inv (snd s')"
  shows "reason_inv db'"
proof -
  obtain m db1 where loop: "fold_res submit es (0, db) = Inr (m, db1)"
      and same: "answers db' = answers db1" "reasons db' = reasons db1" "ext_answers db' = ext_answers db1"
        "ext_reasons db' = ext_reasons db1"
    using run by (auto simp: submit_reasons_txn_def and_then_Inr_iff split: if_splits)
  have "reason_inv (snd (m, db1))"
    by (rule fold_res_invariant [OF loop]) (use inv step in auto)
  then show ?thesis by (simp add: reason_inv_def same)
qed

lemma library_entries_typed:
  assumes "map_res (normalizeSceneReasonEntry scenes) xs = Inr items" "e \<in> set (List.map_filter id items)"
  shows "typed_entry sceneReasonSubjects e"
proof -
  have "\<forall>y \<in> set items. \<forall>e. y = Some e \<longrightarrow> typed_entry sceneReasonSubjects e"
    by (rule map_res_all [OF assms(1)]) (use normalizeSceneReasonEntry_typed in blast)
  with assms(2) show ?thesis by (auto simp: map_filter_def)
qed

lemma external_entries_typed:
  assumes "map_res normalizeExternalSceneReasonEntry xs = Inr items" "e \<in> set items"
  shows "typed_entry externalSceneReasonSubjects e"
proof -
  have "\<forall>e \<in> set items. typed_entry externalSceneReasonSubjects e"
    by (rule map_res_all [OF assms(1)]) (rule normalizeExternalSceneReasonEntry_typed)
  with assms(2) show ?thesis by blast
qed

lemma reason_step_inv: "reason_step db db' \<Longrightarrow> reason_inv db \<Longrightarrow> reason_inv db'"
proof (induction rule: reason_step.induct)
  case (library payload now db db' r)
  then show ?case
    by (auto simp: submitSceneReasonsBody_def Let_def split: if_splits sum.splits
        elim!: submit_reasons_txn_inv [rotated] intro: submit_reason_inv library_entries_typed)
next
  case (external payload now db db' r)
  then show ?case
    by (auto simp: submitExternalSceneReasonsBody_def Let_def split: if_splits sum.splits
        elim!: submit_reasons_txn_inv [rotated] intro: submit_ext_reason_inv external_entries_typed)
next
  case (removed db scene)
  then show ?case
    by (simp add: reason_inv_def drop_scene_def Let_def store_typed_drop del: set_map)
next
  case (added db ss)
  then show ?case by (simp add: reason_inv_def)
qed

definition no_reasons :: "reason_db \<Rightarrow> bool" where
  "no_reasons db \<longleftrightarrow> answers db = [] \<and> reasons db = [] \<and> ext_answers db = [] \<and> ext_reasons db = []"

lemma no_reasons_inv: "no_reasons db \<Longrightarrow> reason_inv db"
  by (simp add: no_reasons_def reason_inv_def answer_store_typed_def unique_key_def)

interpretation reason_run: transition_system no_reasons reason_step reason_inv "\<lambda>_ _. True"
  by unfold_locales (auto intro: no_reasons_inv reason_step_inv)

interpretation library_store: retry_store submit_reason
  "\<lambda>e db. \<not> reason_answer_check (r_answer e) \<or> answer_id (r_answer e) \<in> answer_id ` set (answers db)"
  by unfold_locales (auto simp: submit_reason_def Let_def split: if_splits)

interpretation external_store: retry_store submit_ext_reason
  "\<lambda>e db. \<not> reason_answer_check (r_answer e) \<or> answer_id (r_answer e) \<in> answer_id ` set (ext_answers db)"
  by unfold_locales (auto simp: submit_ext_reason_def Let_def split: if_splits)


lemma submit_reasons_scenes:
  "fold_res submit_reason es s = Inr s' \<Longrightarrow> reason_scenes (snd s') = reason_scenes (snd s)"
proof (induction es arbitrary: s)
  case (Cons e es)
  then obtain u where u: "submit_reason e s = Inr u" "fold_res submit_reason es u = Inr s'"
    by (auto simp: and_then_Inr_iff)
  have "reason_scenes (snd u) = reason_scenes (snd s)"
    using u(1) by (cases s) (auto simp: submit_reason_def Let_def split: if_splits)
  with Cons.IH [OF u(2)] show ?case by simp
qed simp

lemma library_retry:
  assumes "submitSceneReasonsBody payload now db = (db', Inr n)"
  shows "submitSceneReasonsBody payload now' db' = (db', Inr 0)"
proof -
  let ?xs = "arr_of (jget (jget payload ''args'') ''entries'')"
  obtain items m db1 where arr: "is_arr (jget (jget payload ''args'') ''entries'')"
      and items: "map_res (normalizeSceneReasonEntry (reason_scenes db)) ?xs = Inr items"
      and loop: "fold_res submit_reason (List.map_filter id items) (0, db) = Inr (m, db1)"
      and db': "db' = db1 \<or> (\<exists>u. db' = db1\<lparr>reason_update := u\<rparr>)"
    using assms
    by (auto simp: submitSceneReasonsBody_def submit_reasons_txn_def Let_def and_then_Inr_iff
        split: if_splits sum.splits prod.splits)
  have scenes: "reason_scenes db' = reason_scenes db"
    using db' submit_reasons_scenes [OF loop] by auto
  have "fold_res submit_reason (List.map_filter id items) (0, db') = Inr (0, db')"
    by (rule library_store.batch_retry [OF loop]) (use db' in auto)
  then show ?thesis
    using arr items scenes by (simp add: submitSceneReasonsBody_def submit_reasons_txn_def)
qed

lemma external_retry:
  assumes "submitExternalSceneReasonsBody payload now db = (db', Inr n)"
  shows "submitExternalSceneReasonsBody payload now' db' = (db', Inr 0)"
proof -
  let ?xs = "arr_of (jget (jget payload ''args'') ''entries'')"
  obtain items m db1 where arr: "is_arr (jget (jget payload ''args'') ''entries'')"
      and items: "map_res normalizeExternalSceneReasonEntry ?xs = Inr items"
      and loop: "fold_res submit_ext_reason items (0, db) = Inr (m, db1)"
      and db': "db' = db1 \<or> (\<exists>u. db' = db1\<lparr>reason_update := u\<rparr>)"
    using assms
    by (auto simp: submitExternalSceneReasonsBody_def submit_reasons_txn_def Let_def and_then_Inr_iff
        split: if_splits sum.splits prod.splits)
  have "fold_res submit_ext_reason items (0, db') = Inr (0, db')"
    by (rule external_store.batch_retry [OF loop]) (use db' in auto)
  then show ?thesis
    using arr items by (simp add: submitExternalSceneReasonsBody_def submit_reasons_txn_def)
qed

section \<open>Properties\<close>

text \<open>
  C20. The stored answers are well typed in every reachable state: ids are unique, a polarity is 1 or
  -1, every answer that is not a flip has at least one reason and no more than twenty, every reason
  belongs to a stored answer and has an allowed subject kind, its id empty exactly for the scene itself.
\<close>

theorem scene_reasons_typed:
  assumes "reachable no_reasons reason_step db"
  shows "answer_store_typed sceneReasonSubjects (answers db) (reasons db) \<and>
    answer_store_typed externalSceneReasonSubjects (ext_answers db) (ext_reasons db)"
  using reason_run.reachable_inv [OF assms] by (simp add: reason_inv_def)

definition sample_reasons :: reason_db where
  "sample_reasons = \<lparr>answers = [], reasons = [], ext_answers = [], ext_reasons = [],
     reason_scenes = [''7''], reason_update = initial_update_state\<rparr>"

definition flip_payload :: jVal where
  "flip_payload = JObj [(''args'', JObj [(''entries'', JArr [JObj [(''answer_id'', JStr ''a''),
     (''scene_id'', JStr ''7''), (''occurred_at_ms'', jvInt 5), (''polarity'', JNum ''-1''),
     (''reasons'', JArr [JObj [(''subject_type'', JStr ''tag''), (''subject_id'', JStr ''3'')]]),
     (''flipped'', JBool True), (''flip_strength'', JStr ''strong'')]])])]"

definition flip_answer :: reason_answer where
  "flip_answer = \<lparr>answer_id = ''a'', a_scene_id = ''7'', polarity = -1, flipped = True,
     flip_strength = ''strong'', a_occurred_at_ms = 5\<rparr>"

lemma flip_submitted:
  "\<exists>db. submitSceneReasonsBody flip_payload 9 sample_reasons = (db, Inr 1) \<and>
     answers db = [flip_answer] \<and> reasons db = [(''a'', ''tag'', ''3'')] \<and> reason_scenes db = [''7'']"
proof -
  have "normalizeSceneReasonEntry [''7''] (JObj [(''answer_id'', JStr ''a''),
     (''scene_id'', JStr ''7''), (''occurred_at_ms'', jvInt 5), (''polarity'', JNum ''-1''),
     (''reasons'', JArr [JObj [(''subject_type'', JStr ''tag''), (''subject_id'', JStr ''3'')]]),
     (''flipped'', JBool True), (''flip_strength'', JStr ''strong'')]) =
     Inr (Some \<lparr>r_answer = flip_answer, r_reasons = [(''tag'', ''3'')]\<rparr>)"
    by (simp add: normalizeSceneReasonEntry_def normalize_subject_def flip_answer_def pythonStrOrEmpty_def jget_JObj
        pythonIntErrOr_jvInt min_int64_def max_int64_def polarity_ok_def is_float_token_def contains_any_def
        sceneReasonLimit_def sceneReasonSubjects_def argsString_def)
  then show ?thesis
    by (simp add: submitSceneReasonsBody_def flip_payload_def jget_JObj sample_reasons_def map_filter_def
        submit_reasons_txn_def submit_reason_def reason_answer_check_def insert_reasons_def insert_or_ignore_def
        reason_check_def sceneReasonSubjects_def coordinatorRequest_def flip_answer_def Let_def)
qed

theorem scene_reasons_typed_witness:
  "\<exists>db :: reason_db. answers db = [flip_answer] \<and> answer_store_typed sceneReasonSubjects (answers db) (reasons db)"
proof -
  obtain db where db: "submitSceneReasonsBody flip_payload 9 sample_reasons = (db, Inr 1)" "answers db = [flip_answer]"
    using flip_submitted by blast
  have "no_reasons sample_reasons" by (simp add: no_reasons_def sample_reasons_def)
  then have "reachable no_reasons reason_step db"
    using reachable_step [of no_reasons reason_step sample_reasons db] library [OF db(1)]
      reachable_init [of no_reasons sample_reasons reason_step] by simp
  with scene_reasons_typed [of db] db(2) show ?thesis by blast
qed

end
