(* ===== verification/Play_Events.thy ===== *)
theory Play_Events
  imports Feedback Go_Floats "HOL-Library.Product_Lexorder"
begin

text \<open>
  The events of the player and of the lanes: \<open>submitEventsBody\<close> of \<open>core/writes.go\<close> with
  the qualification of impressions, the normalisation and recording of play sessions, the
  viewing and quick-replacement outcomes and the attribution of a session to an impression.
  \<open>parse\<close> is \<open>parseJSON\<close> (a third-party reader), \<open>mathExp\<close> is \<open>math.Exp\<close>.
\<close>

section \<open>Tables\<close>

record impression =
  imp_id :: string
  imp_requested_at_ms :: int
  imp_lane :: string

record impression_item =
  ii_impression_id :: string
  ii_scene_id :: string
  ii_qualified_at_ms :: "int option"

record recommendation =
  rh_id :: string
  rh_scene_id :: string
  rh_impression_id :: string
  rh_lane :: string
  rh_shown_at_ms :: int

record play_session =
  ps_session_id :: string
  ps_scene_id :: string
  ps_started_at_ms :: int
  ps_ended_at_ms :: int
  ps_active_seconds :: float64
  ps_provenance :: string
  ps_impression_id :: "string option"
  ps_summary_json :: string

record behavior_event =
  be_event_id :: string
  be_scene_id :: string
  be_occurred_at_ms :: int
  be_outcome :: float64
  be_confidence :: float64
  be_provenance :: string
  be_session_id :: string
  be_payload_json :: string

record events_db =
  impressions :: "impression list"
  impression_items :: "impression_item list"
  rec_history :: "recommendation list"
  play_sessions :: "play_session list"
  behavior_events :: "behavior_event list"
  ev_feedbacks :: "feedback list"
  ev_scenes :: "string list"
  ev_update :: model_update_state

definition float_le :: "float64 \<Rightarrow> float64 \<Rightarrow> bool" where
  "float_le x y \<longleftrightarrow> float_less x y \<or> float_eq x y"

definition item_check :: "impression_item \<Rightarrow> bool" where
  "item_check it \<longleftrightarrow> (case ii_qualified_at_ms it of None \<Rightarrow> True | Some t \<Rightarrow> 0 \<le> t)"

definition recommendation_check :: "recommendation \<Rightarrow> bool" where
  "recommendation_check h \<longleftrightarrow> 0 \<le> rh_shown_at_ms h"

definition session_check :: "play_session \<Rightarrow> bool" where
  "session_check s \<longleftrightarrow> 0 \<le> ps_started_at_ms s \<and> ps_ended_at_ms s \<ge> ps_started_at_ms s \<and>
     float_le (Fin False 0) (ps_active_seconds s)"

definition event_check :: "behavior_event \<Rightarrow> bool" where
  "event_check b \<longleftrightarrow> 0 \<le> be_occurred_at_ms b \<and>
     float_le (Fin True 1) (be_outcome b) \<and> float_le (be_outcome b) (Fin False 1) \<and>
     float_le (Fin False 0) (be_confidence b) \<and> float_le (be_confidence b) (Fin False 1)"

section \<open>Qualified impressions\<close>

record impression_entry =
  q_impression_id :: string
  q_scene_id :: string
  q_occurred_at_ms :: int

definition normalize_impression :: "jVal \<Rightarrow> impression_entry res" where
  "normalize_impression entry =
     (let iid = pythonStrOrEmpty (jget entry ''impression_id'');
          scene = pythonStrOrEmpty (jget entry ''scene_id'');
          occurred = pythonIntErrOr (jget entry ''occurred_at_ms'') (-1)
      in if iid = [] \<or> scene = [] \<or> occurred < 0
         then Inl (Msg ''impression_id, scene_id, and occurred_at_ms are required'')
         else Inr \<lparr>q_impression_id = iid, q_scene_id = scene, q_occurred_at_ms = occurred\<rparr>)"

definition unqualified_item :: "impression_entry \<Rightarrow> impression_item \<Rightarrow> bool" where
  "unqualified_item q it \<longleftrightarrow> ii_impression_id it = q_impression_id q \<and> ii_scene_id it = q_scene_id q \<and>
     ii_qualified_at_ms it = None"

definition history_row :: "impression_entry \<Rightarrow> string \<Rightarrow> recommendation" where
  "history_row q lane = \<lparr>rh_id = q_impression_id q @ '':'' @ q_scene_id q, rh_scene_id = q_scene_id q,
     rh_impression_id = q_impression_id q, rh_lane = lane, rh_shown_at_ms = q_occurred_at_ms q\<rparr>"

definition qualify_one :: "impression_entry \<Rightarrow> int \<times> events_db \<Rightarrow> (int \<times> events_db) res" where
  "qualify_one q = (\<lambda>(inserted, db).
     and_then (update_checked item_check (unqualified_item q)
        (\<lambda>it. it\<lparr>ii_qualified_at_ms := Some (q_occurred_at_ms q)\<rparr>) (impression_items db)) (\<lambda>items.
     if affected_rows (unqualified_item q) (impression_items db) = 0 then Inr (inserted, db)
     else case lookup_row imp_id (q_impression_id q) (impressions db) of
       None \<Rightarrow> Inl (Msg [])
     | Some i \<Rightarrow>
         and_then (insert_row rh_id recommendation_check (history_row q (imp_lane i)) (rec_history db)) (\<lambda>hs.
           Inr (inserted + 1, db\<lparr>impression_items := items, rec_history := hs\<rparr>))))"

definition qualifyImpressions :: "jVal list \<Rightarrow> events_db \<Rightarrow> (int \<times> events_db) res" where
  "qualifyImpressions entries db =
     and_then (map_res normalize_impression entries) (\<lambda>qs. fold_res qualify_one qs (0, db))"

section \<open>Sessions\<close>

record played_range =
  r_start :: float64
  r_end :: float64

record session_input =
  sessionID :: string
  sceneID :: string
  startedAtMs :: int
  endedAtMs :: int
  activeSeconds :: float64
  origin :: string
  sourceRoute :: string
  startPositionSeconds :: float64
  maximumPositionSeconds :: float64
  finalPositionSeconds :: float64
  playedRanges :: "played_range list"
  seekDestinations :: "float64 list"
  nearbyMarkerIDs :: "string list"
  naturalCompletion :: bool
  impressionID :: "string option"
  impressionProvenance :: string
  s_lane :: "string option"
  impressionPosition :: "int option"
  modelID :: "string option"

definition quoted :: "string \<Rightarrow> string" where
  "quoted s = [CHR 0x27] @ s @ [CHR 0x27]"

definition py_float :: "jVal \<Rightarrow> float64 res" where
  "py_float v = (case pythonFloat v of (f, None) \<Rightarrow> Inr f | (_, Some e) \<Rightarrow> Inl e)"

definition normalize_range :: "jVal \<Rightarrow> played_range res" where
  "normalize_range item =
     (let s = jget item ''start_seconds''; e = jget item ''end_seconds'' in
      if s = JNull then Inl (Msg (quoted ''start_seconds''))
      else if e = JNull then Inl (Msg (quoted ''end_seconds''))
      else and_then (py_float s) (\<lambda>start. and_then (py_float e) (\<lambda>stop.
        if \<not> is_finite start \<or> \<not> is_finite stop \<or> float_less start (Fin False 0) \<or> float_less stop start
        then Inl (Msg ''played range must be non-negative and ordered'')
        else Inr \<lparr>r_start = start, r_end = stop\<rparr>)))"

definition truthy_string :: "jVal \<Rightarrow> string option" where
  "truthy_string v = (if truthy v then Some (asString v) else None)"

text \<open>\<open>DirectSessionInput.__post_init__\<close>.\<close>

definition session_valid :: "session_input \<Rightarrow> go_error option" where
  "session_valid s =
     (if sessionID s = [] \<or> sceneID s = [] then Some (Msg ''session_id and scene_id are required'')
      else if startedAtMs s < 0 \<or> endedAtMs s < startedAtMs s
      then Some (Msg ''session timestamps must be non-negative and ordered'')
      else if list_ex (\<lambda>p. \<not> is_finite p \<or> float_less p (Fin False 0))
        ([activeSeconds s, startPositionSeconds s, maximumPositionSeconds s, finalPositionSeconds s]
          @ seekDestinations s)
      then Some (Msg ''session durations and positions must be non-negative'')
      else if (case impressionPosition s of None \<Rightarrow> False | Some p \<Rightarrow> p < 0)
      then Some (Msg ''impression_position must be non-negative'')
      else if origin s = ''curator'' \<and> impressionID s = None
      then Some (Msg ''Curator-originated sessions require an impression_id'')
      else None)"

definition normalizeSession :: "jVal \<Rightarrow> session_input res" where
  "normalizeSession entry =
     (let org = (let o' = pythonStrOrEmpty (jget entry ''origin'') in if o' = [] then ''stash'' else o');
          imp = truthy_string (jget entry ''impression_id'');
          prov = truthy_string (jget entry ''impression_provenance'');
          pos = jget entry ''impression_position''
      in if org \<noteq> ''curator'' \<and> org \<noteq> ''stash''
         then Inl (Msg (quoted org @ '' is not a valid SessionOrigin''))
         else and_then (map_res normalize_range (arr_of (jget entry ''played_ranges''))) (\<lambda>ranges.
           and_then (map_res py_float (arr_of (jget entry ''seek_destinations_seconds''))) (\<lambda>seeks.
           if prov \<noteq> None \<and> the prov \<noteq> ''observed'' \<and> the prov \<noteq> ''inferred''
           then Inl (Msg (''impression provenance must be '' @ quoted ''observed'' @ '', '' @
             quoted ''inferred'' @ '', or null''))
           else let s = \<lparr>
             sessionID = pythonStrOrEmpty (jget entry ''session_id''),
             sceneID = pythonStrOrEmpty (jget entry ''scene_id''),
             startedAtMs = pythonIntErrOr (jget entry ''started_at_ms'') (-1),
             endedAtMs = pythonIntErrOr (jget entry ''ended_at_ms'') (-1),
             activeSeconds = pythonFloatOr (jget entry ''active_seconds'') (Fin False 0),
             origin = org,
             sourceRoute = pythonStrOrEmpty (jget entry ''source_route''),
             startPositionSeconds = pythonFloatOr (jget entry ''start_position_seconds'') (Fin False 0),
             maximumPositionSeconds = pythonFloatOr (jget entry ''maximum_position_seconds'') (Fin False 0),
             finalPositionSeconds = pythonFloatOr (jget entry ''final_position_seconds'') (Fin False 0),
             playedRanges = ranges, seekDestinations = seeks,
             nearbyMarkerIDs = map asString (arr_of (jget entry ''nearby_marker_ids'')),
             naturalCompletion = truthy (jget entry ''natural_completion''),
             impressionID = imp,
             impressionProvenance = (case prov of Some p \<Rightarrow> p | None \<Rightarrow> if imp \<noteq> None then ''observed'' else []),
             s_lane = truthy_string (jget entry ''lane''),
             impressionPosition = (if pos \<noteq> JNull then Some (pythonInt pos) else None),
             modelID = truthy_string (jget entry ''model_id'')\<rparr>
           in case session_valid s of Some e \<Rightarrow> Inl e | None \<Rightarrow> Inr s)))"

definition observedPlayback :: "session_input \<Rightarrow> bool" where
  "observedPlayback s \<longleftrightarrow> float_less (Fin False 0) (activeSeconds s) \<or> playedRanges s \<noteq> [] \<or>
     float_less (startPositionSeconds s) (maximumPositionSeconds s)"

section \<open>Outcomes\<close>

record outcome_signal =
  signalType :: string
  sig_value :: float64
  sig_confidence :: float64
  sig_observed_at_ms :: int
  sig_provenance :: string

definition mathAbs :: "float64 \<Rightarrow> float64" where
  "mathAbs v = (if float_less v (Fin False 0) then float_neg v else v)"

definition viewing_value :: "(float64 \<Rightarrow> float64) \<Rightarrow> float64 \<Rightarrow> float64" where
  "viewing_value mathExp active =
     (if float_less active (Fin False 30)
      then float_mult (float_of_rat (- 1/10)) (float_sub (Fin False 1) (float_div active (Fin False 30)))
      else float_mult (float_of_rat (35/100))
        (float_sub (Fin False 1)
          (mathExp (float_div (float_neg (float_sub active (Fin False 30))) (Fin False 90)))))"

definition viewingOutcome :: "(float64 \<Rightarrow> float64) \<Rightarrow> float64 \<Rightarrow> int \<Rightarrow> outcome_signal option" where
  "viewingOutcome mathExp active observedAtMs =
     (let v = viewing_value mathExp active in
      if float_less (mathAbs v) (float_of_rat (1 / 10 ^ 12)) then None
      else Some \<lparr>signalType = ''view'', sig_value = v, sig_confidence = float_of_rat (80/100),
        sig_observed_at_ms = observedAtMs, sig_provenance = ''direct_player''\<rparr>)"

definition quickReplacementOutcome :: "session_input \<Rightarrow> session_input \<Rightarrow> bool \<Rightarrow> outcome_signal option" where
  "quickReplacementOutcome original replacement positive =
     (let elapsed = float_div (float_of_int (startedAtMs replacement - endedAtMs original)) (Fin False 1000);
          disqualified = origin original \<noteq> ''curator'' \<or> float_le (Fin False 30) (activeSeconds original) \<or>
            sceneID replacement = sceneID original \<or> float_less elapsed (Fin False 0) \<or>
            float_less (Fin False 300) elapsed \<or> positive
      in if disqualified then None
         else Some \<lparr>signalType = ''quick_replacement'', sig_value = Fin True (1/4),
           sig_confidence = float_of_rat (90/100), sig_observed_at_ms = startedAtMs replacement,
           sig_provenance = ''direct_player''\<rparr>)"


definition event_row :: "string \<Rightarrow> string \<Rightarrow> string \<Rightarrow> outcome_signal \<Rightarrow> behavior_event" where
  "event_row eventID scene session sig =
     \<lparr>be_event_id = eventID, be_scene_id = scene, be_occurred_at_ms = sig_observed_at_ms sig,
      be_outcome = sig_value sig, be_confidence = sig_confidence sig, be_provenance = sig_provenance sig,
      be_session_id = session,
      be_payload_json = marshalCompact (JObj [(''primary_signal'', JStr (signalType sig))])\<rparr>"

definition insertSignal ::
    "string \<Rightarrow> string \<Rightarrow> string \<Rightarrow> outcome_signal \<Rightarrow> events_db \<Rightarrow> (bool \<times> events_db) res" where
  "insertSignal eventID scene session sig db =
     (let row = event_row eventID scene session sig in
      if \<not> event_check row \<or> eventID \<in> set (map be_event_id (behavior_events db)) then Inr (False, db)
      else if scene \<notin> set (ev_scenes db) \<or> session \<notin> set (map ps_session_id (play_sessions db))
      then Inl Foreign_Key_Violation
      else Inr (True, db\<lparr>behavior_events := behavior_events db @ [row]\<rparr>))"

text \<open>\<open>observedPlaybackSQL\<close> over the stored summary; a text that does not parse is no playback.\<close>

definition json_number :: "jVal \<Rightarrow> float64" where
  "json_number v = (if v = JNull then Fin False 0 else fst (pythonFloat v))"

definition observed_sql :: "(string \<Rightarrow> jVal res) \<Rightarrow> play_session \<Rightarrow> bool" where
  "observed_sql parse r \<longleftrightarrow>
     (let summary = (case parse (ps_summary_json r) of Inr v \<Rightarrow> v | Inl _ \<Rightarrow> JNull) in
      float_less (Fin False 0) (ps_active_seconds r) \<or>
      arr_of (jget summary ''played_ranges'') \<noteq> [] \<or>
      float_less (json_number (jget summary ''start_position_seconds''))
        (json_number (jget summary ''maximum_position_seconds'')))"

definition previous_session :: "(string \<Rightarrow> jVal res) \<Rightarrow> session_input \<Rightarrow> events_db \<Rightarrow> play_session option" where
  "previous_session parse s db =
     first_by (\<lambda>a b. ps_ended_at_ms a > ps_ended_at_ms b)
       (filter (\<lambda>r. ps_provenance r = ''direct_player'' \<and> ps_session_id r \<noteq> sessionID s \<and>
          ps_ended_at_ms r \<le> startedAtMs s \<and> observed_sql parse r) (play_sessions db))"

definition thumbs_up_between :: "string \<Rightarrow> int \<Rightarrow> int \<Rightarrow> feedback list \<Rightarrow> bool" where
  "thumbs_up_between scene from to fs \<longleftrightarrow>
     list_ex (\<lambda>f. f_scene_id f = scene \<and> feedback_type f = ''thumb_up'' \<and> reversed_by_id f = None \<and>
       from \<le> f_occurred_at_ms f \<and> f_occurred_at_ms f \<le> to) fs"

definition insertReplacement ::
    "(string \<Rightarrow> jVal res) \<Rightarrow> session_input \<Rightarrow> events_db \<Rightarrow> (bool \<times> events_db) res" where
  "insertReplacement parse replacement db =
     (case previous_session parse replacement db of
        None \<Rightarrow> Inr (False, db)
      | Some row \<Rightarrow>
          and_then (parse (ps_summary_json row)) (\<lambda>parsed.
          and_then (normalizeSession parsed) (\<lambda>original.
            let positive = thumbs_up_between (sceneID original) (endedAtMs original)
                  (startedAtMs replacement) (ev_feedbacks db)
            in case quickReplacementOutcome original replacement positive of
                 None \<Rightarrow> Inr (False, db)
               | Some sig \<Rightarrow> insertSignal (sessionID replacement @ '':replacement'') (sceneID original)
                   (sessionID original) sig db)))"

section \<open>Attribution\<close>

definition impressionAttributionWindowMs :: int where
  "impressionAttributionWindowMs = 30 * 60 * 1000"

definition attribution_candidates :: "session_input \<Rightarrow> events_db \<Rightarrow> impression list" where
  "attribution_candidates s db =
     [i. it \<leftarrow> impression_items db, i \<leftarrow> impressions db,
         imp_id i = ii_impression_id it \<and> ii_scene_id it = sceneID s \<and>
         imp_requested_at_ms i \<le> startedAtMs s \<and>
         imp_requested_at_ms i \<ge> startedAtMs s - impressionAttributionWindowMs]"

definition attributeImpression :: "session_input \<Rightarrow> events_db \<Rightarrow> session_input" where
  "attributeImpression s db =
     (case first_by (\<lambda>a b. imp_requested_at_ms b < imp_requested_at_ms a \<or>
          (imp_requested_at_ms a = imp_requested_at_ms b \<and> imp_id b < imp_id a)) (attribution_candidates s db) of
        None \<Rightarrow> s
      | Some i \<Rightarrow> s\<lparr>impressionID := Some (imp_id i), impressionProvenance := ''inferred''\<rparr>)"

section \<open>Recording sessions\<close>

definition optStrValue :: "string option \<Rightarrow> jVal" where
  "optStrValue v = (case v of None \<Rightarrow> JNull | Some s \<Rightarrow> JStr s)"

definition sessionSummaryJSON :: "session_input \<Rightarrow> string" where
  "sessionSummaryJSON s = marshalSortedKeys (JObj [
     (''active_seconds'', jvFloat (activeSeconds s)),
     (''ended_at_ms'', jvInt (endedAtMs s)),
     (''final_position_seconds'', jvFloat (finalPositionSeconds s)),
     (''impression_id'', optStrValue (impressionID s)),
     (''impression_position'', case impressionPosition s of None \<Rightarrow> JNull | Some p \<Rightarrow> jvInt p),
     (''impression_provenance'', if impressionProvenance s = [] then JNull else JStr (impressionProvenance s)),
     (''lane'', optStrValue (s_lane s)),
     (''maximum_position_seconds'', jvFloat (maximumPositionSeconds s)),
     (''model_id'', optStrValue (modelID s)),
     (''natural_completion'', JBool (naturalCompletion s)),
     (''nearby_marker_ids'', JArr (map JStr (nearbyMarkerIDs s))),
     (''origin'', JStr (origin s)),
     (''played_ranges'', JArr (map (\<lambda>r. JObj [(''start_seconds'', jvFloat (r_start r)),
        (''end_seconds'', jvFloat (r_end r))]) (playedRanges s))),
     (''scene_id'', JStr (sceneID s)),
     (''seek_destinations_seconds'', JArr (map jvFloat (seekDestinations s))),
     (''session_id'', JStr (sessionID s)),
     (''source_route'', JStr (sourceRoute s)),
     (''start_position_seconds'', jvFloat (startPositionSeconds s)),
     (''started_at_ms'', jvInt (startedAtMs s))])"

definition session_row :: "session_input \<Rightarrow> play_session" where
  "session_row s = \<lparr>ps_session_id = sessionID s, ps_scene_id = sceneID s, ps_started_at_ms = startedAtMs s,
     ps_ended_at_ms = endedAtMs s, ps_active_seconds = activeSeconds s, ps_provenance = ''direct_player'',
     ps_impression_id = impressionID s, ps_summary_json = sessionSummaryJSON s\<rparr>"

definition view_signal ::
    "(float64 \<Rightarrow> float64) \<Rightarrow> session_input \<Rightarrow> events_db \<Rightarrow> (bool \<times> events_db) res" where
  "view_signal mathExp s db =
     (if \<not> observedPlayback s then Inr (False, db)
      else case viewingOutcome mathExp (activeSeconds s) (endedAtMs s) of
        None \<Rightarrow> Inr (False, db)
      | Some sig \<Rightarrow> insertSignal (sessionID s @ '':view'') (sceneID s) (sessionID s) sig db)"

text \<open>
  One session: an insert that fails or is ignored leaves the loop with the next session, a
  recorded one may signal a viewing outcome and the quick replacement of the session before.
\<close>

definition record_session ::
    "(string \<Rightarrow> jVal res) \<Rightarrow> (float64 \<Rightarrow> float64) \<Rightarrow> session_input \<Rightarrow>
     int \<times> bool \<times> events_db \<Rightarrow> (int \<times> bool \<times> events_db) res" where
  "record_session parse mathExp s = (\<lambda>(inserted, signaled, db).
     if \<not> session_check (session_row s) \<or> sessionID s \<in> set (map ps_session_id (play_sessions db))
     then Inr (inserted, signaled, db)
     else if sceneID s \<notin> set (ev_scenes db) \<or>
       (impressionID s \<noteq> None \<and> the (impressionID s) \<notin> set (map imp_id (impressions db)))
     then Inr (inserted, signaled, db)
     else and_then (view_signal mathExp s (db\<lparr>play_sessions := play_sessions db @ [session_row s]\<rparr>)) (\<lambda>(viewed, db2).
       and_then (insertReplacement parse s db2) (\<lambda>(replaced, db3).
         Inr (inserted + 1, signaled \<or> viewed \<or> replaced, db3))))"

definition submit_session ::
    "(string \<Rightarrow> jVal res) \<Rightarrow> (float64 \<Rightarrow> float64) \<Rightarrow> session_input \<Rightarrow>
     int \<times> bool \<times> events_db \<Rightarrow> (int \<times> bool \<times> events_db) res" where
  "submit_session parse mathExp s st =
     record_session parse mathExp
       (if impressionID s = None then attributeImpression s (snd (snd st)) else s) st"

definition submitSessions ::
    "(string \<Rightarrow> jVal res) \<Rightarrow> (float64 \<Rightarrow> float64) \<Rightarrow> jVal list \<Rightarrow> int \<Rightarrow> events_db \<Rightarrow> (int \<times> events_db) res" where
  "submitSessions parse mathExp entries now db =
     and_then (map_res normalizeSession entries) (\<lambda>sessions.
     and_then (fold_res (submit_session parse mathExp) sessions (0, False, db)) (\<lambda>(inserted, signaled, db').
       if signaled
       then and_then (coordinatorRequest ''session_outcome'' now (ev_update db')) (\<lambda>u.
         Inr (inserted, db'\<lparr>ev_update := u\<rparr>))
       else Inr (inserted, db')))"

text \<open>
  The qualified impressions are committed before the sessions are looked at: an invalid
  session answers with an error and leaves them qualified.
\<close>

definition is_impression_event :: "jVal \<Rightarrow> bool" where
  "is_impression_event entry \<longleftrightarrow> asString (jget entry ''event_type'') = ''qualified_impression''"

definition submitEventsBody ::
    "(string \<Rightarrow> jVal res) \<Rightarrow> (float64 \<Rightarrow> float64) \<Rightarrow> jVal \<Rightarrow> int \<Rightarrow> events_db \<Rightarrow> events_db \<times> int res" where
  "submitEventsBody parse mathExp payload now db =
     (let entries = jget (jget payload ''args'') ''entries'' in
      if \<not> is_arr entries then (db, Inl (Msg ''entries must be a list''))
      else case find (\<lambda>e. \<not> is_obj e) (arr_of entries) of
        Some e \<Rightarrow> (db, Inl (Msg (quoted (kindName e) @ '' object has no attribute '' @ quoted ''get'')))
      | None \<Rightarrow>
          (case qualifyImpressions (filter is_impression_event (arr_of entries)) db of
             Inl e \<Rightarrow> (db, Inl e)
           | Inr (qualified, db1) \<Rightarrow>
               (case submitSessions parse mathExp (filter (\<lambda>e. \<not> is_impression_event e) (arr_of entries)) now db1 of
                  Inl e \<Rightarrow> (db1, Inl e)
                | Inr (sessions, db2) \<Rightarrow> (db2, Inr (qualified + sessions)))))"


section \<open>Bounds of the outcomes\<close>

text \<open>Finite values of the unit interval, as the arithmetic represents them.\<close>

definition unit_float :: "float64 \<Rightarrow> bool" where
  "unit_float f \<longleftrightarrow> (\<exists>s m. f = Fin s m \<and> 0 \<le> m \<and> m \<le> 1 \<and> (s \<longrightarrow> m = 0))"

definition nonneg_float :: "float64 \<Rightarrow> bool" where
  "nonneg_float f \<longleftrightarrow> (\<exists>s m. f = Fin s m \<and> 0 \<le> m \<and> (s \<longrightarrow> m = 0))"

fun nonpos_arg :: "float64 \<Rightarrow> bool" where
  "nonpos_arg (Fin s m) \<longleftrightarrow> float_val (Fin s m) \<le> 0"
| "nonpos_arg (Inf s) \<longleftrightarrow> s"
| "nonpos_arg NaN \<longleftrightarrow> False"

lemma pow2_0 [simp]: "pow2 0 = 1"
  by (simp add: pow2_def)

lemma round_mag_0 [simp]: "round_mag 0 = 0"
  by (simp add: round_mag_def)

lemma one_minus_unit:
  assumes "unit_float f"
  shows "\<exists>q. float_sub (Fin False 1) f = Fin False q \<and> 0 \<le> q \<and> q \<le> 1"
proof -
  obtain s m where f: "f = Fin s m" "0 \<le> m" "m \<le> 1" "s \<longrightarrow> m = 0"
    using assms by (auto simp: unit_float_def)
  have val: "1 + float_val (Fin (\<not> s) m) = 1 - m" using f(4) by (cases s) auto
  show ?thesis
  proof (cases "m = 1")
    case True
    then show ?thesis using val f by (auto simp: float_sub_def Let_def)
  next
    case False
    then have pos: "0 < 1 - m" "1 - m \<le> pow2 0" using f by auto
    then have "float_sub (Fin False 1) f = round64 False (1 - m)"
      using val f(1) by (simp add: float_sub_def Let_def)
    also have "\<dots> = Fin False (round_mag (1 - m))"
      using pos by (intro round64_small(1) [where k = 0]) auto
    finally show ?thesis
      using round_mag_le_pow2 [of "1 - m" 0] round_mag_nonneg [of "1 - m"] pos by simp
  qed
qed

lemma constant_scaled:
  assumes c: "0 \<le> c" "c \<le> pow2 k" and q: "0 \<le> q" "q \<le> 1" and k: "- 1074 \<le> k" "k \<le> 0"
  shows "\<exists>r. float_mult (round64 s c) (Fin False q) = Fin s r \<and> 0 \<le> r \<and> r \<le> pow2 k"
proof -
  have c64: "round64 s c = Fin s (round_mag c)"
    using c k by (intro round64_small(1) [where k = k]) auto
  have m: "0 \<le> round_mag c" "round_mag c \<le> pow2 k"
    using c k round_mag_nonneg round_mag_le_pow2 by auto
  then have p: "0 \<le> round_mag c * q" "round_mag c * q \<le> pow2 k"
    using q mult_mono [of "round_mag c" "pow2 k" q 1] pow2_pos [of k] by auto
  have "float_mult (round64 s c) (Fin False q) = round64 s (round_mag c * q)"
    by (simp add: c64)
  also have "\<dots> = Fin s (round_mag (round_mag c * q))"
    using p k by (intro round64_small(1) [where k = k]) auto
  finally show ?thesis
    using p k round_mag_nonneg round_mag_le_pow2 by auto
qed

lemma decay_argument:
  assumes "nonneg_float a" "\<not> float_less a (Fin False 30)"
  shows "nonpos_arg (float_div (float_neg (float_sub a (Fin False 30))) (Fin False 90))"
proof -
  obtain s m where a: "a = Fin s m" "0 \<le> m" "s \<longrightarrow> m = 0" using assms(1) by (auto simp: nonneg_float_def)
  have m: "30 \<le> m" "\<not> s" using assms(2) a by (cases s; auto)+
  have "float_sub a (Fin False 30) = (if m = 30 then Fin False 0 else round64 False (m - 30))"
    using m by (auto simp: a float_sub_def Let_def)
  then consider r where "float_sub a (Fin False 30) = Fin False r" "0 \<le> r" | "float_sub a (Fin False 30) = Inf False"
    using m round_mag_nonneg [of "m - 30"] by (auto simp: round64_def Let_def split: if_splits)
  then show ?thesis
  proof cases
    case (1 r)
    then show ?thesis using round_mag_nonneg [of "r / 90"] by (simp add: round64_def Let_def)
  next
    case 2
    then show ?thesis by simp
  qed
qed

lemma viewing_value_bounds:
  assumes a: "nonneg_float a" and exp: "\<And>x. nonpos_arg x \<Longrightarrow> unit_float (mathExp x)"
  shows "\<exists>s r. viewing_value mathExp a = Fin s r \<and> s = float_less a (Fin False 30) \<and> 0 \<le> r \<and>
    r \<le> (if s then 1/8 else 1/2)"
proof (cases "float_less a (Fin False 30)")
  case True
  obtain s m where am: "a = Fin s m" "0 \<le> m" "s \<longrightarrow> m = 0" using a by (auto simp: nonneg_float_def)
  have m: "m < 30" using True am by (cases s) auto
  have div: "float_div a (Fin False 30) = Fin s (round_mag (m / 30))"
    using am m by (simp add: round64_small(1) [where k = 0])
  have "0 \<le> round_mag (m / 30)" "round_mag (m / 30) \<le> 1" "s \<longrightarrow> round_mag (m / 30) = 0"
    using am m round_mag_le_pow2 [of "m / 30" 0] round_mag_nonneg [of "m / 30"]
    by simp_all
  then have "unit_float (float_div a (Fin False 30))"
    unfolding div unit_float_def by blast
  then obtain q where q: "float_sub (Fin False 1) (float_div a (Fin False 30)) = Fin False q" "0 \<le> q" "q \<le> 1"
    using one_minus_unit by blast
  have c: "float_of_rat (- (1/10)) = round64 True (1/10)" by (simp add: float_of_rat_def)
  have k: "pow2 (-3) = 1/8" by (simp add: pow2_def)
  obtain r where r: "float_mult (round64 True (1/10)) (Fin False q) = Fin True r" "0 \<le> r" "r \<le> 1/8"
    using constant_scaled [of "1/10" "-3" q True] q by (auto simp: k)
  then have "viewing_value mathExp a = Fin True r" using q(1) True by (simp add: viewing_value_def c)
  with r True show ?thesis by auto
next
  case False
  have "unit_float (mathExp (float_div (float_neg (float_sub a (Fin False 30))) (Fin False 90)))"
    by (rule exp) (rule decay_argument [OF a False])
  then obtain q where q: "float_sub (Fin False 1) (mathExp (float_div (float_neg (float_sub a (Fin False 30))) (Fin False 90)))
      = Fin False q" "0 \<le> q" "q \<le> 1"
    using one_minus_unit by blast
  have c: "float_of_rat (35/100) = round64 False (35/100)" by (simp add: float_of_rat_def)
  have k: "pow2 (-1) = 1/2" by (simp add: pow2_def)
  obtain r where r: "float_mult (round64 False (35/100)) (Fin False q) = Fin False r" "0 \<le> r" "r \<le> 1/2"
    using constant_scaled [of "35/100" "-1" q False] q by (auto simp: k)
  then have "viewing_value mathExp a = Fin False r" using q(1) False c by (simp add: viewing_value_def)
  with r False show ?thesis by auto
qed


section \<open>Sending events again\<close>

lemma qualify_one_Inr:
  assumes "qualify_one q (n, db) = Inr (n', db')"
  shows "(db' = db \<and> n' = n \<and> (\<forall>it \<in> set (impression_items db). \<not> unqualified_item q it)) \<or>
    (\<exists>i. lookup_row imp_id (q_impression_id q) (impressions db) = Some i \<and>
      (\<exists>it \<in> set (impression_items db). unqualified_item q it) \<and>
      rh_id (history_row q (imp_lane i)) \<notin> rh_id ` set (rec_history db) \<and>
      n' = n + 1 \<and>
      db' = db\<lparr>impression_items := update_where (unqualified_item q)
          (\<lambda>it. it\<lparr>ii_qualified_at_ms := Some (q_occurred_at_ms q)\<rparr>) (impression_items db),
        rec_history := rec_history db @ [history_row q (imp_lane i)]\<rparr>)"
  using assms
  by (auto simp: qualify_one_def and_then_Inr_iff insert_row_Inr update_checked_Inr affected_rows_def filter_empty_conv
      split: if_splits option.splits)

lemma unqualified_after:
  "it \<in> set (update_where (unqualified_item q) (\<lambda>it. it\<lparr>ii_qualified_at_ms := Some t\<rparr>) items) \<Longrightarrow>
     unqualified_item d it \<Longrightarrow> it \<in> set items \<and> \<not> unqualified_item q it"
  by (auto simp: set_update_where unqualified_item_def)

lemma qualify_one_items:
  assumes run: "qualify_one q (n, db) = Inr (n', db')" and it: "it \<in> set (impression_items db')" "unqualified_item d it"
  shows "it \<in> set (impression_items db) \<and> \<not> unqualified_item q it"
  using qualify_one_Inr [OF run]
proof (elim disjE)
  assume "db' = db \<and> n' = n \<and> (\<forall>it \<in> set (impression_items db). \<not> unqualified_item q it)"
  with it show ?thesis by simp
next
  assume "\<exists>i. lookup_row imp_id (q_impression_id q) (impressions db) = Some i \<and>
      (\<exists>it \<in> set (impression_items db). unqualified_item q it) \<and>
      rh_id (history_row q (imp_lane i)) \<notin> rh_id ` set (rec_history db) \<and>
      n' = n + 1 \<and>
      db' = db\<lparr>impression_items := update_where (unqualified_item q)
          (\<lambda>it. it\<lparr>ii_qualified_at_ms := Some (q_occurred_at_ms q)\<rparr>) (impression_items db),
        rec_history := rec_history db @ [history_row q (imp_lane i)]\<rparr>"
  then have "impression_items db' = update_where (unqualified_item q)
      (\<lambda>it. it\<lparr>ii_qualified_at_ms := Some (q_occurred_at_ms q)\<rparr>) (impression_items db)"
    by auto
  with it show ?thesis using unqualified_after [of it q "q_occurred_at_ms q"] by simp
qed

interpretation qualify_store: retry_store qualify_one
  "\<lambda>q db. \<forall>it \<in> set (impression_items db). \<not> unqualified_item q it"
proof unfold_locales
  fix q db n n' db'
  assume "qualify_one q (n, db) = Inr (n', db')"
  note items = qualify_one_items [OF this]
  show "\<forall>it \<in> set (impression_items db'). \<not> unqualified_item d it"
    if "\<forall>it \<in> set (impression_items db). \<not> unqualified_item d it" for d
    using items that by blast
  show "\<forall>it \<in> set (impression_items db'). \<not> unqualified_item q it"
    using items by blast
next
  fix q and db :: events_db and n
  assume none: "\<forall>it \<in> set (impression_items db). \<not> unqualified_item q it"
  then have "update_checked item_check (unqualified_item q) f (impression_items db) =
      Inr (update_where (unqualified_item q) f (impression_items db))" for f
    by (auto simp: update_checked_def list_all_iff)
  with none show "qualify_one q (n, db) = Inr (n, db)"
    by (simp add: qualify_one_def affected_rows_def)
qed

lemma qualify_frame:
  "fold_res qualify_one qs s = Inr s' \<Longrightarrow> play_sessions (snd s') = play_sessions (snd s) \<and>
     impressions (snd s') = impressions (snd s) \<and> ev_scenes (snd s') = ev_scenes (snd s)"
proof (induction qs arbitrary: s)
  case (Cons q qs)
  then obtain u where u: "qualify_one q s = Inr u" "fold_res qualify_one qs u = Inr s'"
    by (auto simp: and_then_Inr_iff)
  have "play_sessions (snd u) = play_sessions (snd s) \<and> impressions (snd u) = impressions (snd s) \<and>
      ev_scenes (snd u) = ev_scenes (snd s)"
    using qualify_one_Inr [of q "fst s" "snd s" "fst u" "snd u"] u(1) by auto
  with Cons.IH [OF u(2)] show ?case by simp
qed simp

text \<open>What a session may change: the sessions and events grow, the rest stays.\<close>

definition session_frame :: "events_db \<Rightarrow> events_db \<Rightarrow> bool" where
  "session_frame db db' \<longleftrightarrow> impressions db' = impressions db \<and> impression_items db' = impression_items db \<and>
     rec_history db' = rec_history db \<and> ev_scenes db' = ev_scenes db \<and> ev_feedbacks db' = ev_feedbacks db \<and>
     set (play_sessions db) \<subseteq> set (play_sessions db') \<and> set (behavior_events db) \<subseteq> set (behavior_events db')"

lemma session_frame_refl [simp]: "session_frame db db"
  by (simp add: session_frame_def)

lemma session_frame_trans: "session_frame a b \<Longrightarrow> session_frame b c \<Longrightarrow> session_frame a c"
  by (auto simp: session_frame_def)

lemma insertSignal_frame:
  "insertSignal e sc se sig db = Inr (b, db') \<Longrightarrow> session_frame db db' \<and> play_sessions db' = play_sessions db"
  by (auto simp: insertSignal_def session_frame_def Let_def split: if_splits)

lemma insertReplacement_frame:
  "insertReplacement parse s db = Inr (b, db') \<Longrightarrow> session_frame db db' \<and> play_sessions db' = play_sessions db"
  by (auto simp: insertReplacement_def and_then_Inr_iff Let_def dest: insertSignal_frame split: option.splits)

definition session_dropped :: "session_input \<Rightarrow> events_db \<Rightarrow> bool" where
  "session_dropped s db \<longleftrightarrow> \<not> session_check (session_row s) \<or>
     sessionID s \<in> ps_session_id ` set (play_sessions db) \<or> sceneID s \<notin> set (ev_scenes db) \<or>
     (\<exists>i. impressionID s = Some i \<and> i \<notin> imp_id ` set (impressions db))"

lemma attributeImpression_frame:
  "sessionID (attributeImpression s db) = sessionID s" "sceneID (attributeImpression s db) = sceneID s"
  "session_check (session_row (attributeImpression s db)) = session_check (session_row s)"
  "activeSeconds (attributeImpression s db) = activeSeconds s"
  "impressionID s = None \<Longrightarrow> impressionID (attributeImpression s db) = Some i \<Longrightarrow> i \<in> imp_id ` set (impressions db)"
  by (auto simp: attributeImpression_def session_row_def session_check_def attribution_candidates_def
      split: option.splits if_splits dest!: first_by_in)

lemma session_dropped_mono:
  assumes "session_frame a b" "session_dropped s a"
  shows "session_dropped s b"
proof -
  have "ps_session_id ` set (play_sessions a) \<subseteq> ps_session_id ` set (play_sessions b)"
    using assms(1) by (intro image_mono) (simp add: session_frame_def)
  moreover have "impressions b = impressions a" "ev_scenes b = ev_scenes a"
    using assms(1) by (simp_all add: session_frame_def)
  ultimately show ?thesis using assms(2) unfolding session_dropped_def by auto
qed

lemma record_session_dropped:
  "session_dropped s db \<Longrightarrow> record_session parse mathExp s (n, sg, db) = Inr (n, sg, db)"
  by (auto simp: record_session_def session_dropped_def)

lemma record_session_new:
  assumes "\<not> session_dropped s db"
  shows "record_session parse mathExp s (n, sg, db) =
    and_then (view_signal mathExp s (db\<lparr>play_sessions := play_sessions db @ [session_row s]\<rparr>)) (\<lambda>(viewed, db2).
       and_then (insertReplacement parse s db2) (\<lambda>(replaced, db3).
         Inr (n + 1, sg \<or> viewed \<or> replaced, db3)))"
  using assms by (auto simp: record_session_def session_dropped_def)

lemma view_signal_frame:
  "view_signal mathExp s db = Inr (b, db') \<Longrightarrow> session_frame db db' \<and> play_sessions db' = play_sessions db"
  by (auto simp: view_signal_def dest: insertSignal_frame split: if_splits option.splits)

lemma record_session_run:
  assumes "record_session parse mathExp s (n, sg, db) = Inr (n', sg', db')"
  shows "session_frame db db' \<and> session_dropped s db'"
proof (cases "session_dropped s db")
  case True
  with assms show ?thesis by (simp add: record_session_dropped)
next
  case False
  let ?db1 = "db\<lparr>play_sessions := play_sessions db @ [session_row s]\<rparr>"
  obtain v db2 r where v: "view_signal mathExp s ?db1 = Inr (v, db2)" and r: "insertReplacement parse s db2 = Inr (r, db')"
    using assms record_session_new [OF False] by (auto simp: and_then_Inr_iff)
  have "session_frame db ?db1" by (auto simp: session_frame_def)
  then have "session_frame db db'" "play_sessions db' = play_sessions ?db1"
    using view_signal_frame [OF v] insertReplacement_frame [OF r] session_frame_trans by metis+
  then show ?thesis by (auto simp: session_dropped_def session_row_def)
qed

lemma attributed_dropped:
  "session_dropped (if impressionID s = None then attributeImpression s db else s) db = session_dropped s db"
  using attributeImpression_frame [of s db] by (auto simp: session_dropped_def)

lemma submit_session_run:
  assumes "submit_session parse mathExp s (n, sg, db) = Inr (n', sg', db')"
  shows "session_frame db db' \<and> session_dropped s db'"
proof -
  let ?a = "if impressionID s = None then attributeImpression s db else s"
  have run: "session_frame db db'" "session_dropped ?a db'"
    using record_session_run [OF assms [unfolded submit_session_def snd_conv]] by blast+
  have "sessionID ?a = sessionID s" "sceneID ?a = sceneID s" "session_check (session_row ?a) = session_check (session_row s)"
      "\<And>i. impressionID s = None \<Longrightarrow> impressionID ?a = Some i \<Longrightarrow> i \<in> imp_id ` set (impressions db)"
    using attributeImpression_frame [of s db] by simp_all
  moreover have "impressions db' = impressions db"
    using run(1) by (simp add: session_frame_def)
  ultimately have "session_dropped s db'"
    using run(2) unfolding session_dropped_def by (cases "impressionID s") auto
  with run(1) show ?thesis by simp
qed

lemma submit_session_dropped:
  "session_dropped s db \<Longrightarrow> submit_session parse mathExp s (n, sg, db) = Inr (n, sg, db)"
  unfolding submit_session_def snd_conv
  by (rule record_session_dropped) (simp only: attributed_dropped)

interpretation session_store: retry_store "submit_session parse mathExp"
  "\<lambda>s t. session_dropped s (snd t)" for parse mathExp
proof unfold_locales
  fix s t n n' t'
  assume "submit_session parse mathExp s (n, t) = Inr (n', t')"
  then have run: "session_frame (snd t) (snd t')" "session_dropped s (snd t')"
    using submit_session_run [of parse mathExp s n "fst t" "snd t" n' "fst t'" "snd t'"] by simp_all
  then show "session_dropped s (snd t')" by simp
  show "session_dropped d (snd t')" if "session_dropped d (snd t)" for d
    using session_dropped_mono run(1) that by blast
next
  show "submit_session parse mathExp s (n, t) = Inr (n, t)" if "session_dropped s (snd t)" for s t n
    using submit_session_dropped [OF that, of parse mathExp n "fst t"] by simp
qed


lemma session_frame_loop:
  assumes "fold_res (submit_session parse mathExp) ss (n, sg, db) = Inr (n', sg', db')"
  shows "session_frame db db'"
proof -
  have "session_frame db (snd (snd (n', sg', db')))"
  proof (rule fold_res_invariant [where P = "\<lambda>t. session_frame db (snd (snd t))", OF assms])
    fix s t t' assume "session_frame db (snd (snd t))" "submit_session parse mathExp s t = Inr t'"
    then show "session_frame db (snd (snd t'))"
      using submit_session_run [of parse mathExp s "fst t" "fst (snd t)" "snd (snd t)" "fst t'" "fst (snd t')" "snd (snd t')"]
        session_frame_trans by (metis prod.collapse)
  qed simp
  then show ?thesis by simp
qed

lemma submitEventsBody_Inr:
  assumes "submitEventsBody parse mathExp payload now db = (db', Inr n)"
  obtains qs ss q db1 m sg db2 where
    "is_arr (jget (jget payload ''args'') ''entries'')"
    "find (\<lambda>e. \<not> is_obj e) (arr_of (jget (jget payload ''args'') ''entries'')) = None"
    "map_res normalize_impression (filter is_impression_event (arr_of (jget (jget payload ''args'') ''entries''))) = Inr qs"
    "fold_res qualify_one qs (0, db) = Inr (q, db1)"
    "map_res normalizeSession (filter (\<lambda>e. \<not> is_impression_event e) (arr_of (jget (jget payload ''args'') ''entries''))) = Inr ss"
    "fold_res (submit_session parse mathExp) ss (0, False, db1) = Inr (m, sg, db2)"
    "db' = db2 \<or> (\<exists>u. db' = db2\<lparr>ev_update := u\<rparr>)"
proof -
  let ?es = "arr_of (jget (jget payload ''args'') ''entries'')"
  from assms obtain q db1 k where pre: "is_arr (jget (jget payload ''args'') ''entries'')"
      "find (\<lambda>e. \<not> is_obj e) ?es = None"
    and q: "qualifyImpressions (filter is_impression_event ?es) db = Inr (q, db1)"
    and k: "submitSessions parse mathExp (filter (\<lambda>e. \<not> is_impression_event e) ?es) now db1 = Inr (k, db')"
    by (auto simp: submitEventsBody_def Let_def split: if_split_asm sum.split_asm option.split_asm prod.split_asm)
  from q obtain qs where qs: "map_res normalize_impression (filter is_impression_event ?es) = Inr qs"
      "fold_res qualify_one qs (0, db) = Inr (q, db1)"
    by (auto simp: qualifyImpressions_def and_then_Inr_iff)
  from k obtain ss m sg db2 where ss: "map_res normalizeSession (filter (\<lambda>e. \<not> is_impression_event e) ?es) = Inr ss"
      "fold_res (submit_session parse mathExp) ss (0, False, db1) = Inr (m, sg, db2)"
    and last: "(if sg then and_then (coordinatorRequest ''session_outcome'' now (ev_update db2))
        (\<lambda>u. Inr (m, db2\<lparr>ev_update := u\<rparr>)) else Inr (m, db2)) = Inr (k, db')"
    by (auto simp: submitSessions_def and_then_Inr_iff)
  have "db' = db2 \<or> (\<exists>u. db' = db2\<lparr>ev_update := u\<rparr>)"
    using last by (auto simp: and_then_Inr_iff split: if_splits)
  with that [OF pre qs(1) qs(2) ss] show ?thesis by blast
qed

lemma events_retry:
  assumes "submitEventsBody parse mathExp payload now db = (db', Inr n)"
  shows "submitEventsBody parse mathExp payload now' db' = (db', Inr 0)"
  using assms
proof (rule submitEventsBody_Inr)
  fix qs ss q db1 m sg db2
  assume arr: "is_arr (jget (jget payload ''args'') ''entries'')"
    and objs: "find (\<lambda>e. \<not> is_obj e) (arr_of (jget (jget payload ''args'') ''entries'')) = None"
    and qs: "map_res normalize_impression (filter is_impression_event (arr_of (jget (jget payload ''args'') ''entries''))) = Inr qs"
    and qloop: "fold_res qualify_one qs (0, db) = Inr (q, db1)"
    and ss: "map_res normalizeSession (filter (\<lambda>e. \<not> is_impression_event e) (arr_of (jget (jget payload ''args'') ''entries''))) = Inr ss"
    and sloop: "fold_res (submit_session parse mathExp) ss (0, False, db1) = Inr (m, sg, db2)"
    and db': "db' = db2 \<or> (\<exists>u. db' = db2\<lparr>ev_update := u\<rparr>)"
  have items: "impression_items db' = impression_items db1"
    using session_frame_loop [OF sloop] db' by (auto simp: session_frame_def)
  have "fold_res qualify_one qs (0, db') = Inr (0, db')"
    by (rule qualify_store.batch_retry [OF qloop]) (simp add: items)
  moreover have "fold_res (submit_session parse mathExp) ss (0, False, db') = Inr (0, False, db')"
    by (rule session_store.batch_retry [OF sloop]) (use db' in \<open>auto simp: session_dropped_def\<close>)
  ultimately show ?thesis
    using arr objs qs ss by (simp add: submitEventsBody_def qualifyImpressions_def submitSessions_def)
qed

section \<open>Reachable states\<close>

definition shown_items :: "impression \<Rightarrow> string list \<Rightarrow> impression_item list" where
  "shown_items i scenes = map (\<lambda>sc. \<lparr>ii_impression_id = imp_id i, ii_scene_id = sc, ii_qualified_at_ms = None\<rparr>) scenes"

text \<open>Slates record what they show; feedback and syncs change the tables read here.\<close>

inductive event_step :: "(string \<Rightarrow> jVal res) \<Rightarrow> (float64 \<Rightarrow> float64) \<Rightarrow> events_db \<Rightarrow> events_db \<Rightarrow> bool"
  for parse mathExp where
  submitted: "submitEventsBody parse mathExp payload now db = (db', r) \<Longrightarrow> event_step parse mathExp db db'"
| shown: "imp_id i \<notin> imp_id ` set (impressions db) \<Longrightarrow> distinct scenes \<Longrightarrow>
    event_step parse mathExp db (db\<lparr>impressions := impressions db @ [i],
      impression_items := impression_items db @ shown_items i scenes\<rparr>)"
| elsewhere: "event_step parse mathExp db (db\<lparr>ev_feedbacks := fs, ev_scenes := ev_scenes db @ ss, ev_update := u\<rparr>)"

definition item_key :: "impression_item \<Rightarrow> string \<times> string" where
  "item_key it = (ii_impression_id it, ii_scene_id it)"

definition qualified_entries :: "events_db \<Rightarrow> (string \<times> string \<times> int) set" where
  "qualified_entries db = {(ii_impression_id it, ii_scene_id it, t) | it t.
     it \<in> set (impression_items db) \<and> ii_qualified_at_ms it = Some t}"

definition history_entries :: "events_db \<Rightarrow> (string \<times> string \<times> int) set" where
  "history_entries db = (\<lambda>h. (rh_impression_id h, rh_scene_id h, rh_shown_at_ms h)) ` set (rec_history db)"

definition qual_inv :: "events_db \<Rightarrow> bool" where
  "qual_inv db \<longleftrightarrow> unique_key imp_id (impressions db) \<and> unique_key item_key (impression_items db) \<and>
     (\<forall>it \<in> set (impression_items db). ii_impression_id it \<in> imp_id ` set (impressions db)) \<and>
     unique_key rh_id (rec_history db) \<and> history_entries db = qualified_entries db \<and>
     (\<forall>h \<in> set (rec_history db). \<exists>i \<in> set (impressions db). imp_id i = rh_impression_id h \<and> imp_lane i = rh_lane h)"

lemma qualified_update:
  assumes "unique_key item_key items" "it \<in> set items" "unqualified_item q it"
  shows "{(ii_impression_id x, ii_scene_id x, u) | x u.
      x \<in> set (update_where (unqualified_item q) (\<lambda>x. x\<lparr>ii_qualified_at_ms := Some t\<rparr>) items) \<and> ii_qualified_at_ms x = Some u} =
    insert (q_impression_id q, q_scene_id q, t)
      {(ii_impression_id x, ii_scene_id x, u) | x u. x \<in> set items \<and> ii_qualified_at_ms x = Some u}" (is "?L = ?R")
proof
  show "?L \<subseteq> ?R" by (auto simp: set_update_where unqualified_item_def)
  have in_upd: "(if unqualified_item q x then x\<lparr>ii_qualified_at_ms := Some t\<rparr> else x) \<in>
      set (update_where (unqualified_item q) (\<lambda>x. x\<lparr>ii_qualified_at_ms := Some t\<rparr>) items)" if "x \<in> set items" for x
    using that unfolding update_where_def set_map by (rule imageI)
  show "?R \<subseteq> ?L"
  proof
    fix z assume "z \<in> ?R"
    then consider "z = (q_impression_id q, q_scene_id q, t)"
      | x u where "z = (ii_impression_id x, ii_scene_id x, u)" "x \<in> set items" "ii_qualified_at_ms x = Some u"
      by auto
    then show "z \<in> ?L"
    proof cases
      case 1
      have "it\<lparr>ii_qualified_at_ms := Some t\<rparr> \<in>
          set (update_where (unqualified_item q) (\<lambda>x. x\<lparr>ii_qualified_at_ms := Some t\<rparr>) items)"
        using in_upd [OF assms(2)] assms(3) by simp
      with 1 assms(3) show ?thesis
        by (intro CollectI exI [of _ "it\<lparr>ii_qualified_at_ms := Some t\<rparr>"] exI [of _ t]) (simp add: unqualified_item_def)
    next
      case 2
      then have "\<not> unqualified_item q x" by (simp add: unqualified_item_def)
      with in_upd [OF 2(2)] 2 show ?thesis by auto
    qed
  qed
qed

lemma qualify_one_inv:
  assumes inv: "qual_inv db" and run: "qualify_one q (n, db) = Inr (n', db')"
  shows "qual_inv db'"
  using qualify_one_Inr [OF run]
proof (elim disjE exE conjE)
  assume "db' = db" with inv show ?thesis by simp
next
  fix i
  let ?upd = "update_where (unqualified_item q) (\<lambda>it. it\<lparr>ii_qualified_at_ms := Some (q_occurred_at_ms q)\<rparr>) (impression_items db)"
  assume i: "lookup_row imp_id (q_impression_id q) (impressions db) = Some i"
    and some: "\<exists>it \<in> set (impression_items db). unqualified_item q it"
    and fresh: "rh_id (history_row q (imp_lane i)) \<notin> rh_id ` set (rec_history db)"
    and db': "db' = db\<lparr>impression_items := ?upd, rec_history := rec_history db @ [history_row q (imp_lane i)]\<rparr>"
  have uniq: "unique_key item_key (impression_items db)" using inv by (simp add: qual_inv_def)
  have "qualified_entries db' = insert (q_impression_id q, q_scene_id q, q_occurred_at_ms q) (qualified_entries db)"
  proof -
    obtain it where "it \<in> set (impression_items db)" "unqualified_item q it" using some by blast
    from qualified_update [OF uniq this] show ?thesis by (simp add: qualified_entries_def db')
  qed
  moreover have "history_entries db' = insert (q_impression_id q, q_scene_id q, q_occurred_at_ms q) (history_entries db)"
    by (simp add: history_entries_def db' history_row_def)
  moreover have "unique_key item_key ?upd"
    by (rule unique_key_update_where [OF uniq]) (simp add: item_key_def)
  moreover have "\<forall>it \<in> set ?upd. ii_impression_id it \<in> imp_id ` set (impressions db)"
    using inv by (simp add: ball_update_where qual_inv_def)
  moreover have "rh_impression_id (history_row q (imp_lane i)) = imp_id i" "rh_lane (history_row q (imp_lane i)) = imp_lane i"
    using lookup_row_Some [OF i] by (simp_all add: history_row_def)
  ultimately show ?thesis
    using inv fresh lookup_row_Some [OF i] unfolding qual_inv_def by (auto simp: db')
qed

text \<open>The recorded outcomes: checked values, each of a recorded session.\<close>

definition session_inv :: "events_db \<Rightarrow> bool" where
  "session_inv db \<longleftrightarrow> unique_key ps_session_id (play_sessions db) \<and> unique_key be_event_id (behavior_events db) \<and>
     (\<forall>s \<in> set (play_sessions db). session_check s \<and> (\<forall>i. ps_impression_id s = Some i \<longrightarrow> i \<in> imp_id ` set (impressions db))) \<and>
     (\<forall>b \<in> set (behavior_events db). event_check b \<and> be_session_id b \<in> ps_session_id ` set (play_sessions db))"

lemma insertSignal_inv:
  "session_inv db \<Longrightarrow> insertSignal e sc se sig db = Inr (b, db') \<Longrightarrow> session_inv db'"
  by (auto simp: insertSignal_def Let_def session_inv_def event_row_def split: if_splits)

lemma insertReplacement_inv:
  "session_inv db \<Longrightarrow> insertReplacement parse s db = Inr (b, db') \<Longrightarrow> session_inv db'"
  by (auto simp: insertReplacement_def and_then_Inr_iff Let_def dest: insertSignal_inv split: option.splits)

lemma view_signal_inv:
  "session_inv db \<Longrightarrow> view_signal mathExp s db = Inr (b, db') \<Longrightarrow> session_inv db'"
  by (auto simp: view_signal_def dest: insertSignal_inv split: if_splits option.splits)

lemma record_session_inv:
  assumes inv: "session_inv db" and run: "record_session parse mathExp s (n, sg, db) = Inr (n', sg', db')"
  shows "session_inv db'"
proof (cases "session_dropped s db")
  case True
  with assms show ?thesis by (simp add: record_session_dropped)
next
  case False
  let ?db1 = "db\<lparr>play_sessions := play_sessions db @ [session_row s]\<rparr>"
  obtain v db2 r where v: "view_signal mathExp s ?db1 = Inr (v, db2)" and r: "insertReplacement parse s db2 = Inr (r, db')"
    using run record_session_new [OF False] by (auto simp: and_then_Inr_iff)
  have "ps_session_id (session_row s) = sessionID s" "ps_impression_id (session_row s) = impressionID s"
    by (simp_all add: session_row_def)
  with False inv have "session_inv ?db1"
    unfolding session_inv_def session_dropped_def by auto
  then show ?thesis using view_signal_inv [OF _ v] insertReplacement_inv [OF _ r] by blast
qed


lemma submit_session_inv:
  assumes "session_inv (snd (snd t))" "submit_session parse mathExp s t = Inr t'"
  shows "session_inv (snd (snd t'))"
  using record_session_inv [of "snd (snd t)" parse mathExp _ "fst t" "fst (snd t)" "fst t'" "fst (snd t')" "snd (snd t')"] assms
  by (simp add: submit_session_def split: if_splits)

definition events_inv :: "events_db \<Rightarrow> bool" where
  "events_inv db \<longleftrightarrow> qual_inv db \<and> session_inv db"

lemma qual_inv_cong:
  "impressions a = impressions b \<Longrightarrow> impression_items a = impression_items b \<Longrightarrow> rec_history a = rec_history b \<Longrightarrow>
     qual_inv a = qual_inv b"
  by (simp add: qual_inv_def qualified_entries_def history_entries_def)

lemma session_inv_cong:
  "impressions a = impressions b \<Longrightarrow> play_sessions a = play_sessions b \<Longrightarrow> behavior_events a = behavior_events b \<Longrightarrow>
     session_inv a = session_inv b"
  by (simp add: session_inv_def)

lemma qualify_loop_inv:
  assumes "fold_res qualify_one qs (n, db) = Inr (n', db')" "events_inv db"
  shows "events_inv db'"
proof -
  have "qual_inv (snd (n', db')) \<and> play_sessions (snd (n', db')) = play_sessions db \<and>
      behavior_events (snd (n', db')) = behavior_events db \<and> impressions (snd (n', db')) = impressions db"
  proof (rule fold_res_invariant [where P = "\<lambda>t. qual_inv (snd t) \<and> play_sessions (snd t) = play_sessions db \<and>
      behavior_events (snd t) = behavior_events db \<and> impressions (snd t) = impressions db", OF assms(1)])
    show "qual_inv (snd (n, db)) \<and> play_sessions (snd (n, db)) = play_sessions db \<and>
      behavior_events (snd (n, db)) = behavior_events db \<and> impressions (snd (n, db)) = impressions db"
      using assms(2) by (simp add: events_inv_def)
  next
    fix q t t' assume pre: "qual_inv (snd t) \<and> play_sessions (snd t) = play_sessions db \<and>
      behavior_events (snd t) = behavior_events db \<and> impressions (snd t) = impressions db"
      and run: "qualify_one q t = Inr t'"
    have run': "qualify_one q (fst t, snd t) = Inr (fst t', snd t')" using run by simp
    show "qual_inv (snd t') \<and> play_sessions (snd t') = play_sessions db \<and>
      behavior_events (snd t') = behavior_events db \<and> impressions (snd t') = impressions db"
      using qualify_one_inv [OF _ run'] qualify_one_Inr [OF run'] pre by auto
  qed
  then show ?thesis
    using assms(2) session_inv_cong [of db' db] by (simp add: events_inv_def)
qed

lemma session_loop_inv:
  assumes "fold_res (submit_session parse mathExp) ss (n, sg, db) = Inr (n', sg', db')" "events_inv db"
  shows "events_inv db'"
proof -
  have "session_inv (snd (snd (n', sg', db')))"
    by (rule fold_res_invariant [where P = "\<lambda>t. session_inv (snd (snd t))", OF assms(1)])
      (use assms(2) submit_session_inv in \<open>auto simp: events_inv_def\<close>)
  moreover have "qual_inv db'"
    using session_frame_loop [OF assms(1)] assms(2) qual_inv_cong [of db' db]
    by (simp add: session_frame_def events_inv_def)
  ultimately show ?thesis by (simp add: events_inv_def)
qed

lemma submit_events_inv:
  assumes run: "submitEventsBody parse mathExp payload now db = (db', r)" and inv: "events_inv db"
  shows "events_inv db'"
proof (cases "db' = db")
  case True
  with inv show ?thesis by simp
next
  case False
  let ?es = "arr_of (jget (jget payload ''args'') ''entries'')"
  from run False obtain q db1 where q: "qualifyImpressions (filter is_impression_event ?es) db = Inr (q, db1)"
    and rest: "db' = db1 \<or> (\<exists>k. submitSessions parse mathExp (filter (\<lambda>e. \<not> is_impression_event e) ?es) now db1 = Inr (k, db'))"
    by (auto simp: submitEventsBody_def Let_def split: if_split_asm sum.split_asm option.split_asm prod.split_asm)
  have inv1: "events_inv db1"
    using q qualify_loop_inv inv by (auto simp: qualifyImpressions_def and_then_Inr_iff)
  from rest show ?thesis
  proof (elim disjE exE)
    assume "db' = db1" with inv1 show ?thesis by simp
  next
    fix k assume "submitSessions parse mathExp (filter (\<lambda>e. \<not> is_impression_event e) ?es) now db1 = Inr (k, db')"
    then obtain ss m sg db2 where loop: "fold_res (submit_session parse mathExp) ss (0, False, db1) = Inr (m, sg, db2)"
      and last: "(if sg then and_then (coordinatorRequest ''session_outcome'' now (ev_update db2))
        (\<lambda>u. Inr (m, db2\<lparr>ev_update := u\<rparr>)) else Inr (m, db2)) = Inr (k, db')"
      by (auto simp: submitSessions_def and_then_Inr_iff)
    have "db' = db2 \<or> (\<exists>u. db' = db2\<lparr>ev_update := u\<rparr>)"
      using last by (auto simp: and_then_Inr_iff split: if_splits)
    then have "impressions db' = impressions db2" "impression_items db' = impression_items db2"
      "rec_history db' = rec_history db2" "play_sessions db' = play_sessions db2"
      "behavior_events db' = behavior_events db2" by auto
    then show ?thesis
      using session_loop_inv [OF loop inv1] qual_inv_cong [of db' db2] session_inv_cong [of db' db2]
      by (simp add: events_inv_def)
  qed
qed

lemma shown_inv:
  assumes inv: "events_inv db" and new: "imp_id i \<notin> imp_id ` set (impressions db)" and "distinct scenes"
  shows "events_inv (db\<lparr>impressions := impressions db @ [i],
      impression_items := impression_items db @ shown_items i scenes\<rparr>)" (is "events_inv ?db")
proof -
  have keys: "map item_key (shown_items i scenes) = map (Pair (imp_id i)) scenes"
    by (simp add: shown_items_def item_key_def)
  have own: "ii_impression_id it = imp_id i" "ii_qualified_at_ms it = None" if "it \<in> set (shown_items i scenes)" for it
    using that by (auto simp: shown_items_def)
  have "unique_key item_key (impression_items db @ shown_items i scenes)"
  proof -
    have "distinct (map item_key (shown_items i scenes))"
      using assms(3) unfolding keys by (simp add: distinct_map inj_on_def)
    moreover have "item_key ` set (impression_items db) \<inter> item_key ` set (shown_items i scenes) = {}"
      using inv new own by (fastforce simp: events_inv_def qual_inv_def item_key_def)
    ultimately show ?thesis
      using inv by (simp add: events_inv_def qual_inv_def unique_key_def)
  qed
  moreover have "qualified_entries ?db = qualified_entries db"
    using own(2) by (force simp: qualified_entries_def)
  moreover have "history_entries ?db = history_entries db"
    by (simp add: history_entries_def)
  ultimately have "qual_inv ?db"
    using inv new own(1) unfolding events_inv_def qual_inv_def by auto
  moreover have "session_inv ?db"
    using inv by (auto simp: events_inv_def session_inv_def)
  ultimately show ?thesis by (simp add: events_inv_def)
qed

definition no_events :: "events_db \<Rightarrow> bool" where
  "no_events db \<longleftrightarrow> impressions db = [] \<and> impression_items db = [] \<and> rec_history db = [] \<and>
     play_sessions db = [] \<and> behavior_events db = []"

lemma event_step_inv: "event_step parse mathExp db db' \<Longrightarrow> events_inv db \<Longrightarrow> events_inv db'"
proof (induction rule: event_step.induct)
  case (elsewhere db fs ss u)
  then show ?case by (simp add: events_inv_def qual_inv_def session_inv_def qualified_entries_def history_entries_def)
qed (auto intro: submit_events_inv shown_inv)

lemma no_events_inv: "no_events db \<Longrightarrow> events_inv db"
  by (simp add: no_events_def events_inv_def qual_inv_def session_inv_def unique_key_def
      qualified_entries_def history_entries_def)

interpretation event_run: transition_system no_events "event_step parse mathExp" events_inv "\<lambda>_ _. True"
  for parse mathExp
  by unfold_locales (auto intro: no_events_inv event_step_inv)


lemma viewing_check:
  assumes "nonneg_float active" and "\<And>x. nonpos_arg x \<Longrightarrow> unit_float (mathExp x)" and "0 \<le> endedAt"
    and "viewingOutcome mathExp active endedAt = Some sig"
  shows "event_check (event_row eventID scene session sig)"
    and "\<exists>s r. sig_value sig = Fin s r \<and> s = float_less active (Fin False 30) \<and> 0 \<le> r \<and> r \<le> (if s then 1/8 else 1/2)"
proof -
  obtain s r where v: "viewing_value mathExp active = Fin s r" "s = float_less active (Fin False 30)" "0 \<le> r"
      "r \<le> (if s then 1/8 else 1/2)"
    using viewing_value_bounds [OF assms(1), of mathExp] assms(2) by blast
  have sig: "sig_value sig = Fin s r" "sig_confidence sig = float_of_rat (80/100)" "sig_observed_at_ms sig = endedAt"
    using assms(4) v(1) by (auto simp: viewingOutcome_def Let_def split: if_splits)
  have conf: "float_of_rat (80/100) = Fin False (round_mag (80/100))" "0 \<le> round_mag (80/100 :: rat)" "round_mag (80/100) \<le> 1"
    using round64_small(1) [of "80/100" 0 False] round_mag_nonneg [of "80/100"] round_mag_le_pow2 [of "80/100" 0]
    by (simp_all add: float_of_rat_def)
  have "float_le (Fin True 1) (Fin s r)" "float_le (Fin s r) (Fin False 1)"
    using v(3,4) by (auto simp: float_le_def split: if_splits)
  moreover have "float_le (Fin False 0) (float_of_rat (80/100))" "float_le (float_of_rat (80/100)) (Fin False 1)"
    using conf by (auto simp: float_le_def)
  ultimately show "event_check (event_row eventID scene session sig)"
    using assms(3) by (simp add: event_check_def event_row_def sig)
  show "\<exists>s r. sig_value sig = Fin s r \<and> s = float_less active (Fin False 30) \<and> 0 \<le> r \<and> r \<le> (if s then 1/8 else 1/2)"
    using v(2-4) sig(1) by blast
qed

section \<open>Properties\<close>

text \<open>
  C22. An impression is counted once: in every reachable state the items qualified at a time are exactly
  the entries of the recommendation history with that time, and every entry names the lane its
  impression was shown in.
\<close>

theorem qualified_impressions_counted_once:
  assumes "reachable no_events (event_step parse mathExp) db"
  shows "((\<exists>it \<in> set (impression_items db). ii_impression_id it = i \<and> ii_scene_id it = sc \<and> ii_qualified_at_ms it = Some t) \<longleftrightarrow>
      (\<exists>h \<in> set (rec_history db). rh_impression_id h = i \<and> rh_scene_id h = sc \<and> rh_shown_at_ms h = t)) \<and>
    unique_key item_key (impression_items db) \<and> unique_key rh_id (rec_history db) \<and>
    (\<forall>h \<in> set (rec_history db). \<exists>m \<in> set (impressions db). imp_id m = rh_impression_id h \<and> imp_lane m = rh_lane h)"
proof -
  have inv: "qual_inv db"
    using event_run.reachable_inv [OF assms] by (simp add: events_inv_def)
  then have "(i, sc, t) \<in> qualified_entries db \<longleftrightarrow> (i, sc, t) \<in> history_entries db"
    by (simp add: qual_inv_def)
  then have "(\<exists>it \<in> set (impression_items db). ii_impression_id it = i \<and> ii_scene_id it = sc \<and> ii_qualified_at_ms it = Some t) \<longleftrightarrow>
      (\<exists>h \<in> set (rec_history db). rh_impression_id h = i \<and> rh_scene_id h = sc \<and> rh_shown_at_ms h = t)"
    by (auto simp: qualified_entries_def history_entries_def image_iff)
  with inv show ?thesis by (simp add: qual_inv_def)
qed

definition events0 :: events_db where
  "events0 = \<lparr>impressions = [], impression_items = [],
     rec_history = [], play_sessions = [], behavior_events = [], ev_feedbacks = [], ev_scenes = [''7''],
     ev_update = initial_update_state\<rparr>"

lemma events0_simps [simp]:
  "impressions events0 = []" "impression_items events0 = []" "play_sessions events0 = []"
  "behavior_events events0 = []" "ev_scenes events0 = [''7'']" "ev_update events0 = initial_update_state"
  by (simp_all add: events0_def)

definition shown_db :: events_db where
  "shown_db = events0\<lparr>impressions := [\<lparr>imp_id = ''i'', imp_requested_at_ms = 1, imp_lane = ''safe''\<rparr>],
     impression_items := [\<lparr>ii_impression_id = ''i'', ii_scene_id = ''7'', ii_qualified_at_ms = None\<rparr>]\<rparr>"

definition qualify_payload :: jVal where
  "qualify_payload = JObj [(''args'', JObj [(''entries'', JArr [JObj [(''event_type'', JStr ''qualified_impression''),
     (''impression_id'', JStr ''i''), (''scene_id'', JStr ''7''), (''occurred_at_ms'', jvInt 5)]])])]"

lemma shown_reachable: "reachable no_events (event_step parse mathExp) shown_db"
proof -
  let ?i = "\<lparr>imp_id = ''i'', imp_requested_at_ms = 1, imp_lane = ''safe''\<rparr>"
  let ?db0 = events0
  have eq: "?db0\<lparr>impressions := impressions ?db0 @ [?i], impression_items := impression_items ?db0 @ shown_items ?i [''7'']\<rparr> = shown_db"
    by (simp add: shown_db_def shown_items_def)
  have "event_step parse mathExp ?db0 shown_db"
    using event_step.shown [of ?i ?db0 "[''7'']" parse mathExp] unfolding eq by (simp add: shown_db_def)
  moreover have "no_events ?db0" by (simp add: no_events_def events0_def)
  ultimately show ?thesis
    using reachable_step [of no_events "event_step parse mathExp" ?db0 shown_db]
      reachable_init [of no_events ?db0 "event_step parse mathExp"] by simp
qed

lemma qualify_run:
  "\<exists>db. submitEventsBody parse mathExp qualify_payload 9 shown_db = (db, Inr 1) \<and>
     impression_items db = [\<lparr>ii_impression_id = ''i'', ii_scene_id = ''7'', ii_qualified_at_ms = Some 5\<rparr>]"
proof -
  have "normalize_impression (JObj [(''event_type'', JStr ''qualified_impression''),
     (''impression_id'', JStr ''i''), (''scene_id'', JStr ''7''), (''occurred_at_ms'', jvInt 5)]) =
     Inr \<lparr>q_impression_id = ''i'', q_scene_id = ''7'', q_occurred_at_ms = 5\<rparr>"
    by (simp add: normalize_impression_def pythonStrOrEmpty_def jget_JObj pythonIntErrOr_jvInt min_int64_def max_int64_def)
  then show ?thesis
    by (simp add: submitEventsBody_def qualify_payload_def jget_JObj is_impression_event_def qualifyImpressions_def
        submitSessions_def shown_db_def events0_def qualify_one_def update_checked_def item_check_def unqualified_item_def
        affected_rows_def lookup_row_def insert_row_def recommendation_check_def history_row_def update_where_def)
qed

theorem qualified_impressions_counted_once_witness:
  "\<exists>db :: events_db. \<exists>h \<in> set (rec_history db). rh_impression_id h = ''i'' \<and> rh_scene_id h = ''7'' \<and> rh_shown_at_ms h = 5"
proof -
  obtain db where run: "submitEventsBody (\<lambda>_. Inr JNull) (\<lambda>x. x) qualify_payload 9 shown_db = (db, Inr 1)"
    and items: "impression_items db = [\<lparr>ii_impression_id = ''i'', ii_scene_id = ''7'', ii_qualified_at_ms = Some 5\<rparr>]"
    using qualify_run by blast
  have "reachable no_events (event_step (\<lambda>_. Inr JNull) (\<lambda>x. x)) db"
    by (rule reachable_step [OF shown_reachable]) (rule event_step.submitted [OF run])
  from qualified_impressions_counted_once [OF this, of "''i''" "''7''" 5] items show ?thesis by auto
qed


definition short_session :: session_input where
  "short_session = \<lparr>sessionID = ''s'', sceneID = ''7'', startedAtMs = 10, endedAtMs = 20,
     activeSeconds = Fin False 0, origin = ''stash'', sourceRoute = [], startPositionSeconds = Fin False 0,
     maximumPositionSeconds = Fin False (1/2), finalPositionSeconds = Fin False 0, playedRanges = [], seekDestinations = [],
     nearbyMarkerIDs = [], naturalCompletion = False, impressionID = None, impressionProvenance = [], s_lane = None,
     impressionPosition = None, modelID = None\<rparr>"


lemma short_outcome: "\<exists>sig. viewingOutcome (\<lambda>_. Fin False 0) (Fin False 0) t = Some sig"
proof -
  have one: "round64 False 1 = Fin False 1"
    using round64_small(1) [of 1 0 False] round_mag_exact [of 1 1 0] by simp
  have zero: "round64 False 0 = Fin False 0"
    using round64_small(1) [of 0 0 False] by simp
  define c where "c = round_mag (1/10 :: rat)"
  have c: "1/16 \<le> c" "c \<le> 1"
    using round_mag_ge_pow2 [of "-4" "1/10"] round_mag_le_pow2 [of "1/10" 0] by (simp_all add: c_def pow2_def)
  have tenth: "float_of_rat (- (1/10)) = Fin True c"
    using round64_small(1) [of "1/10" 0 True] by (simp add: float_of_rat_def c_def)
  define d where "d = round_mag c"
  have d: "1/16 \<le> d" "round64 True c = Fin True d"
    using round_mag_ge_pow2 [of "-4" c] c round64_small(1) [of c 0 True] by (simp_all add: d_def pow2_def)
  have v: "viewing_value (\<lambda>_. Fin False 0) (Fin False 0) = Fin True d"
    by (simp add: viewing_value_def zero one float_sub_def tenth d(2))
  define s where "s = round_mag (1 / 10 ^ 12 :: rat)"
  have s: "float_of_rat (1 / 10 ^ 12) = Fin False s" "s \<le> 1/32"
    using round64_small(1) [of "1 / 10 ^ 12" "-5" False] round_mag_le_pow2 [of "1 / 10 ^ 12" "-5"]
    by (simp_all add: float_of_rat_def s_def pow2_def)
  have "\<not> float_less (mathAbs (Fin True d)) (float_of_rat (1 / 10 ^ 12))"
    using d(1) s by (simp add: mathAbs_def)
  then show ?thesis by (simp add: viewingOutcome_def v Let_def)
qed



text \<open>
  The viewing outcome of a session is a penalty of at most an eighth below thirty seconds and a
  reward of at most one half above, so the CHECK of its table never drops it; \<open>exp\<close> need only map
  an argument that is not positive into the unit interval.
\<close>

theorem viewingOutcome_bounds:
  assumes "nonneg_float active" and "\<And>x. nonpos_arg x \<Longrightarrow> unit_float (mathExp x)" and "0 \<le> endedAt"
    and "viewingOutcome mathExp active endedAt = Some sig"
  shows "event_check (event_row eventID scene session sig) \<and>
    - 1/8 \<le> float_val (sig_value sig) \<and> float_val (sig_value sig) \<le> 1/2 \<and>
    (float_less active (Fin False 30) \<longrightarrow> float_val (sig_value sig) \<le> 0) \<and>
    (\<not> float_less active (Fin False 30) \<longrightarrow> 0 \<le> float_val (sig_value sig))"
proof -
  obtain s r where v: "sig_value sig = Fin s r" "s = float_less active (Fin False 30)" "0 \<le> r" "r \<le> (if s then 1/8 else 1/2)"
    using viewing_check(2) [OF assms] by blast
  have "- 1/8 \<le> float_val (Fin s r)" "float_val (Fin s r) \<le> 1/2" "s \<longrightarrow> float_val (Fin s r) \<le> 0"
    "\<not> s \<longrightarrow> 0 \<le> float_val (Fin s r)"
    using v(3,4) by (cases s; simp)+
  with viewing_check(1) [OF assms] show ?thesis unfolding v(1) v(2) by blast
qed

theorem viewingOutcome_bounds_witness:
  "\<exists>sig. viewingOutcome (\<lambda>_. Fin False 0) (Fin False 0) 7 = Some sig \<and> - 1/8 \<le> float_val (sig_value sig) \<and>
     float_val (sig_value sig) \<le> 0"
proof -
  obtain sig where sig: "viewingOutcome (\<lambda>_. Fin False 0) (Fin False 0) 7 = Some sig"
    using short_outcome by blast
  have "nonneg_float (Fin False 0)" "unit_float (Fin False 0)"
    by (auto simp: nonneg_float_def unit_float_def)
  from viewingOutcome_bounds [OF this(1) _ _ sig] this(2) show ?thesis using sig by simp
qed

text \<open>
  A session without an impression is attributed to the most recent impression that showed its
  scene within the thirty minutes before it started, and to none exactly when there is no such impression.
\<close>

theorem attributeImpression_latest:
  assumes "impressionID s = None"
  shows "(impressionID (attributeImpression s db) = None \<longleftrightarrow> attribution_candidates s db = []) \<and>
    (\<forall>i. impressionID (attributeImpression s db) = Some i \<longrightarrow>
      (\<exists>m \<in> set (attribution_candidates s db). imp_id m = i \<and>
        (\<forall>m' \<in> set (attribution_candidates s db).
          (imp_requested_at_ms m', imp_id m') \<le> (imp_requested_at_ms m, imp_id m)))) \<and>
    (\<forall>m. m \<in> set (attribution_candidates s db) \<longleftrightarrow> m \<in> set (impressions db) \<and>
      imp_requested_at_ms m \<le> startedAtMs s \<and> startedAtMs s \<le> imp_requested_at_ms m + 1800000 \<and>
      (\<exists>it \<in> set (impression_items db). ii_impression_id it = imp_id m \<and> ii_scene_id it = sceneID s))"
proof -
  define lt where "lt a b \<longleftrightarrow> imp_requested_at_ms b < imp_requested_at_ms a \<or>
    (imp_requested_at_ms a = imp_requested_at_ms b \<and> imp_id b < imp_id a)" for a b :: impression
  have attr: "attributeImpression s db = (case first_by lt (attribution_candidates s db) of None \<Rightarrow> s
      | Some i \<Rightarrow> s\<lparr>impressionID := Some (imp_id i), impressionProvenance := ''inferred''\<rparr>)"
    unfolding attributeImpression_def lt_def ..
  have least: "\<not> lt r m" if "first_by lt (attribution_candidates s db) = Some m" "r \<in> set (attribution_candidates s db)" for m r
    by (rule first_by_least [OF _ _ that]) (auto simp: lt_def)
  have "m \<in> set (attribution_candidates s db) \<longleftrightarrow> m \<in> set (impressions db) \<and>
      imp_requested_at_ms m \<le> startedAtMs s \<and> startedAtMs s \<le> imp_requested_at_ms m + 1800000 \<and>
      (\<exists>it \<in> set (impression_items db). ii_impression_id it = imp_id m \<and> ii_scene_id it = sceneID s)" for m
    by (auto simp: attribution_candidates_def impressionAttributionWindowMs_def) metis
  moreover have "impressionID (attributeImpression s db) = None \<longleftrightarrow> attribution_candidates s db = []"
    using assms first_by_None [of lt "attribution_candidates s db"] by (auto simp: attr split: option.splits)
  moreover have "\<exists>m \<in> set (attribution_candidates s db). imp_id m = i \<and>
        (\<forall>m' \<in> set (attribution_candidates s db). (imp_requested_at_ms m', imp_id m') \<le> (imp_requested_at_ms m, imp_id m))"
    if some: "impressionID (attributeImpression s db) = Some i" for i
  proof -
    obtain m where m: "first_by lt (attribution_candidates s db) = Some m" "imp_id m = i"
      using some assms by (auto simp: attr split: option.splits)
    have "(imp_requested_at_ms m', imp_id m') \<le> (imp_requested_at_ms m, imp_id m)"
      if "m' \<in> set (attribution_candidates s db)" for m'
      using least [OF m(1) that] by (auto simp: lt_def)
    with m first_by_in [OF m(1)] show ?thesis by blast
  qed
  ultimately show ?thesis by blast
qed

theorem attributeImpression_latest_witness:
  "\<exists>m \<in> set (attribution_candidates short_session shown_db). imp_id m = ''i'' \<and>
     impressionID (attributeImpression short_session shown_db) = Some ''i''"
proof -
  have "impressionID short_session = None" by (simp add: short_session_def)
  moreover have "impressionID (attributeImpression short_session shown_db) = Some ''i''"
    by (simp add: attributeImpression_def attribution_candidates_def short_session_def shown_db_def
        impressionAttributionWindowMs_def)
  ultimately show ?thesis using attributeImpression_latest [of short_session shown_db] by blast
qed

end
