(* ===== verification/External_Entities.thy ===== *)
theory External_Entities
  imports Model_Updates Api_Args "HOL-Library.Product_Lexorder"
begin

text \<open>
  StashDB entities the user acts on: the shortlist (\<open>updateShortlistBody\<close> of
  \<open>core/writes.go\<close>), the dismissals and the disliked performers of
  \<open>core/external_dismissal.go\<close>, with the pages that list them. \<open>parse\<close> is \<open>parseJSON\<close>,
  \<open>ep\<close> the selected endpoint (\<open>stashdbEndpoint\<close>).
\<close>

section \<open>Tables\<close>

record external_entity =
  ee_entity_type :: string
  ee_external_id :: string
  ee_payload_json :: string
  ee_score :: float64
  ee_sources_json :: string

record shortlist_row =
  sl_endpoint :: string
  sl_entity_type :: string
  sl_external_id :: string
  sl_payload_json :: string
  sl_score :: float64
  sl_sources_json :: string
  sl_added_at_ms :: int

record dismissal =
  dm_endpoint :: string
  dm_external_id :: string
  dm_kind :: string
  dm_created_at_ms :: int
  dm_expires_at_ms :: "int option"
  dm_payload_json :: string

record dislike =
  dl_endpoint :: string
  dl_performer_id :: string
  dl_name :: string
  dl_created_at_ms :: int

record external_db =
  entities :: "external_entity list"
  shortlist :: "shortlist_row list"
  dismissals :: "dismissal list"
  dislikes :: "dislike list"
  linked_performers :: "string list"
  ext_update :: model_update_state

definition entity_key :: "external_entity \<Rightarrow> string \<times> string" where
  "entity_key e = (ee_entity_type e, ee_external_id e)"

definition shortlist_key :: "shortlist_row \<Rightarrow> string \<times> string \<times> string" where
  "shortlist_key r = (sl_endpoint r, sl_entity_type r, sl_external_id r)"

definition shortlist_check :: "shortlist_row \<Rightarrow> bool" where
  "shortlist_check r \<longleftrightarrow> sl_entity_type r \<in> {''scene'', ''performer''} \<and> 0 \<le> sl_added_at_ms r"

definition dismissal_key :: "dismissal \<Rightarrow> string \<times> string" where
  "dismissal_key d = (dm_endpoint d, dm_external_id d)"

definition dismissal_check :: "dismissal \<Rightarrow> bool" where
  "dismissal_check d \<longleftrightarrow> dm_kind d \<in> {''not_interested'', ''not_now''} \<and> 0 \<le> dm_created_at_ms d \<and>
     (case dm_expires_at_ms d of None \<Rightarrow> True | Some t \<Rightarrow> t \<ge> dm_created_at_ms d)"

definition dislike_key :: "dislike \<Rightarrow> string \<times> string" where
  "dislike_key d = (dl_endpoint d, dl_performer_id d)"

definition dislike_check :: "dislike \<Rightarrow> bool" where
  "dislike_check d \<longleftrightarrow> dl_performer_id d \<noteq> [] \<and> 0 \<le> dl_created_at_ms d"

section \<open>The cached entity\<close>

text \<open>Whether the cached payload comes from the selected endpoint.\<close>

definition from_endpoint :: "(string \<Rightarrow> jVal res) \<Rightarrow> string \<Rightarrow> string \<Rightarrow> bool res" where
  "from_endpoint parse ep payloadJSON =
     and_then (parse payloadJSON) (\<lambda>stored.
       let source = pythonStrOrEmpty (jget stored ''curator_endpoint'');
           source' = (if source = [] then ''https://stashdb.org/graphql'' else source)
       in Inr (equal_fold (trim_right_char (CHR ''/'') source') ep))"

section \<open>Shortlist\<close>

definition updateShortlistBody ::
    "(string \<Rightarrow> jVal res) \<Rightarrow> string \<Rightarrow> jVal \<Rightarrow> int \<Rightarrow> external_db \<Rightarrow> external_db \<times> bool res" where
  "updateShortlistBody parse ep payload now db =
     (let args = jget payload ''args'';
          ty = pythonStrOrEmpty (jget args ''entity_type'');
          xid = pythonStrOrEmpty (jget args ''external_id'');
          selected = truthy (jget args ''selected'')
      in if ty \<noteq> ''scene'' \<and> ty \<noteq> ''performer'' then (db, Inl (Msg ''invalid shortlist entity type''))
         else if \<not> selected
         then (db\<lparr>shortlist := delete_where (\<lambda>r. shortlist_key r = (to_lower ep, ty, xid)) (shortlist db)\<rparr>, Inr selected)
         else case lookup_row entity_key (ty, xid) (entities db) of
           None \<Rightarrow> (db, Inl (Msg ''external entity is not in the current Expand cache''))
         | Some e \<Rightarrow>
             (case from_endpoint parse ep (ee_payload_json e) of
                Inl err \<Rightarrow> (db, Inl err)
              | Inr ok \<Rightarrow>
                  if \<not> ok then (db, Inl (Msg ([CHR ''e''] @ ''xternal entity is not in the selected endpoint'' @ [CHR 0x27] @ ''s cache'')))
                  else case upsert_checked shortlist_key shortlist_check
                      (\<lambda>old new. old\<lparr>sl_payload_json := sl_payload_json new, sl_score := sl_score new,
                        sl_sources_json := sl_sources_json new\<rparr>)
                      \<lparr>sl_endpoint = to_lower ep, sl_entity_type = ty, sl_external_id = xid,
                        sl_payload_json = ee_payload_json e, sl_score = ee_score e,
                        sl_sources_json = ee_sources_json e, sl_added_at_ms = now\<rparr> (shortlist db) of
                    Inl err \<Rightarrow> (db, Inl err)
                  | Inr rows \<Rightarrow> (db\<lparr>shortlist := rows\<rparr>, Inr selected)))"

section \<open>Dismissals\<close>

definition notNowMs :: int where "notNowMs = 30 * 86400000"

definition externalDismissalBatchLimit :: nat where "externalDismissalBatchLimit = 500"

definition dismissal_row :: "string \<Rightarrow> string \<Rightarrow> string \<Rightarrow> int \<Rightarrow> string \<Rightarrow> dismissal" where
  "dismissal_row ep xid kind now payloadJSON =
     \<lparr>dm_endpoint = to_lower ep, dm_external_id = xid, dm_kind = kind, dm_created_at_ms = now,
      dm_expires_at_ms = (if kind = ''not_now'' then Some (now + notNowMs) else None),
      dm_payload_json = payloadJSON\<rparr>"

definition dismiss_one ::
    "(string \<Rightarrow> jVal res) \<Rightarrow> string \<Rightarrow> bool \<Rightarrow> string \<Rightarrow> int \<Rightarrow> string \<Rightarrow>
     string list \<times> external_db \<Rightarrow> (string list \<times> external_db) res" where
  "dismiss_one parse ep strict kind now xid = (\<lambda>(changed, db).
     if kind = [] then Inr (changed @ [xid],
       db\<lparr>dismissals := delete_where (\<lambda>d. dismissal_key d = (to_lower ep, xid)) (dismissals db)\<rparr>)
     else case lookup_row entity_key (''scene'', xid) (entities db) of
       None \<Rightarrow> if \<not> strict then Inr (changed, db)
               else Inl (Msg ''external entity is not in the current Expand cache'')
     | Some e \<Rightarrow>
         and_then (from_endpoint parse ep (ee_payload_json e)) (\<lambda>ok.
           if \<not> ok then
             if \<not> strict then Inr (changed, db)
             else Inl (Msg ([CHR ''e''] @ ''xternal entity is not in the selected endpoint'' @ [CHR 0x27] @ ''s cache''))
           else and_then (upsert_checked dismissal_key dismissal_check (\<lambda>old new. new)
               (dismissal_row ep xid kind now (ee_payload_json e)) (dismissals db)) (\<lambda>rows.
             Inr (changed @ [xid], db\<lparr>dismissals := rows\<rparr>))))"

text \<open>The ids of a batch, or \<open>None\<close> for the single \<open>external_id\<close>.\<close>

definition batch_ids :: "jVal \<Rightarrow> string list option res" where
  "batch_ids batch =
     (if batch = JNull then Inr None
      else if \<not> is_arr batch \<or> length (arr_of batch) > externalDismissalBatchLimit
      then Inl (Msg ''external_ids must be a list of at most 500 ids'')
      else Inr (Some (map pythonStrOrEmpty (arr_of batch))))"

definition requested_kind :: "jVal \<Rightarrow> string" where
  "requested_kind payload =
     (let kind = jget (jget payload ''args'') ''kind'' in if truthy kind then pythonStrOrEmpty kind else [])"

definition updateExternalDismissalBody ::
    "(string \<Rightarrow> jVal res) \<Rightarrow> string \<Rightarrow> jVal \<Rightarrow> int \<Rightarrow> external_db \<Rightarrow> external_db \<times> string list res" where
  "updateExternalDismissalBody parse ep payload now db =
     (let args = jget payload ''args'';
          xid = pythonStrOrEmpty (jget args ''external_id'');
          kind = requested_kind payload
      in case batch_ids (jget args ''external_ids'') of
        Inl e \<Rightarrow> (db, Inl e)
      | Inr batch \<Rightarrow>
          if kind \<noteq> [] \<and> kind \<noteq> ''not_interested'' \<and> kind \<noteq> ''not_now''
          then (db, Inl (Msg ''invalid dismissal kind''))
          else (case fold_res (dismiss_one parse ep (batch = None) kind now)
                  (case batch of None \<Rightarrow> [xid] | Some ids \<Rightarrow> ids) ([], db) of
             Inl e \<Rightarrow> (db, Inl e)
           | Inr (changed, db') \<Rightarrow> (db', Inr changed)))"

definition active_dismissal :: "string \<Rightarrow> int \<Rightarrow> dismissal \<Rightarrow> bool" where
  "active_dismissal ep now d \<longleftrightarrow> dm_endpoint d = to_lower ep \<and>
     (case dm_expires_at_ms d of None \<Rightarrow> True | Some t \<Rightarrow> t > now)"

text \<open>\<open>dismissedScenes\<close>: the kind of each dismissed scene.\<close>

definition dismissedScenes :: "string \<Rightarrow> int \<Rightarrow> external_db \<Rightarrow> string \<Rightarrow> string option" where
  "dismissedScenes ep now db =
     map_of (rev (map (\<lambda>d. (dm_external_id d, dm_kind d)) (filter (active_dismissal ep now) (dismissals db))))"

definition dismissedValue :: "(string \<Rightarrow> string option) \<Rightarrow> string \<Rightarrow> jVal" where
  "dismissedValue dismissed xid = (case dismissed xid of Some kind \<Rightarrow> JStr kind | None \<Rightarrow> JNull)"

section \<open>Pages\<close>

text \<open>
  \<open>LIMIT psize OFFSET (page-1)*psize\<close>: the products are \<open>int64\<close> and wrap, and SQLite reads a
  negative offset as 0.
\<close>

definition sql_page :: "int \<Rightarrow> int \<Rightarrow> 'a list \<Rightarrow> 'a list" where
  "sql_page page psize xs = take (nat psize) (drop (nat (wrap64 ((page - 1) * psize))) xs)"

definition has_more :: "int \<Rightarrow> int \<Rightarrow> int \<Rightarrow> bool" where
  "has_more page psize n_rows \<longleftrightarrow> wrap64 (page * psize) < n_rows"

definition page_args :: "jVal \<Rightarrow> string \<Rightarrow> (int \<times> int) res" where
  "page_args payload err =
     (let args = jget payload ''args''; page = argsInt args ''page'' 1; psize = argsInt args ''page_size'' 20
      in if page < 1 \<or> psize < 1 \<or> psize > 100 then Inl (Msg err) else Inr (page, psize))"

record 'a listing =
  lst_page :: int
  lst_page_size :: int
  lst_total :: int
  lst_has_more :: bool
  lst_items :: "'a list"

definition newest_first :: "('a \<Rightarrow> int \<times> string) \<Rightarrow> 'a list \<Rightarrow> 'a list" where
  "newest_first key rows = rev (sort_key key (rev rows))"

text \<open>A listed scene: the score and the sources are those of the cached entity, if any.\<close>

record dismissed_item =
  di_id :: string
  di_score :: float64
  di_sources :: jVal
  di_payload :: jVal
  di_kind :: string
  di_created_at_ms :: int
  di_expires_at_ms :: "int option"

definition dismissal_item :: "(string \<Rightarrow> jVal res) \<Rightarrow> external_db \<Rightarrow> dismissal \<Rightarrow> dismissed_item res" where
  "dismissal_item parse db d =
     (let cached = lookup_row entity_key (''scene'', dm_external_id d) (entities db) in
      and_then (case cached of
          None \<Rightarrow> Inr (JArr [])
        | Some e \<Rightarrow> if ee_sources_json e = [] then Inr (JArr []) else parse (ee_sources_json e)) (\<lambda>sources.
      and_then (parse (dm_payload_json d)) (\<lambda>stored.
        Inr \<lparr>di_id = dm_external_id d,
             di_score = (case cached of None \<Rightarrow> Fin False 0 | Some e \<Rightarrow> ee_score e),
             di_sources = sources, di_payload = stored, di_kind = dm_kind d,
             di_created_at_ms = dm_created_at_ms d, di_expires_at_ms = dm_expires_at_ms d\<rparr>)))"

definition listed_dismissals :: "string \<Rightarrow> int \<Rightarrow> external_db \<Rightarrow> dismissal list" where
  "listed_dismissals ep now db = newest_first (\<lambda>d. (dm_created_at_ms d, dm_external_id d))
     (filter (active_dismissal ep now) (dismissals db))"

definition getExternalDismissalsBody ::
    "(string \<Rightarrow> jVal res) \<Rightarrow> string \<Rightarrow> jVal \<Rightarrow> int \<Rightarrow> external_db \<Rightarrow> dismissed_item listing res" where
  "getExternalDismissalsBody parse ep payload now db =
     and_then (page_args payload ''invalid dismissal page'') (\<lambda>(page, psize).
       let rows = listed_dismissals ep now db in
       and_then (map_res (dismissal_item parse db) (sql_page page psize rows)) (\<lambda>items.
         Inr \<lparr>lst_page = page, lst_page_size = psize, lst_total = int (length rows),
              lst_has_more = has_more page psize (int (length rows)), lst_items = items\<rparr>))"

definition listed_dislikes :: "string \<Rightarrow> external_db \<Rightarrow> dislike list" where
  "listed_dislikes ep db = newest_first (\<lambda>d. (dl_created_at_ms d, dl_performer_id d))
     (filter (\<lambda>d. dl_endpoint d = to_lower ep) (dislikes db))"

definition getExternalPerformerDislikesBody :: "string \<Rightarrow> jVal \<Rightarrow> external_db \<Rightarrow> dislike listing res" where
  "getExternalPerformerDislikesBody ep payload db =
     and_then (page_args payload ''invalid performer dislike page'') (\<lambda>(page, psize).
       let rows = listed_dislikes ep db in
       Inr \<lparr>lst_page = page, lst_page_size = psize, lst_total = int (length rows),
            lst_has_more = has_more page psize (int (length rows)), lst_items = sql_page page psize rows\<rparr>)"

section \<open>Disliked performers\<close>

definition dislikedPerformers :: "string \<Rightarrow> external_db \<Rightarrow> string \<Rightarrow> string option" where
  "dislikedPerformers ep db =
     map_of (rev (map (\<lambda>d. (dl_performer_id d, dl_name d))
       (filter (\<lambda>d. dl_endpoint d = to_lower ep) (dislikes db))))"

definition updateExternalPerformerDislikeBody ::
    "string \<Rightarrow> jVal \<Rightarrow> int \<Rightarrow> external_db \<Rightarrow> external_db \<times> bool res" where
  "updateExternalPerformerDislikeBody ep payload now db =
     (let args = jget payload ''args'';
          pid = pythonStrOrEmpty (jget args ''performer_id'');
          name0 = pythonStrOrEmpty (jget args ''name'');
          disliked = truthy (jget args ''disliked'');
          name = (if name0 = [] then pid else name0);
          mine = (\<lambda>d. dislike_key d = (to_lower ep, pid))
      in if pid = [] then (db, Inl (Msg ''performer_id is required''))
         else case (if disliked
             then and_then (upsert_checked dislike_key dislike_check (\<lambda>old new. old\<lparr>dl_name := dl_name new\<rparr>)
               \<lparr>dl_endpoint = to_lower ep, dl_performer_id = pid, dl_name = name, dl_created_at_ms = now\<rparr>
               (dislikes db)) (\<lambda>rows. Inr (True, rows))
             else Inr (affected_rows mine (dislikes db) > 0, delete_where mine (dislikes db))) of
           Inl e \<Rightarrow> (db, Inl e)
         | Inr (changed, rows) \<Rightarrow>
             let db1 = db\<lparr>dislikes := rows\<rparr> in
             if \<not> changed \<or> pid \<notin> set (linked_performers db) then (db1, Inr disliked)
             else (case coordinatorRequest ''scene_reason'' now (ext_update db1) of
                     Inl e \<Rightarrow> (db, Inl e)
                   | Inr u \<Rightarrow> (db1\<lparr>ext_update := u\<rparr>, Inr disliked)))"

section \<open>What a dismissal does\<close>

text \<open>The scenes a dismissal may be recorded for, and the row a dismissal leaves.\<close>

definition cached_at :: "(string \<Rightarrow> jVal res) \<Rightarrow> string \<Rightarrow> external_db \<Rightarrow> string \<Rightarrow> bool" where
  "cached_at parse ep db xid \<longleftrightarrow> (case lookup_row entity_key (''scene'', xid) (entities db) of
     None \<Rightarrow> False | Some e \<Rightarrow> from_endpoint parse ep (ee_payload_json e) = Inr True)"

definition put_dismissal :: "string \<Rightarrow> string \<Rightarrow> int \<Rightarrow> (string \<Rightarrow> string) \<Rightarrow> string \<Rightarrow> dismissal list \<Rightarrow> dismissal list" where
  "put_dismissal ep kind now payload_of xid rows =
     (if kind = [] then delete_where (\<lambda>d. dismissal_key d = (to_lower ep, xid)) rows
      else upsert_row dismissal_key (\<lambda>old new. new) (dismissal_row ep xid kind now (payload_of xid)) rows)"

definition cached_payload :: "external_db \<Rightarrow> string \<Rightarrow> string" where
  "cached_payload db xid =
     (case lookup_row entity_key (''scene'', xid) (entities db) of None \<Rightarrow> [] | Some e \<Rightarrow> ee_payload_json e)"

lemma dismissal_row_key [simp]: "dismissal_key (dismissal_row ep xid kind now p) = (to_lower ep, xid)"
  by (simp add: dismissal_row_def dismissal_key_def)

lemma dismiss_one_effect:
  assumes "dismiss_one parse ep strict kind now xid (ch, db) = Inr (ch', db')"
  shows "ch' = ch @ filter (\<lambda>x. kind = [] \<or> cached_at parse ep db x) [xid] \<and>
    db' = db\<lparr>dismissals := fold (put_dismissal ep kind now (cached_payload db))
      (filter (\<lambda>x. kind = [] \<or> cached_at parse ep db x) [xid]) (dismissals db)\<rparr>"
  using assms
  by (auto simp: dismiss_one_def put_dismissal_def cached_at_def cached_payload_def and_then_Inr_iff
      upsert_checked_Inr split: if_splits option.splits)

lemma cached_at_cong [simp]: "cached_at parse ep (db\<lparr>dismissals := ds\<rparr>) = cached_at parse ep db"
  and cached_payload_cong [simp]: "cached_payload (db\<lparr>dismissals := ds\<rparr>) = cached_payload db"
  by (auto simp: cached_at_def cached_payload_def)

lemma dismiss_all_effect:
  assumes "fold_res (dismiss_one parse ep strict kind now) xs (ch, db) = Inr (ch', db')"
  shows "ch' = ch @ filter (\<lambda>x. kind = [] \<or> cached_at parse ep db x) xs \<and>
    db' = db\<lparr>dismissals := fold (put_dismissal ep kind now (cached_payload db))
      (filter (\<lambda>x. kind = [] \<or> cached_at parse ep db x) xs) (dismissals db)\<rparr>"
  using assms
proof (induction xs arbitrary: ch db)
  case (Cons x xs)
  then obtain m u where step: "dismiss_one parse ep strict kind now x (ch, db) = Inr (m, u)"
    and rest: "fold_res (dismiss_one parse ep strict kind now) xs (m, u) = Inr (ch', db')"
    by (auto simp: and_then_Inr_iff)
  from Cons.IH [OF rest] dismiss_one_effect [OF step] show ?case
    by (cases "kind = [] \<or> cached_at parse ep db x") simp_all
qed simp

lemma unique_put [intro]: "unique_key dismissal_key rows \<Longrightarrow> unique_key dismissal_key (put_dismissal ep kind now p x rows)"
  by (auto simp: put_dismissal_def intro!: unique_key_delete unique_key_upsert)

lemma lookup_put:
  assumes "unique_key dismissal_key rows"
  shows "lookup_row dismissal_key k (put_dismissal ep kind now p x rows) =
    (if k = (to_lower ep, x) then (if kind = [] then None else Some (dismissal_row ep x kind now (p x)))
     else lookup_row dismissal_key k rows)"
proof (cases "kind = []")
  case True
  then show ?thesis
    using lookup_delete_where [OF assms, of k "\<lambda>d. dismissal_key d = (to_lower ep, x)"]
    by (auto simp: put_dismissal_def dest: lookup_row_Some split: option.splits)
next
  case False
  then show ?thesis by (simp add: put_dismissal_def lookup_upsert split: option.splits)
qed

lemma lookup_put_all:
  "unique_key dismissal_key rows \<Longrightarrow>
   lookup_row dismissal_key (to_lower ep, x) (fold (put_dismissal ep kind now p) xs rows) =
    (if x \<in> set xs then (if kind = [] then None else Some (dismissal_row ep x kind now (p x)))
     else lookup_row dismissal_key (to_lower ep, x) rows)"
  by (induction xs arbitrary: rows) (auto simp: lookup_put unique_put)

lemma unique_put_all: "unique_key dismissal_key rows \<Longrightarrow> unique_key dismissal_key (fold (put_dismissal ep kind now p) xs rows)"
  by (induction xs arbitrary: rows) (auto intro: unique_put)

lemma map_of_rev_filter:
  "distinct (map f xs) \<Longrightarrow> map_of (rev (map (\<lambda>d. (f d, g d)) xs)) x = map_option g (find (\<lambda>d. f d = x) xs)"
proof (induction xs)
  case (Cons a xs)
  have "find (\<lambda>d. f d = f a) xs = None"
    using Cons.prems by (simp add: find_None_iff) (metis image_eqI)
  with Cons show ?case by (auto simp: map_add_def split: option.splits)
qed simp

lemma dismissedScenes_lookup:
  assumes "unique_key dismissal_key (dismissals db)"
  shows "dismissedScenes ep t db x =
    (case lookup_row dismissal_key (to_lower ep, x) (dismissals db) of
       None \<Rightarrow> None | Some d \<Rightarrow> if active_dismissal ep t d then Some (dm_kind d) else None)"
proof -
  let ?rows = "filter (active_dismissal ep t) (dismissals db)"
  have "inj_on dm_external_id (set ?rows)"
    using assms by (auto simp: inj_on_def unique_key_def distinct_map dismissal_key_def active_dismissal_def)
  then have "distinct (map dm_external_id ?rows)"
    using assms by (simp add: distinct_map unique_key_def)
  then have "dismissedScenes ep t db x = map_option dm_kind (find (\<lambda>d. dm_external_id d = x) ?rows)"
    by (simp add: dismissedScenes_def map_of_rev_filter)
  also have "find (\<lambda>d. dm_external_id d = x) ?rows = lookup_row dismissal_key (to_lower ep, x) ?rows"
    unfolding lookup_row_def
    by (rule find_cong) (auto simp: dismissal_key_def active_dismissal_def)
  also have "?rows = delete_where (\<lambda>d. \<not> active_dismissal ep t d) (dismissals db)"
    by (simp add: delete_where_def)
  finally show ?thesis
    using lookup_delete_where [OF assms, of "(to_lower ep, x)" "\<lambda>d. \<not> active_dismissal ep t d"]
    by (simp split: option.splits)
qed
lemma dismissal_update_Inr:
  assumes "updateExternalDismissalBody parse ep payload now db = (db', Inr changed)"
  obtains ids where "batch_ids (jget (jget payload ''args'') ''external_ids'') = Inr ids"
    and "requested_kind payload \<in> {[], ''not_interested'', ''not_now''}"
    and "fold_res (dismiss_one parse ep (ids = None) (requested_kind payload) now)
      (case ids of None \<Rightarrow> [pythonStrOrEmpty (jget (jget payload ''args'') ''external_id'')] | Some xs \<Rightarrow> xs)
      ([], db) = Inr (changed, db')"
  using assms by (auto simp: updateExternalDismissalBody_def Let_def split: sum.splits if_splits)

text \<open>
  C24. An accepted dismissal hides exactly the scenes it changed: for good as
  not interested, until exactly thirty days later as not now, and not at all once cleared;
  every other scene keeps its state.
\<close>

theorem dismissal_exact:
  assumes "updateExternalDismissalBody parse ep payload now db = (db', Inr changed)"
    and "unique_key dismissal_key (dismissals db)"
  shows "dismissedScenes ep t db' x =
    (if x \<notin> set changed then dismissedScenes ep t db x
     else if requested_kind payload = ''not_interested''
       \<or> requested_kind payload = ''not_now'' \<and> t < now + 30 * 24 * 60 * 60 * 1000
     then Some (requested_kind payload) else None)"
proof -
  obtain ids where kind: "requested_kind payload \<in> {[], ''not_interested'', ''not_now''}"
    and run: "fold_res (dismiss_one parse ep (ids = None) (requested_kind payload) now)
      (case ids of None \<Rightarrow> [pythonStrOrEmpty (jget (jget payload ''args'') ''external_id'')] | Some xs \<Rightarrow> xs)
      ([], db) = Inr (changed, db')"
    using dismissal_update_Inr [OF assms(1)] by blast
  from dismiss_all_effect [OF run] have
    eff: "dismissals db' = fold (put_dismissal ep (requested_kind payload) now (cached_payload db)) changed (dismissals db)"
    by auto
  with assms(2) have uniq: "unique_key dismissal_key (dismissals db')"
    by (simp add: unique_put_all)
  show ?thesis
    unfolding dismissedScenes_lookup [OF uniq] dismissedScenes_lookup [OF assms(2)] eff lookup_put_all [OF assms(2)]
    using kind by (auto simp: dismissal_row_def active_dismissal_def notNowMs_def)
qed

lemma dismiss_one_runs:
  assumes "\<forall>e \<in> set (entities db). \<exists>v. parse (ee_payload_json e) = Inr v" and "0 \<le> now"
    and "kind \<in> {[], ''not_interested'', ''not_now''}"
  shows "\<exists>r. dismiss_one parse ep False kind now x (ch, db) = Inr r"
proof (cases "lookup_row entity_key (''scene'', x) (entities db)")
  case None
  then show ?thesis by (simp add: dismiss_one_def)
next
  case (Some e)
  then obtain v where "parse (ee_payload_json e) = Inr v"
    using assms(1) by (auto dest: lookup_row_Some)
  moreover have "dismissal_check (dismissal_row ep x kind now p)" if "kind \<noteq> []" for p
    using assms(2,3) that by (auto simp: dismissal_check_def dismissal_row_def notNowMs_def)
  ultimately show ?thesis
    using Some by (auto simp: dismiss_one_def from_endpoint_def upsert_checked_def list_all_iff Let_def)
qed

lemma dismiss_all_run:
  assumes "\<forall>e \<in> set (entities db). \<exists>v. parse (ee_payload_json e) = Inr v" and "0 \<le> now"
    and "kind \<in> {[], ''not_interested'', ''not_now''}"
  shows "\<exists>r. fold_res (dismiss_one parse ep False kind now) xs (ch, db) = Inr r"
  using assms(1)
proof (induction xs arbitrary: ch db)
  case (Cons x xs)
  obtain ch' db' where step: "dismiss_one parse ep False kind now x (ch, db) = Inr (ch', db')"
    using dismiss_one_runs [OF Cons.prems assms(2,3)] by (metis surj_pair)
  then have "entities db' = entities db"
    using dismiss_one_effect [OF step] by simp
  with Cons step show ?case by simp
qed simp

text \<open>
  A batch never fails over a scene that left the cache: it answers with exactly the
  requested scenes that are cached for the selected endpoint (all of them when it clears).
\<close>

theorem dismissal_batch_skips_missing:
  assumes "batch_ids (jget (jget payload ''args'') ''external_ids'') = Inr (Some ids)"
    and "requested_kind payload \<in> {[], ''not_interested'', ''not_now''}"
    and "\<forall>e \<in> set (entities db). \<exists>v. parse (ee_payload_json e) = Inr v" and "0 \<le> now"
  shows "snd (updateExternalDismissalBody parse ep payload now db) =
    Inr (filter (\<lambda>x. requested_kind payload = [] \<or> cached_at parse ep db x) ids)"
proof -
  obtain ch db' where run: "fold_res (dismiss_one parse ep False (requested_kind payload) now) ids ([], db) = Inr (ch, db')"
    using dismiss_all_run [OF assms(3,4,2)] by (metis surj_pair)
  from dismiss_all_effect [OF run] show ?thesis
    using assms(1,2) run by (auto simp: updateExternalDismissalBody_def Let_def)
qed

section \<open>Listing by pages\<close>

lemma pages_concat:
  "concat (map (\<lambda>i. take n (drop (i * n) xs)) [0..<k]) = take (k * n) xs"
  by (induction k) (simp_all add: take_add [symmetric] add.commute)

lemma sql_page_int:
  assumes "1 \<le> psize" "(int i) * psize < 2 ^ 63"
  shows "sql_page (int i + 1) psize xs = take (nat psize) (drop (i * nat psize) xs)"
  using assms by (simp add: sql_page_def wrap64_small nat_mult_distrib)

lemma pages_complete:
  assumes "1 \<le> psize" and "int k * psize < 2 ^ 63"
  shows "concat (map (\<lambda>i. sql_page (int i + 1) psize xs) [0..<k]) = take (k * nat psize) xs"
    and "has_more (int k) psize (int (length xs)) \<longleftrightarrow> k * nat psize < length xs"
proof -
  have "int i * psize < 2 ^ 63" if "i < k" for i
  proof -
    have "int i * psize \<le> int k * psize" using that assms(1) by (intro mult_right_mono) auto
    with assms(2) show ?thesis by linarith
  qed
  then have "map (\<lambda>i. sql_page (int i + 1) psize xs) [0..<k] = map (\<lambda>i. take (nat psize) (drop (i * nat psize) xs)) [0..<k]"
    using assms(1) by (intro map_cong refl sql_page_int) auto
  then show "concat (map (\<lambda>i. sql_page (int i + 1) psize xs) [0..<k]) = take (k * nat psize) xs"
    by (simp only: pages_concat)
  have eq: "int k * psize = int (k * nat psize)" using assms(1) by simp
  have "wrap64 (int k * psize) = int k * psize"
    using assms by (intro wrap64_small) auto
  then show "has_more (int k) psize (int (length xs)) \<longleftrightarrow> k * nat psize < length xs"
    by (simp only: has_more_def eq of_nat_less_iff)
qed

lemma newest_first_perm: "mset (newest_first key xs) = mset xs"
  by (simp add: newest_first_def)

lemma newest_first_sorted: "sorted_wrt (\<lambda>x y. key y \<le> key x) (newest_first key xs)"
  using sorted_sort_key [of key "rev xs"]
  by (simp add: newest_first_def sorted_wrt_rev sorted_map)

text \<open>
  C25. Reading the pages of disliked performers until one answers without more lists every
  dislike of the endpoint exactly once, newest first.
\<close>

theorem dislike_pages_complete:
  assumes "\<And>i. i < k \<Longrightarrow> getExternalPerformerDislikesBody ep (ask i) db = Inr (reply i)"
    and "\<And>i. i < k \<Longrightarrow> page_args (ask i) ''invalid performer dislike page'' = Inr (int i + 1, psize)"
    and "0 < k" "\<not> lst_has_more (reply (k - 1))" and "int k * psize < 2 ^ 63"
  shows "mset (concat (map (\<lambda>i. lst_items (reply i)) [0..<k])) =
      filter_mset (\<lambda>d. dl_endpoint d = to_lower ep) (mset (dislikes db)) \<and>
    sorted_wrt (\<lambda>x y. (dl_created_at_ms y, dl_performer_id y) \<le> (dl_created_at_ms x, dl_performer_id x))
      (concat (map (\<lambda>i. lst_items (reply i)) [0..<k]))"
proof -
  let ?rows = "listed_dislikes ep db"
  have psize: "1 \<le> psize"
    using assms(2) [OF assms(3)] by (auto simp: page_args_def Let_def split: if_splits)
  have items: "lst_items (reply i) = sql_page (int i + 1) psize ?rows"
    and more: "lst_has_more (reply i) = has_more (int i + 1) psize (int (length ?rows))" if "i < k" for i
    using assms(1) [OF that] assms(2) [OF that]
    by (auto simp: getExternalPerformerDislikesBody_def listed_dislikes_def Let_def dest!: sym [of _ "reply i"])
  have "\<not> has_more (int k) psize (int (length ?rows))"
    using more [of "k - 1"] assms(3,4) by simp
  then have "\<not> k * nat psize < length ?rows"
    by (simp add: pages_complete(2) [OF psize assms(5)])
  moreover have "map (\<lambda>i. lst_items (reply i)) [0..<k] = map (\<lambda>i. sql_page (int i + 1) psize ?rows) [0..<k]"
    using items by (intro map_cong) auto
  ultimately have "concat (map (\<lambda>i. lst_items (reply i)) [0..<k]) = ?rows"
    by (simp only: pages_complete(1) [OF psize assms(5)] not_less take_all)
  then show ?thesis
    using newest_first_sorted [of "\<lambda>d. (dl_created_at_ms d, dl_performer_id d)"]
    by (simp add: listed_dislikes_def newest_first_perm)
qed

text \<open>
  The product of page and page size wraps: a page number near \<open>2 ^ 62\<close> is answered
  with the first page again, and says there is more.
\<close>

theorem huge_page_wraps:
  assumes "page_args payload ''invalid performer dislike page'' = Inr (2 ^ 62 + 1, 4)"
    and "page_args first ''invalid performer dislike page'' = Inr (1, 4)"
    and "length (filter (\<lambda>d. dl_endpoint d = to_lower ep) (dislikes db)) > 4"
  shows "\<exists>a b. getExternalPerformerDislikesBody ep payload db = Inr a \<and>
    getExternalPerformerDislikesBody ep first db = Inr b \<and> lst_items a = lst_items b \<and> lst_has_more a"
  using assms
  by (auto simp: getExternalPerformerDislikesBody_def listed_dislikes_def Let_def newest_first_def sql_page_def has_more_def wrap64_def)

section \<open>Witnesses\<close>

definition sample_external :: external_db where
  "sample_external = \<lparr>entities = [\<lparr>ee_entity_type = ''scene'', ee_external_id = ''a'', ee_payload_json = ''{}'',
       ee_score = Fin False 0, ee_sources_json = []\<rparr>],
     shortlist = [], dismissals = [],
     dislikes = map (\<lambda>i. \<lparr>dl_endpoint = ''https://stashdb.org/graphql'', dl_performer_id = i, dl_name = i,
       dl_created_at_ms = 1\<rparr>) [''a'', ''b'', ''c'', ''d'', ''e''],
     linked_performers = [], ext_update = initial_update_state\<rparr>"

definition stashdb_ep :: string where "stashdb_ep = ''https://stashdb.org/graphql''"

definition not_now_payload :: jVal where
  "not_now_payload = JObj [(''args'', JObj [(''external_ids'', JArr [JStr ''a'', JStr ''gone'']),
     (''kind'', JStr ''not_now'')])]"

definition page_payload :: "string \<Rightarrow> string \<Rightarrow> jVal" where
  "page_payload page psize = JObj [(''args'', JObj [(''page'', JStr page), (''page_size'', JStr psize)])]"

lemmas external_samples = sample_external_def stashdb_ep_def not_now_payload_def jget_JObj

lemma not_now_ids: "batch_ids (jget (jget not_now_payload ''args'') ''external_ids'') = Inr (Some [''a'', ''gone''])"
  by (simp add: external_samples batch_ids_def externalDismissalBatchLimit_def pythonStrOrEmpty_def)

lemma not_now_kind: "requested_kind not_now_payload = ''not_now''"
  by (simp add: external_samples requested_kind_def pythonStrOrEmpty_def)

lemma sample_cached: "cached_at (\<lambda>s. Inr (JObj [])) stashdb_ep sample_external x \<longleftrightarrow> x = ''a''"
  by (simp add: external_samples cached_at_def lookup_row_def entity_key_def from_endpoint_def Let_def
      pythonStrOrEmpty_def) code_simp

theorem dismissal_batch_skips_missing_witness:
  "snd (updateExternalDismissalBody (\<lambda>s. Inr (JObj [])) stashdb_ep not_now_payload 7 sample_external) = Inr [''a'']"
  using dismissal_batch_skips_missing [of not_now_payload "[''a'', ''gone'']" sample_external "\<lambda>s. Inr (JObj [])" 7 stashdb_ep]
  by (simp add: not_now_ids not_now_kind sample_cached)

lemma sample_dismissal: "\<exists>db'. updateExternalDismissalBody (\<lambda>s. Inr (JObj [])) stashdb_ep not_now_payload 7 sample_external = (db', Inr [''a''])"
proof -
  obtain ch db' where run: "fold_res (dismiss_one (\<lambda>s. Inr (JObj [])) stashdb_ep False ''not_now'' 7) [''a'', ''gone''] ([], sample_external) = Inr (ch, db')"
    using dismiss_all_run [of sample_external "\<lambda>s. Inr (JObj [])" 7 "''not_now''" stashdb_ep "[''a'', ''gone'']" "[]"]
    by (auto simp del: fold_res.simps)
  from dismiss_all_effect [OF run] run show ?thesis
    by (auto simp: updateExternalDismissalBody_def Let_def not_now_ids not_now_kind sample_cached)
qed

theorem dismissal_exact_witness:
  "\<exists>db'. dismissedScenes stashdb_ep 2592000006 db' ''a'' = Some ''not_now'' \<and>
     dismissedScenes stashdb_ep 2592000007 db' ''a'' = None \<and> dismissedScenes stashdb_ep 0 db' ''gone'' = None"
proof -
  obtain db' where run: "updateExternalDismissalBody (\<lambda>s. Inr (JObj [])) stashdb_ep not_now_payload 7 sample_external = (db', Inr [''a''])"
    using sample_dismissal by blast
  have "unique_key dismissal_key (dismissals sample_external)"
    by (simp add: sample_external_def unique_key_def)
  note exact = dismissal_exact [OF run this]
  show ?thesis
    by (rule exI [of _ db']) (simp add: exact not_now_kind, simp add: dismissedScenes_def sample_external_def)
qed

lemma page_numbers:
  "pythonInt (JStr ''1'') = 1" "pythonInt (JStr ''4'') = 4" "pythonInt (JStr ''20'') = 20"
  "pythonInt (JStr ''4611686018427387905'') = 2 ^ 62 + 1"
  by (simp_all add: pythonInt_def trim_space_ascii is_space_rune_def parse_int64_def split_sign_def is_digit_def
      int_of_digits_def digit_val_def max_int64_def min_int64_def)

lemma page_payload_args:
  "page_args (page_payload ''1'' ''20'') err = Inr (1, 20)"
  "page_args (page_payload ''1'' ''4'') err = Inr (1, 4)"
  "page_args (page_payload ''4611686018427387905'' ''4'') err = Inr (2 ^ 62 + 1, 4)"
  by (simp_all add: page_args_def page_payload_def jget_JObj argsInt_def page_numbers)

lemma sample_dislikes:
  "filter (\<lambda>d. dl_endpoint d = to_lower stashdb_ep) (dislikes sample_external) = dislikes sample_external"
  by code_simp

theorem dislike_pages_complete_witness:
  "\<exists>l. getExternalPerformerDislikesBody stashdb_ep (page_payload ''1'' ''20'') sample_external = Inr l \<and>
     mset (lst_items l) = mset (dislikes sample_external)"
proof -
  obtain l where l: "getExternalPerformerDislikesBody stashdb_ep (page_payload ''1'' ''20'') sample_external = Inr l"
    by (simp add: getExternalPerformerDislikesBody_def page_payload_args Let_def)
  moreover have "\<not> lst_has_more l"
    using l unfolding getExternalPerformerDislikesBody_def listed_dislikes_def sample_dislikes
    by (auto simp: page_payload_args Let_def has_more_def wrap64_def newest_first_def sample_external_def)
  moreover have "filter_mset (\<lambda>d. dl_endpoint d = to_lower stashdb_ep) (mset (dislikes sample_external)) = mset (dislikes sample_external)"
    by (simp add: sample_dislikes flip: mset_filter)
  ultimately show ?thesis
    using dislike_pages_complete [of 1 stashdb_ep "\<lambda>_. page_payload ''1'' ''20''" sample_external "\<lambda>_. l" 20]
    by (simp add: page_payload_args)
qed

theorem huge_page_wraps_witness:
  "\<exists>a b. getExternalPerformerDislikesBody stashdb_ep (page_payload ''4611686018427387905'' ''4'') sample_external = Inr a \<and>
    getExternalPerformerDislikesBody stashdb_ep (page_payload ''1'' ''4'') sample_external = Inr b \<and>
    lst_items a = lst_items b \<and> lst_has_more a"
proof (rule huge_page_wraps)
  show "4 < length (filter (\<lambda>d. dl_endpoint d = to_lower stashdb_ep) (dislikes sample_external))"
    by code_simp
qed (simp_all add: page_payload_args)
end
