(* ===== verification/Calendar.thy ===== *)
theory Calendar
  imports Go_Floats Go_Strings
begin

text \<open>
  The timestamps of the Stash sync, from \<open>core/syncclient.go\<close>: \<open>epochMsToISO\<close> and
  \<open>civilFromDays\<close> print epoch milliseconds as ISO-8601, \<open>parseISOTime\<close> and
  \<open>civilDaysFromDate\<close> read them back. The Gregorian calendar of \<open>time.Date\<close> is
  \<open>gregorian_days\<close>; its normalisation of months and days is written out, and the wrap of its
  own arithmetic for years beyond \<open>10^11\<close> is not.
\<close>

section \<open>Printing\<close>

definition civilFromDays :: "int \<Rightarrow> int \<times> int \<times> int" where
  "civilFromDays z0 =
     (let z = z0 + 719468;
          era = (if z < 0 then go_div (z - 146096) 146097 else go_div z 146097);
          doe = z - era * 146097;
          yoe = go_div (doe - go_div doe 1460 + go_div doe 36524 - go_div doe 146096) 365;
          y = yoe + era * 400;
          doy = doe - (365 * yoe + go_div yoe 4 - go_div yoe 100);
          mp = go_div (5 * doy + 2) 153;
          d = doy - go_div (153 * mp + 2) 5 + 1;
          m = (if mp < 10 then mp + 3 else mp - 9)
      in (if m \<le> 2 then y + 1 else y, m, d))"

text \<open>The verb \<open>%0<w>d\<close>.\<close>

definition zero_pad :: "nat \<Rightarrow> int \<Rightarrow> string" where
  "zero_pad w n =
     (let ds = show_nat (nat \<bar>n\<bar>); sign = (if n < 0 then ''-'' else [])
      in sign @ replicate (w - length sign - length ds) (CHR ''0'') @ ds)"

definition epoch_split :: "int \<Rightarrow> int \<times> int" where
  "epoch_split ms =
     (let seconds = (if go_mod ms 1000 < 0 then go_div ms 1000 - 1 else go_div ms 1000);
          days = go_div seconds 86400; secsOfDay = go_mod seconds 86400
      in if secsOfDay < 0 then (days - 1, secsOfDay + 86400) else (days, secsOfDay))"

definition epochMsToISO :: "int \<Rightarrow> string" where
  "epochMsToISO ms =
     (let (days, secsOfDay) = epoch_split ms; (year, month, day) = civilFromDays days
      in zero_pad 4 year @ ''-'' @ zero_pad 2 month @ ''-'' @ zero_pad 2 day @ ''T'' @
         zero_pad 2 (go_div secsOfDay 3600) @ '':'' @
         zero_pad 2 (go_div (go_mod secsOfDay 3600) 60) @ '':'' @
         zero_pad 2 (go_mod secsOfDay 60) @ ''Z'')"

section \<open>Reading\<close>

definition leap_year :: "int \<Rightarrow> bool" where
  "leap_year y \<longleftrightarrow> y mod 4 = 0 \<and> (y mod 100 \<noteq> 0 \<or> y mod 400 = 0)"

definition month_starts :: "int list" where
  "month_starts = [0, 31, 59, 90, 120, 151, 181, 212, 243, 273, 304, 334]"

text \<open>Days since 1970-01-01 of a date of the proleptic Gregorian calendar.\<close>

definition gregorian_days :: "int \<Rightarrow> int \<Rightarrow> int \<Rightarrow> int" where
  "gregorian_days y m d =
     365 * (y - 1) + (y - 1) div 4 - (y - 1) div 100 + (y - 1) div 400
     + month_starts ! nat (m - 1) + (if m > 2 \<and> leap_year y then 1 else 0) + (d - 1) - 719162"

text \<open>\<open>time.Date(year, month, day, ...)\<close> carries months out of range into the year.\<close>

definition civilDaysFromDate :: "int \<Rightarrow> int \<Rightarrow> int \<Rightarrow> int" where
  "civilDaysFromDate year month day =
     go_div (wrap64 (86400 * gregorian_days (year + (month - 1) div 12) ((month - 1) mod 12 + 1) day)) 86400"

definition replace_byte :: "char \<Rightarrow> string \<Rightarrow> string \<Rightarrow> string" where
  "replace_byte c new s = concat (map (\<lambda>x. if x = c then new else [x]) s)"

definition has_offset :: "string \<Rightarrow> bool" where
  "has_offset rest \<longleftrightarrow> length rest \<ge> 6 \<and> rest ! (length rest - 3) = CHR '':'' \<and>
     (rest ! (length rest - 6) = CHR ''+'' \<or> rest ! (length rest - 6) = CHR ''-'')"

definition split_stamp :: "string \<Rightarrow> string \<times> string \<times> string" where
  "split_stamp value =
     (let base = replace_byte (CHR ''Z'') ''+00:00'' value in
      case index_byte base (CHR ''T'') of
        None \<Rightarrow> (base, [], [])
      | Some i \<Rightarrow>
          let rest = drop (i + 1) base in
          if has_offset rest then (take i base, take (length rest - 6) rest, drop (length rest - 6) rest)
          else (take i base, rest, []))"

definition atoi :: "string \<Rightarrow> string \<Rightarrow> int res" where
  "atoi err s = (case parse_int64 s of (n, ok) \<Rightarrow> if ok then Inr n else Inl (Msg err))"

definition parse_date :: "string \<Rightarrow> (int \<times> int \<times> int) res" where
  "parse_date datePart =
     (let parts = split_on (CHR ''-'') datePart in
      if length parts < 3 then Inl (Msg ''invalid date'')
      else and_then (atoi ''invalid date'' (parts ! 0)) (\<lambda>year.
           and_then (atoi ''invalid date'' (parts ! 1)) (\<lambda>month.
           and_then (atoi ''invalid date'' (parts ! 2)) (\<lambda>day. Inr (year, month, day)))))"

definition parse_clock :: "string \<Rightarrow> (int \<times> int \<times> float64) res" where
  "parse_clock timePart =
     (if timePart = [] then Inr (0, 0, Fin False 0)
      else let parts = split_on (CHR '':'') timePart in
        if length parts < 3 then Inl (Msg ''invalid time'')
        else and_then (atoi ''invalid time'' (parts ! 0)) (\<lambda>hour.
             and_then (atoi ''invalid time'' (parts ! 1)) (\<lambda>minute.
               case parse_float (parts ! 2) of
                 (second, Float_Ok) \<Rightarrow> Inr (hour, minute, second)
               | _ \<Rightarrow> Inl (Msg ''invalid time''))))"

definition parse_offset :: "string \<Rightarrow> int res" where
  "parse_offset offsetPart =
     (if offsetPart = [] then Inr 0
      else and_then (atoi ''invalid offset'' (take 2 (drop 1 offsetPart))) (\<lambda>hours.
           and_then (atoi ''invalid offset'' (take 2 (drop 4 offsetPart))) (\<lambda>minutes.
             Inr ((if offsetPart ! 0 = CHR ''-'' then -1 else 1) * (hours * 3600 + minutes * 60)))))"

text \<open>The sums wrap in \<open>int64\<close>; wrapping once at the end gives the same number.\<close>

definition parseISOTime :: "string \<Rightarrow> int res" where
  "parseISOTime value =
     (let (datePart, timePart, offsetPart) = split_stamp value in
      and_then (parse_date datePart) (\<lambda>(year, month, day).
      and_then (parse_clock timePart) (\<lambda>(hour, minute, second).
      and_then (parse_offset offsetPart) (\<lambda>offsetSeconds.
        let days = civilDaysFromDate year month day;
            secondsOfDay = hour * 3600 + minute * 60 + float_to_int64 second;
            frac = float_sub second (float_of_int (float_to_int64 second));
            micros = float_to_int64 (float_mult frac (float_of_int 1000000));
            (secs, us) = (if micros < 0 then (secondsOfDay - 1, micros + 1000000) else (secondsOfDay, micros))
        in Inr (go_div (wrap64 ((days * 86400 + secs) * 1000000 + us - offsetSeconds * 1000000)) 1000)))))"

section \<open>The civil calendar\<close>

text \<open>
  A cycle of 400 years, counted from March: a day is a century, four years, a year and a day of
  that year, with a last day in the fourth year of four.
\<close>

lemma cycle_day_parts:
  fixes doe :: int
  assumes "0 \<le> doe" "doe < 146097"
  obtains q s t e where "doe = 36524 * q + 1461 * s + 365 * t + e" "0 \<le> q" "q \<le> 3" "0 \<le> s" "s \<le> 24"
    "0 \<le> t" "t \<le> 3" "0 \<le> e" "e \<le> 365" "e = 365 \<longrightarrow> t = 3 \<and> (s < 24 \<or> q = 3)"
proof -
  define q where "q = min 3 (doe div 36524)"
  define r where "r = doe - 36524 * q"
  define s where "s = r div 1461"
  define u where "u = r mod 1461"
  define t where "t = min 3 (u div 365)"
  have r: "0 \<le> r" "r \<le> 36524" "r = 36524 \<longrightarrow> q = 3" "0 \<le> q" "q \<le> 3"
    using assms unfolding q_def r_def by linarith+
  have su: "r = 1461 * s + u" "0 \<le> u" "u < 1461" "0 \<le> s"
    using r(1) by (simp_all add: s_def u_def)
  then have s: "s \<le> 24" "s = 24 \<and> q < 3 \<longrightarrow> u < 1460" using r by linarith+
  have t: "0 \<le> t" "t \<le> 3" "0 \<le> u - 365 * t" "u - 365 * t \<le> 365" "u - 365 * t = 365 \<longrightarrow> t = 3"
    using su(2,3) unfolding t_def by linarith+
  show thesis
    by (rule that [of q s t "u - 365 * t"]) (use r su s t in \<open>auto simp: r_def\<close>)
qed

lemma cycle_year:
  fixes q s t e doe :: int
  assumes doe: "doe = 36524 * q + 1461 * s + 365 * t + e" and "0 \<le> q" "q \<le> 3" "0 \<le> s" "s \<le> 24"
    "0 \<le> t" "t \<le> 3" "0 \<le> e" "e \<le> 365" "e = 365 \<longrightarrow> t = 3 \<and> (s < 24 \<or> q = 3)"
  shows "(doe - doe div 1460 + doe div 36524 - doe div 146096) div 365 = 100 * q + 4 * s + t"
proof -
  define k where "k = 24 * q + s + 365 * t + e"
  define j :: int where "j = (if k \<ge> 1460 then 1 else 0)"
  define l :: int where "l = (if doe = 146096 then 1 else 0)"
  have a: "doe div 1460 = 25 * q + s + j"
    using assms unfolding j_def by (intro int_div_pos_eq [of _ _ _ "k - 1460 * j"]) (auto simp: k_def j_def)
  have "doe < 36524 * (q + 1) \<or> doe = 146096 \<and> q = 3"
  proof (cases "e = 365")
    case False
    with assms(9) have "e \<le> 364" by simp
    with assms(5,7) have "1461 * s + 365 * t + e < 36524" by linarith
    then show ?thesis unfolding doe by simp
  next
    case True
    with assms(10) consider "s \<le> 23" | "q = 3" "s = 24" "t = 3" using assms(5) by fastforce
    then show ?thesis
    proof cases
      case 1
      with assms(7,9) have "1461 * s + 365 * t + e < 36524" by linarith
      then show ?thesis unfolding doe by simp
    qed (simp add: doe True)
  qed
  then have b: "doe div 36524 = q + l"
    using assms(2-) unfolding l_def
    by (intro int_div_pos_eq [of _ _ _ "doe - 36524 * (q + l)"]) (auto simp: l_def doe)
  have "doe \<le> 146096" using assms by linarith
  then have c: "doe div 146096 = l"
    using assms(2-) by (intro int_div_pos_eq [of _ _ _ "doe - 146096 * l"]) (auto simp: l_def doe)
  have "0 \<le> e - j" "e - j < 365"
    using assms by (auto simp: j_def k_def)
  then show ?thesis
    unfolding a b c by (intro int_div_pos_eq [of _ _ _ "e - j"]) (auto simp: doe)
qed

lemma month_of_day:
  fixes doy :: int
  assumes "0 \<le> doy" "doy \<le> 365"
  defines "mp \<equiv> (5 * doy + 2) div 153"
  defines "d \<equiv> doy - (153 * mp + 2) div 5 + 1"
  shows "mp \<in> {0..11}" and "mp < 10 \<longleftrightarrow> doy < 306"
    and "month_starts ! nat ((if mp < 10 then mp + 3 else mp - 9) - 1) + (d - 1) = (if mp < 10 then doy + 59 else doy - 306)"
    and "1 \<le> d" "d \<le> 31"
proof -
  have mp: "153 * mp \<le> 5 * doy + 2" "5 * doy + 2 < 153 * mp + 153" unfolding mp_def by linarith+
  with assms(1,2) show range: "mp \<in> {0..11}" by auto
  show "mp < 10 \<longleftrightarrow> doy < 306" using mp by linarith
  show "1 \<le> d" "d \<le> 31" unfolding d_def using mp by linarith+
  from range have "mp = 0 \<or> mp = 1 \<or> mp = 2 \<or> mp = 3 \<or> mp = 4 \<or> mp = 5 \<or> mp = 6 \<or> mp = 7 \<or> mp = 8
      \<or> mp = 9 \<or> mp = 10 \<or> mp = 11" unfolding atLeastAtMost_iff by presburger
  then show "month_starts ! nat ((if mp < 10 then mp + 3 else mp - 9) - 1) + (d - 1) = (if mp < 10 then doy + 59 else doy - 306)"
    by (elim disjE) (simp_all add: month_starts_def d_def)
qed

lemma era_floor: "(if z < 0 then go_div (z - 146096) 146097 else go_div z 146097) = z div 146097"
proof (cases "z < 0")
  case True
  have "(146096 - z) div 146097 = - (z div 146097)"
    by (rule int_div_pos_eq [of _ _ _ "146096 - z mod 146097"]) (auto simp: algebra_simps)
  with True show ?thesis by (simp add: go_div_neg)
qed (simp add: go_div_nonneg)

lemma leap_year_days:
  "y div 4 - y div 100 + y div 400 = (y - 1) div 4 - (y - 1) div 100 + (y - 1) div 400 + (if leap_year y then 1 else 0)"
proof -
  have step: "y div c = (y - 1) div c + (if y mod c = 0 then 1 else 0)" if "0 < c" for c
  proof (cases "y mod c = 0")
    case True
    then have "(y - 1) div c = y div c - 1"
      using that mult_div_mod_eq [of c y]
      by (intro int_div_pos_eq [of _ _ _ "c - 1"]) (simp_all add: right_diff_distrib)
    with True show ?thesis by simp
  next
    case False
    with that have "0 < y mod c" by (simp add: order_less_le)
    then have "(y - 1) div c = y div c"
      using that pos_mod_bound [OF that, of y]
      by (intro int_div_pos_eq [of _ _ _ "y mod c - 1"]) auto
    with False show ?thesis by simp
  qed
  have combine: "a - b + c = a' - b' + c' + (if p \<and> (\<not> q \<or> r) then 1 else 0)"
    if "a = a' + (if p then 1 else 0)" "b = b' + (if q then 1 else 0)" "c = c' + (if r then 1 else 0)"
      "r \<Longrightarrow> q" "q \<Longrightarrow> p" for a b c a' b' c' :: int and p q r
    using that by (cases p; cases q; cases r) simp_all
  have m400: "y mod 400 = 0 \<Longrightarrow> y mod 100 = 0"
    using dvd_trans [of 100 400 y] by (simp add: mod_eq_0_iff_dvd)
  have m100: "y mod 100 = 0 \<Longrightarrow> y mod 4 = 0"
    using dvd_trans [of 4 100 y] by (simp add: mod_eq_0_iff_dvd)
  show ?thesis
    unfolding leap_year_def by (rule combine [OF step step step m400 m100]) simp_all
qed

lemma civilFromDays_days:
  assumes "civilFromDays z = (y, m, d)"
  shows "gregorian_days y m d = z" and "m \<in> {1..12}" and "d \<in> {1..31}"
proof -
  define era where "era = (z + 719468) div 146097"
  define doe where "doe = (z + 719468) mod 146097"
  have doe: "0 \<le> doe" "doe < 146097" "z = 146097 * era + doe - 719468"
    by (simp_all add: doe_def era_def)
  from cycle_day_parts [OF doe(1,2)] obtain q s t e where p:
    "doe = 36524 * q + 1461 * s + 365 * t + e" "0 \<le> q" "q \<le> 3" "0 \<le> s" "s \<le> 24"
    "0 \<le> t" "t \<le> 3" "0 \<le> e" "e \<le> 365" "e = 365 \<longrightarrow> t = 3 \<and> (s < 24 \<or> q = 3)" .
  define yoe where "yoe = 100 * q + 4 * s + t"
  define mp where "mp = (5 * e + 2) div 153"
  have yoe_parts: "yoe div 4 = 25 * q + s" "yoe div 100 = q" "0 \<le> yoe"
    using p(2-7) int_div_pos_eq [of yoe 4 "25 * q + s" t] int_div_pos_eq [of yoe 100 q "4 * s + t"]
    by (simp_all add: yoe_def)
  have yoe: "go_div (doe - go_div doe 1460 + go_div doe 36524 - go_div doe 146096) 365 = yoe"
  proof -
    have "doe div 146096 \<le> doe div 36524" "doe div 1460 \<le> doe div 1"
      by (rule zdiv_mono2; use doe(1) in simp)+
    then have "0 \<le> doe - doe div 1460 + doe div 36524 - doe div 146096" by simp
    moreover have "go_div doe 1460 = doe div 1460" "go_div doe 36524 = doe div 36524" "go_div doe 146096 = doe div 146096"
      by (rule go_div_nonneg; use doe(1) in simp)+
    ultimately show ?thesis
      using cycle_year [OF p] by (simp only: go_div_nonneg yoe_def)
  qed
  have doy: "doe - (365 * yoe + go_div yoe 4 - go_div yoe 100) = e"
    by (simp add: go_div_nonneg yoe_parts p(1)) (simp add: yoe_def)
  have diff_era: "z + 719468 - era * 146097 = doe" by (simp add: doe(3))
  note month = month_of_day [OF p(8,9), folded mp_def]
  have divs: "go_div (5 * e + 2) 153 = mp" "go_div (153 * mp + 2) 5 = (153 * mp + 2) div 5"
    using p(8) month(1) by (simp_all add: go_div_nonneg mp_def)
  have res: "(if (if mp < 10 then mp + 3 else mp - 9) \<le> 2 then yoe + era * 400 + 1 else yoe + era * 400,
      if mp < 10 then mp + 3 else mp - 9, e - (153 * mp + 2) div 5 + 1) = (y, m, d)"
    using assms
    unfolding civilFromDays_def Let_def era_floor era_def [symmetric] diff_era yoe doy divs .
  have res: "m = (if mp < 10 then mp + 3 else mp - 9)" "y = (if mp < 10 then yoe + era * 400 else yoe + era * 400 + 1)"
      "d = e - (153 * mp + 2) div 5 + 1"
    using res month(1) by auto
  have months: "month_starts ! nat (m - 1) + (d - 1) = (if mp < 10 then e + 59 else e - 306)"
    using month(3) unfolding res .
  let ?Y = "yoe + era * 400"
  have cent: "?Y div 4 = yoe div 4 + 100 * era" "?Y div 100 = yoe div 100 + 4 * era" "?Y div 400 = era"
    using p(2-7) int_div_pos_eq [of ?Y 400 era yoe] by (simp_all add: yoe_def)
  have civil: "365 * ?Y + ?Y div 4 - ?Y div 100 + ?Y div 400 + e - 306 - 719162 = z"
    unfolding cent yoe_parts doe(3) p(1) by (simp add: yoe_def)
  show "gregorian_days y m d = z"
  proof (cases "mp < 10")
    case True
    then have ym: "y = ?Y" "m > 2" using res month(1) by auto
    have "gregorian_days y m d = 365 * (?Y - 1) + ((?Y - 1) div 4 - (?Y - 1) div 100 + (?Y - 1) div 400 +
        (if leap_year ?Y then 1 else 0)) + (month_starts ! nat (m - 1) + (d - 1)) - 719162"
      using ym by (simp add: gregorian_days_def)
    also have "\<dots> = z"
      unfolding leap_year_days [symmetric] months using civil True by simp
    finally show ?thesis .
  next
    case False
    then have ym: "y = ?Y + 1" "\<not> m > 2" using res month(1) by auto
    have "gregorian_days y m d = 365 * ?Y + ?Y div 4 - ?Y div 100 + ?Y div 400 +
        (month_starts ! nat (m - 1) + (d - 1)) - 719162"
      using ym by (simp add: gregorian_days_def)
    also have "\<dots> = z"
      unfolding months using civil False by simp
    finally show ?thesis .
  qed
  show "m \<in> {1..12}" "d \<in> {1..31}" using month(1,4,5) by (auto simp: res)
qed

section \<open>The text of a timestamp\<close>

lemma epoch_split: "epoch_split ms = (ms div 1000 div 86400, ms div 1000 mod 86400)"
proof -
  have sec: "(if go_mod ms 1000 < 0 then go_div ms 1000 - 1 else go_div ms 1000) = ms div 1000"
  proof (cases "ms < 0")
    case True
    have "go_mod ms 1000 = - (- ms mod 1000)" "go_div ms 1000 = - (- ms div 1000)"
      using True by (simp_all add: go_mod_neg go_div_neg)
    then show ?thesis
      using div_minus1_right zdiv_zminus1_eq_if [of 1000 "- ms"] pos_mod_sign [of 1000 "- ms"] by auto
  next
    case False
    then show ?thesis by (simp add: go_div_nonneg go_mod_nonneg not_less)
  qed
  define x where "x = ms div 1000"
  have "(let days = go_div x 86400; secs = go_mod x 86400 in
      if secs < 0 then (days - 1, secs + 86400) else (days, secs)) = (x div 86400, x mod 86400)"
  proof (cases "x < 0")
    case True
    have "go_mod x 86400 = - (- x mod 86400)" "go_div x 86400 = - (- x div 86400)"
      using True by (simp_all add: go_mod_neg go_div_neg)
    then show ?thesis
      using zdiv_zminus1_eq_if [of 86400 "- x"] zmod_zminus1_eq_if [of "- x" 86400] pos_mod_sign [of 86400 "- x"]
      by (auto simp: Let_def)
  next
    case False
    then show ?thesis by (simp add: go_div_nonneg go_mod_nonneg not_less Let_def)
  qed
  then show ?thesis unfolding epoch_split_def sec x_def [symmetric] by simp
qed

lemma int_of_digits_zeros: "int_of_digits (replicate k (CHR ''0'') @ s) = int_of_digits s"
  by (induction k) (simp_all add: int_of_digits_def digit_val_def)

lemma zero_pad_digits: "0 \<le> n \<Longrightarrow> list_all is_digit (zero_pad w n)"
  using show_nat_digits [of "nat n"] by (auto simp: zero_pad_def Let_def is_digit_def list_all_iff)

lemma zero_pad_not_Nil: "zero_pad w n \<noteq> []"
  by (simp add: zero_pad_def Let_def)

lemma zero_pad_value: "0 \<le> n \<Longrightarrow> int_of_digits (zero_pad w n) = n"
  by (simp add: zero_pad_def Let_def int_of_digits_zeros)

lemma split_sign_digits: "list_all is_digit s \<Longrightarrow> split_sign s = (False, s)"
  by (cases s) (auto simp: split_sign_def digit_not_sign)

lemma parse_int64_zero_pad: "0 \<le> n \<Longrightarrow> n \<le> max_int64 \<Longrightarrow> parse_int64 (zero_pad w n) = (n, True)"
  by (simp add: parse_int64_def split_sign_digits zero_pad_digits zero_pad_value zero_pad_not_Nil
      max_int64_def min_int64_def)

lemma atoi_zero_pad: "0 \<le> n \<Longrightarrow> n \<le> max_int64 \<Longrightarrow> atoi err (zero_pad w n) = Inr n"
  by (simp add: atoi_def parse_int64_zero_pad)

lemma take_digits_all: "list_all is_digit s \<Longrightarrow> take_digits s = (s, [])"
  by (induction s) auto

lemma digits_not_letters: "list_all is_digit s \<Longrightarrow> s \<noteq> [] \<Longrightarrow> to_lower s \<noteq> c # cs" if "97 \<le> byte c"
  using that by (cases s) (auto simp: to_lower_def ascii_lower_byte_def is_digit_def)

lemma round64_small_int: "0 \<le> n \<Longrightarrow> n < 2 ^ 53 \<Longrightarrow> round64 False (of_int n) = Fin False (of_int n)"
  using round64_small(1) [of "of_int n" 53 False] round_mag_exact [of "of_int n" n 0]
  by (cases "n = 0") (simp_all add: pow2_def round_mag_def)

lemma parse_float_zero_pad:
  assumes "0 \<le> n" "n < 2 ^ 53"
  shows "parse_float (zero_pad w n) = (Fin False (of_int n), Float_Ok)"
proof -
  let ?s = "zero_pad w n"
  have d: "list_all is_digit ?s" using assms by (rule_tac zero_pad_digits)
  note no = digits_not_letters [OF _ d zero_pad_not_Nil]
  have "parse_decimal ?s = Some (of_int n)"
    using assms by (simp add: parse_decimal_def take_digits_all [OF d] zero_pad_not_Nil zero_pad_value pow10_def)
  then show ?thesis
    using assms by (simp add: parse_float_def split_sign_digits [OF d] no round64_small_int)
qed

lemma length_zero_pad2: "0 \<le> n \<Longrightarrow> n < 100 \<Longrightarrow> length (zero_pad 2 n) = 2"
proof -
  assume n: "0 \<le> n" "n < 100"
  have "length (show_nat (nat n)) \<le> 2"
    using n by (subst show_nat.simps) (simp add: show_nat.simps [of "nat n div 10"])
  moreover have "0 < length (show_nat (nat n))" by simp
  ultimately show ?thesis using n by (auto simp: zero_pad_def Let_def)
qed

lemma split_on_none: "c \<notin> set s \<Longrightarrow> split_on c s = [s]"
  by (induction s) auto

lemma split_on_append: "c \<notin> set s \<Longrightarrow> split_on c (s @ c # t) = s # split_on c t"
  by (induction s) auto

lemma index_byte_append: "c \<notin> set s \<Longrightarrow> index_byte (s @ c # t) c = Some (length s)"
  by (induction s) auto

lemma replace_byte_none: "c \<notin> set s \<Longrightarrow> replace_byte c new s = s"
  by (induction s) (auto simp: replace_byte_def)

lemma replace_byte_append: "replace_byte c new (s @ t) = replace_byte c new s @ replace_byte c new t"
  by (simp add: replace_byte_def)

definition iso_text :: "int \<Rightarrow> int \<Rightarrow> int \<Rightarrow> int \<Rightarrow> int \<Rightarrow> int \<Rightarrow> string" where
  "iso_text y m d h mi s = zero_pad 4 y @ ''-'' @ zero_pad 2 m @ ''-'' @ zero_pad 2 d @ ''T'' @
     zero_pad 2 h @ '':'' @ zero_pad 2 mi @ '':'' @ zero_pad 2 s @ ''Z''"

lemma digits_no_char: "0 \<le> n \<Longrightarrow> \<not> is_digit c \<Longrightarrow> c \<notin> set (zero_pad w n)"
  using zero_pad_digits [of n w] by (auto simp: list_all_iff)

lemma split_stamp_iso:
  assumes "0 \<le> y" "0 \<le> m" "0 \<le> d" "0 \<le> h" "0 \<le> mi" "0 \<le> s"
  shows "split_stamp (iso_text y m d h mi s) =
    (zero_pad 4 y @ ''-'' @ zero_pad 2 m @ ''-'' @ zero_pad 2 d,
     zero_pad 2 h @ '':'' @ zero_pad 2 mi @ '':'' @ zero_pad 2 s, ''+00:00'')"
proof -
  let ?date = "zero_pad 4 y @ ''-'' @ zero_pad 2 m @ ''-'' @ zero_pad 2 d"
  let ?clock = "zero_pad 2 h @ '':'' @ zero_pad 2 mi @ '':'' @ zero_pad 2 s"
  have no: "CHR ''Z'' \<notin> set ?date" "CHR ''T'' \<notin> set ?date" "CHR ''Z'' \<notin> set ?clock"
    using assms by (simp_all add: digits_no_char is_digit_def)
  have stamp: "iso_text y m d h mi s = (?date @ CHR ''T'' # ?clock) @ ''Z''"
    by (simp add: iso_text_def)
  have "CHR ''Z'' \<notin> set (?date @ CHR ''T'' # ?clock)" using no(1,3) by simp
  from replace_byte_none [OF this, of "''+00:00''"]
  have "replace_byte (CHR ''Z'') ''+00:00'' (iso_text y m d h mi s) =
      (?date @ CHR ''T'' # ?clock) @ replace_byte (CHR ''Z'') ''+00:00'' ''Z''"
    unfolding stamp replace_byte_append [of _ _ "?date @ CHR ''T'' # ?clock" "''Z''"] by (rule arg_cong)
  then have base: "replace_byte (CHR ''Z'') ''+00:00'' (iso_text y m d h mi s) = ?date @ CHR ''T'' # ?clock @ ''+00:00''"
    by (simp add: replace_byte_def)
  have rest: "has_offset (t @ ''+00:00'')" "take (length (t @ ''+00:00'') - 6) (t @ ''+00:00'') = t"
    "drop (length (t @ ''+00:00'') - 6) (t @ ''+00:00'') = ''+00:00''" for t
    by (simp_all add: has_offset_def nth_append)
  have cut: "drop (length a + 1) (a @ c # b) = b" "take (length a) (a @ c # b) = a" for a b :: string and c
    by simp_all
  show ?thesis
    unfolding split_stamp_def base Let_def index_byte_append [OF no(2)] option.case cut
    using rest [of ?clock] by simp
qed

lemma parse_date_iso:
  assumes "0 \<le> y" "y \<le> max_int64" "0 \<le> m" "m \<le> max_int64" "0 \<le> d" "d \<le> max_int64"
  shows "parse_date (zero_pad 4 y @ ''-'' @ zero_pad 2 m @ ''-'' @ zero_pad 2 d) = Inr (y, m, d)"
  using assms
  by (simp add: parse_date_def split_on_append split_on_none digits_no_char is_digit_def atoi_zero_pad)

lemma parse_clock_iso:
  assumes "0 \<le> h" "h \<le> max_int64" "0 \<le> mi" "mi \<le> max_int64" "0 \<le> s" "s < 2 ^ 53"
  shows "parse_clock (zero_pad 2 h @ '':'' @ zero_pad 2 mi @ '':'' @ zero_pad 2 s) = Inr (h, mi, Fin False (of_int s))"
  using assms
  by (simp add: parse_clock_def split_on_append split_on_none digits_no_char is_digit_def atoi_zero_pad
      parse_float_zero_pad)

lemma parse_offset_utc: "parse_offset ''+00:00'' = Inr 0"
  by (simp add: parse_offset_def atoi_def parse_int64_def split_sign_def is_digit_def int_of_digits_def
      digit_val_def max_int64_def min_int64_def)

lemma whole_second:
  assumes "0 \<le> s" "s < 2 ^ 53"
  shows "float_to_int64 (Fin False (of_int s)) = s"
    and "float_to_int64 (float_mult (float_sub (Fin False (of_int s)) (float_of_int s)) (float_of_int 1000000)) = 0"
proof -
  show "float_to_int64 (Fin False (of_int s)) = s"
    using assms by (simp add: Let_def max_int64_def min_int64_def)
  have "float_of_int s = Fin False (of_int s)" "float_of_int 1000000 = Fin False 1000000"
    using assms round64_small_int [of 1000000] by (simp_all add: float_of_int_def float_of_rat_def round64_small_int)
  moreover have "round64 b 0 = Fin b 0" for b
    by (simp add: round64_def round_mag_def pow2_def)
  ultimately show "float_to_int64 (float_mult (float_sub (Fin False (of_int s)) (float_of_int s)) (float_of_int 1000000)) = 0"
    by (simp add: float_sub_def rat_trunc_def max_int64_def min_int64_def)
qed

lemma go_div_multiple: "0 < b \<Longrightarrow> go_div (b * a) b = a"
  by (simp add: go_div_def sgn_mult abs_mult sgn_mult_abs)

lemma civilDaysFromDate_gregorian:
  assumes "m \<in> {1..12}" "\<bar>gregorian_days y m d\<bar> < 10 ^ 13"
  shows "civilDaysFromDate y m d = gregorian_days y m d"
proof -
  have "(m - 1) div 12 = 0" "(m - 1) mod 12 = m - 1" using assms(1) by auto
  moreover have "wrap64 (86400 * gregorian_days y m d) = 86400 * gregorian_days y m d"
    using assms(2) by (intro wrap64_id) (simp_all add: abs_less_iff)
  ultimately show ?thesis
    by (simp add: civilDaysFromDate_def go_div_multiple)
qed

lemma day_of_year:
  assumes "m \<in> {1..12}" "d \<in> {1..31}"
  shows "0 \<le> month_starts ! nat (m - 1) + (if m > 2 \<and> leap_year y then 1 else 0) + (d - 1)"
    and "month_starts ! nat (m - 1) + (if m > 2 \<and> leap_year y then 1 else 0) + (d - 1) \<le> 364 + (if leap_year y then 1 else 0)"
proof -
  have "\<forall>k \<in> {0..<12}. 0 \<le> month_starts ! k \<and> month_starts ! k \<le> 334"
    by (simp add: month_starts_def atLeastLessThan_upt upt_rec)
  then have "0 \<le> month_starts ! nat (m - 1)" "month_starts ! nat (m - 1) \<le> 334" using assms(1) by auto
  with assms(2) show "0 \<le> month_starts ! nat (m - 1) + (if m > 2 \<and> leap_year y then 1 else 0) + (d - 1)"
    "month_starts ! nat (m - 1) + (if m > 2 \<and> leap_year y then 1 else 0) + (d - 1) \<le> 364 + (if leap_year y then 1 else 0)"
    by auto
qed

lemma gregorian_year_bounds:
  assumes "m \<in> {1..12}" "d \<in> {1..31}" "gregorian_days y m d = z"
  shows "- 719528 \<le> z \<Longrightarrow> 0 \<le> y" and "z < 10 ^ 9 \<Longrightarrow> y \<le> 10 ^ 7"
proof -
  define x where "x = y - 1"
  define o' where "o' = month_starts ! nat (m - 1) + (if m > 2 \<and> leap_year y then 1 else 0) + (d - 1)"
  have z: "z = 365 * x + x div 4 - x div 100 + x div 400 + o' - 719162"
    using assms(3) by (simp add: gregorian_days_def x_def o'_def)
  have o': "0 \<le> o'" "o' \<le> 364 + (if leap_year y then 1 else 0)"
    using day_of_year [OF assms(1,2), of y] by (simp_all add: o'_def)
  have frac: "4 * (x div 4) \<le> x" "x < 4 * (x div 4) + 4" "100 * (x div 100) \<le> x" "x < 100 * (x div 100) + 100"
    "400 * (x div 400) \<le> x" "x < 400 * (x div 400) + 400" by linarith+
  show "0 \<le> y" if "- 719528 \<le> z"
  proof (rule ccontr)
    assume "\<not> 0 \<le> y"
    then have "y = -1 \<or> x \<le> -3" unfolding x_def by presburger
    then consider "y = -1" | "x \<le> -3" by blast
    then show False
    proof cases
      case 1
      then have "\<not> leap_year y" "x = -2" by (simp_all add: leap_year_def x_def)
      with o' z that show False by simp
    next
      case 2
      have "o' \<le> 365" using o' by (auto split: if_splits)
      with 2 that z frac show False by linarith
    qed
  qed
  show "y \<le> 10 ^ 7" if "z < 10 ^ 9"
    using that z frac o'(1) unfolding x_def by simp
qed

lemma epochMsToISO_text:
  assumes "civilFromDays (ms div 1000 div 86400) = (y, m, d)"
  defines "secs \<equiv> ms div 1000 mod 86400"
  shows "epochMsToISO ms = iso_text y m d (secs div 3600) (secs mod 3600 div 60) (secs mod 60)"
  by (simp add: epochMsToISO_def epoch_split assms iso_text_def go_div_nonneg go_mod_nonneg)

text \<open>
  C26. Watermarks survive a round trip: the timestamp printed for an epoch time from
  the year 0 on reads back as the same time, to the second.
\<close>

theorem epochMsToISO_roundtrip:
  assumes "- 62167219200000 \<le> ms" "ms < 9000000000000000"
  shows "parseISOTime (epochMsToISO ms) = Inr (ms - ms mod 1000)"
proof -
  define days where "days = ms div 1000 div 86400"
  define secs where "secs = ms div 1000 mod 86400"
  obtain y m d where civil: "civilFromDays days = (y, m, d)" by (metis surj_pair)
  note greg = civilFromDays_days [OF civil]
  have ms: "ms div 1000 = days * 86400 + secs" "0 \<le> secs" "secs < 86400" "ms - ms mod 1000 = 1000 * (ms div 1000)"
    by (simp_all add: days_def secs_def minus_mod_eq_mult_div)
  have days: "- 719528 \<le> days" "days < 10 ^ 9" using assms by (simp_all add: days_def)
  with gregorian_year_bounds [OF greg(2,3,1)] have y: "0 \<le> y" "y \<le> 10 ^ 7" by auto
  define h where "h = secs div 3600"
  define mi where "mi = secs mod 3600 div 60"
  define s where "s = secs mod 60"
  have clock: "0 \<le> h" "h \<le> 24" "0 \<le> mi" "mi \<le> 60" "0 \<le> s" "s < 60"
    using ms(2,3) by (simp_all add: h_def mi_def s_def)
  have "secs mod 60 = secs mod 3600 mod 60" by (simp add: mod_mod_cancel)
  then have sum: "h * 3600 + mi * 60 + s = secs" by (simp add: h_def mi_def s_def)
  have cd: "civilDaysFromDate y m d = days"
    using civilDaysFromDate_gregorian [OF greg(2)] greg(1) days by simp
  have total: "wrap64 ((days * 86400 + secs) * 1000000) = (days * 86400 + secs) * 1000000"
  proof -
    have "- 62167219200 \<le> ms div 1000" "ms div 1000 < 9000000000000" using assms by simp_all
    then show ?thesis unfolding ms(1) by (intro wrap64_id) simp_all
  qed
  have ms_again: "go_div ((days * 86400 + secs) * 1000000) 1000 = 1000 * (days * 86400 + secs)"
    using go_div_multiple [of 1000 "1000 * (days * 86400 + secs)"] by (simp add: algebra_simps)
  have "epochMsToISO ms = iso_text y m d h mi s"
    using epochMsToISO_text [OF civil [unfolded days_def]] by (simp only: secs_def h_def mi_def s_def)
  moreover have "split_stamp (iso_text y m d h mi s) =
      (zero_pad 4 y @ ''-'' @ zero_pad 2 m @ ''-'' @ zero_pad 2 d,
       zero_pad 2 h @ '':'' @ zero_pad 2 mi @ '':'' @ zero_pad 2 s, ''+00:00'')"
    using y greg(2,3) clock by (intro split_stamp_iso) auto
  moreover have "parse_date (zero_pad 4 y @ ''-'' @ zero_pad 2 m @ ''-'' @ zero_pad 2 d) = Inr (y, m, d)"
    using y greg(2,3) by (intro parse_date_iso) (auto simp: max_int64_def)
  moreover have "parse_clock (zero_pad 2 h @ '':'' @ zero_pad 2 mi @ '':'' @ zero_pad 2 s) = Inr (h, mi, Fin False (of_int s))"
    using clock by (intro parse_clock_iso) (auto simp: max_int64_def)
  moreover have "s < 2 ^ 53" using clock(6) by simp
  ultimately show ?thesis
    unfolding parseISOTime_def
    by (simp only: prod.case and_then.simps Let_def parse_offset_utc whole_second [OF clock(5)] cd sum
        less_irrefl if_False add_0_right diff_zero mult_zero_left total ms_again ms(1,4))
qed
theorem epochMsToISO_roundtrip_witness:
  "parseISOTime (epochMsToISO 1700000000123) = Inr 1700000000000"
  using epochMsToISO_roundtrip [of 1700000000123] by simp

end
