(* ===== verification/Sync_Entities.thy ===== *)
theory Sync_Entities
  imports Calendar Api_Args
begin

text \<open>
  The entities of the Stash sync as \<open>core/syncclient.go\<close> has them: their Go structs, the
  adapters that read them out of a GraphQL answer, and the JSON text whose SHA-256 is the
  \<open>source_hash\<close> of a row. \<open>sha\<close> stands for the hexadecimal digest of
  \<open>crypto/sha256\<close>; no theorem assumes anything of it.
\<close>

section \<open>Structs\<close>

record syncStashID =
  si_endpoint :: string
  si_stash_id :: string

datatype syncTag = SyncTag (tg_id: string) (tg_name: "string option") (tg_updated_at: "string option")
  (tg_parents: "syncTag list") (tg_stash_ids: "syncStashID list")

datatype syncStudio = SyncStudio (sd_id: string) (sd_name: "string option") (sd_updated_at: "string option")
  (sd_favorite: bool) (sd_rating100: "int option") (sd_parent: "syncStudio option")

record syncPerformer =
  pf_id :: string
  pf_name :: "string option"
  pf_updated_at :: "string option"
  pf_favorite :: bool
  pf_gender :: "string option"
  pf_rating100 :: "int option"
  pf_birthdate :: "string option"
  pf_ethnicity :: "string option"
  pf_country :: "string option"
  pf_eye_color :: "string option"
  pf_hair_color :: "string option"
  pf_height_cm :: "int option"
  pf_weight_kg :: "int option"
  pf_measurements :: "string option"
  pf_augmentation :: "string option"
  pf_tattoos :: "string option"
  pf_piercings :: "string option"
  pf_tags :: "syncTag list"

record syncSourceFile =
  fl_id :: string
  fl_duration :: "float64 option"

record syncMarker =
  mk_id :: string
  mk_seconds :: float64
  mk_end_seconds :: "float64 option"
  mk_primary_tag :: syncTag
  mk_tags :: "syncTag list"

record syncScene =
  sc_id :: string
  sc_title :: "string option"
  sc_details :: "string option"
  sc_date :: "string option"
  sc_rating100 :: "int option"
  sc_updated_at :: "string option"
  sc_created_at_ms :: "int option"
  sc_organized :: bool
  sc_play_count :: int
  sc_play_duration :: float64
  sc_play_history_ms :: "int list"
  sc_o_history_ms :: "int list"
  sc_studio :: "syncStudio option"
  sc_tags :: "syncTag list"
  sc_performers :: "syncPerformer list"
  sc_files :: "syncSourceFile list"
  sc_markers :: "syncMarker list"

datatype syncSourceEntity = Tag_Entity syncTag | Studio_Entity syncStudio
  | Performer_Entity syncPerformer | Scene_Entity syncScene

fun entityType :: "syncSourceEntity \<Rightarrow> string" where
  "entityType (Tag_Entity t) = ''tag''"
| "entityType (Studio_Entity s) = ''studio''"
| "entityType (Performer_Entity p) = ''performer''"
| "entityType (Scene_Entity s) = ''scene''"

fun entityID :: "syncSourceEntity \<Rightarrow> string" where
  "entityID (Tag_Entity t) = tg_id t"
| "entityID (Studio_Entity s) = sd_id s"
| "entityID (Performer_Entity p) = pf_id p"
| "entityID (Scene_Entity s) = sc_id s"

fun entityUpdatedAt :: "syncSourceEntity \<Rightarrow> string option" where
  "entityUpdatedAt (Tag_Entity t) = tg_updated_at t"
| "entityUpdatedAt (Studio_Entity s) = sd_updated_at s"
| "entityUpdatedAt (Performer_Entity p) = pf_updated_at p"
| "entityUpdatedAt (Scene_Entity s) = sc_updated_at s"

section \<open>Adapters\<close>

definition optionalStringPtr :: "jVal \<Rightarrow> string option" where
  "optionalStringPtr v = (case v of JStr s \<Rightarrow> if s = [] then None else Some s | _ \<Rightarrow> None)"

definition optionalIntPtr :: "jVal \<Rightarrow> int option" where
  "optionalIntPtr v = (case v of JNum t \<Rightarrow> if contains_any t ''.eE'' then None else Some (pythonInt v) | _ \<Rightarrow> None)"

definition optionalPositiveIntPtr :: "jVal \<Rightarrow> int option" where
  "optionalPositiveIntPtr v = (case optionalIntPtr v of Some n \<Rightarrow> if n \<le> 0 then None else Some n | None \<Rightarrow> None)"

text \<open>History storage requires non-negative timestamps.\<close>

definition epochMsOf :: "jVal \<Rightarrow> int option" where
  "epochMsOf v = (case v of JStr s \<Rightarrow>
     (case parseISOTime s of Inl e \<Rightarrow> None | Inr ms \<Rightarrow> if ms < 0 then None else Some ms) | _ \<Rightarrow> None)"

definition optional_float :: "jVal \<Rightarrow> float64 option" where
  "optional_float v = (case v of JNum t \<Rightarrow> Some (pythonFloatOr v (Fin False 0)) | _ \<Rightarrow> None)"

definition mathMax :: "float64 \<Rightarrow> float64 \<Rightarrow> float64" where
  "mathMax a b = (if float_less b a then a else b)"

definition adaptSyncStashIDs :: "jVal \<Rightarrow> syncStashID list" where
  "adaptSyncStashIDs raw = map (\<lambda>item. \<lparr>si_endpoint = asString (jget item ''endpoint''),
       si_stash_id = asString (jget item ''stash_id'')\<rparr>)
     (filter (\<lambda>item. truthy (jget item ''endpoint'') \<and> truthy (jget item ''stash_id'')) (arr_of raw))"

text \<open>\<open>adaptSyncTag\<close> with \<open>includeParents\<close> calls itself once, without.\<close>

definition adapt_tag :: "jVal \<Rightarrow> syncTag list \<Rightarrow> syncTag" where
  "adapt_tag raw parents = SyncTag (asString (jget raw ''id'')) (optionalStringPtr (jget raw ''name''))
     (optionalStringPtr (jget raw ''updated_at'')) parents (adaptSyncStashIDs (jget raw ''stash_ids''))"

definition adaptSyncTag :: "bool \<Rightarrow> jVal \<Rightarrow> syncTag" where
  "adaptSyncTag includeParents raw = adapt_tag raw
     (if includeParents then map (\<lambda>p. adapt_tag p []) (arr_of (jget raw ''parents'')) else [])"

definition adapt_studio :: "jVal \<Rightarrow> syncStudio option \<Rightarrow> syncStudio" where
  "adapt_studio raw parent = SyncStudio (asString (jget raw ''id'')) (optionalStringPtr (jget raw ''name''))
     (optionalStringPtr (jget raw ''updated_at'')) (truthy (jget raw ''favorite''))
     (optionalIntPtr (jget raw ''rating100'')) parent"

definition adaptSyncStudio :: "jVal \<Rightarrow> syncStudio" where
  "adaptSyncStudio raw = adapt_studio raw
     (if is_obj (jget raw ''parent_studio'') then Some (adapt_studio (jget raw ''parent_studio'') None) else None)"

text \<open>\<open>adaptSyncPerformer\<close>; without details the detail fields are nil.\<close>

definition adaptSyncPerformer :: "jVal \<Rightarrow> bool \<Rightarrow> syncPerformer" where
  "adaptSyncPerformer raw details =
     (let str = (\<lambda>k. if details then optionalStringPtr (jget raw k) else None);
          pos = (\<lambda>k. if details then optionalPositiveIntPtr (jget raw k) else None)
      in \<lparr>pf_id = asString (jget raw ''id''), pf_name = optionalStringPtr (jget raw ''name''),
          pf_updated_at = optionalStringPtr (jget raw ''updated_at''), pf_favorite = truthy (jget raw ''favorite''),
          pf_gender = str ''gender'',
          pf_rating100 = (if details then optionalIntPtr (jget raw ''rating100'') else None),
          pf_birthdate = str ''birthdate'', pf_ethnicity = str ''ethnicity'', pf_country = str ''country'',
          pf_eye_color = str ''eye_color'', pf_hair_color = str ''hair_color'', pf_height_cm = pos ''height_cm'',
          pf_weight_kg = pos ''weight'', pf_measurements = str ''measurements'',
          pf_augmentation = str ''fake_tits'', pf_tattoos = str ''tattoos'', pf_piercings = str ''piercings'',
          pf_tags = map (adaptSyncTag False) (arr_of (jget raw ''tags''))\<rparr>)"

definition adapt_file :: "jVal \<Rightarrow> syncSourceFile" where
  "adapt_file file = \<lparr>fl_id = asString (jget file ''id''), fl_duration = optional_float (jget file ''duration'')\<rparr>"

definition adapt_marker :: "jVal \<Rightarrow> syncMarker" where
  "adapt_marker marker = \<lparr>mk_id = asString (jget marker ''id''),
     mk_seconds = pythonFloatOr (jget marker ''seconds'') (Fin False 0),
     mk_end_seconds = optional_float (jget marker ''end_seconds''),
     mk_primary_tag = adaptSyncTag False (jget marker ''primary_tag''),
     mk_tags = map (adaptSyncTag False) (arr_of (jget marker ''tags''))\<rparr>"

definition adaptSyncScene :: "jVal \<Rightarrow> syncScene" where
  "adaptSyncScene raw =
     \<lparr>sc_id = asString (jget raw ''id''), sc_title = optionalStringPtr (jget raw ''title''),
      sc_details = optionalStringPtr (jget raw ''details''), sc_date = optionalStringPtr (jget raw ''date''),
      sc_rating100 = optionalIntPtr (jget raw ''rating100''), sc_updated_at = optionalStringPtr (jget raw ''updated_at''),
      sc_created_at_ms = epochMsOf (jget raw ''created_at''), sc_organized = truthy (jget raw ''organized''),
      sc_play_count = max 0 (pythonInt (jget raw ''play_count'')),
      sc_play_duration = mathMax (Fin False 0) (pythonFloatOr (jget raw ''play_duration'') (Fin False 0)),
      sc_play_history_ms = List.map_filter epochMsOf (arr_of (jget raw ''play_history'')),
      sc_o_history_ms = List.map_filter epochMsOf (arr_of (jget raw ''o_history'')),
      sc_studio = (if is_obj (jget raw ''studio'') then Some (adaptSyncStudio (jget raw ''studio'')) else None),
      sc_tags = map (adaptSyncTag False) (arr_of (jget raw ''tags'')),
      sc_performers = map (\<lambda>p. adaptSyncPerformer p False) (arr_of (jget raw ''performers'')),
      sc_files = map adapt_file (arr_of (jget raw ''files'')),
      sc_markers = map adapt_marker (arr_of (jget raw ''scene_markers''))\<rparr>"

definition adaptSyncEntity :: "string \<Rightarrow> jVal \<Rightarrow> syncSourceEntity option" where
  "adaptSyncEntity itemsKey raw =
     (if itemsKey = ''tags'' then Some (Tag_Entity (adaptSyncTag True raw))
      else if itemsKey = ''studios'' then Some (Studio_Entity (adaptSyncStudio raw))
      else if itemsKey = ''performers'' then Some (Performer_Entity (adaptSyncPerformer raw True))
      else if itemsKey = ''scenes'' then Some (Scene_Entity (adaptSyncScene raw))
      else None)"

section \<open>Hashes\<close>

definition jvOptionalString :: "string option \<Rightarrow> jVal" where
  "jvOptionalString v = (case v of None \<Rightarrow> JNull | Some s \<Rightarrow> JStr s)"

definition jvOptionalInt :: "int option \<Rightarrow> jVal" where
  "jvOptionalInt v = (case v of None \<Rightarrow> JNull | Some n \<Rightarrow> jvInt n)"

definition jv_optional_float :: "float64 option \<Rightarrow> jVal" where
  "jv_optional_float v = (case v of None \<Rightarrow> JNull | Some f \<Rightarrow> jvFloat f)"

definition syncAsdictStashIDs :: "syncStashID list \<Rightarrow> jVal" where
  "syncAsdictStashIDs ids = JArr (map (\<lambda>i. JObj [(''endpoint'', JStr (si_endpoint i)), (''stash_id'', JStr (si_stash_id i))]) ids)"

fun asdict_tag :: "syncTag \<Rightarrow> jVal" where
  "asdict_tag (SyncTag i n u ps ids) = JObj [(''id'', JStr i), (''name'', jvOptionalString n),
     (''updated_at'', jvOptionalString u), (''parents'', JArr (map asdict_tag ps)),
     (''stash_ids'', syncAsdictStashIDs ids)]"

definition syncAsdictTags :: "syncTag list \<Rightarrow> jVal" where
  "syncAsdictTags tags = JArr (map asdict_tag tags)"

fun asdict_studio :: "syncStudio \<Rightarrow> jVal" where
  "asdict_studio (SyncStudio i n u fav rating parent) = JObj [(''id'', JStr i), (''name'', jvOptionalString n),
     (''updated_at'', jvOptionalString u), (''favorite'', JBool fav), (''rating100'', jvOptionalInt rating),
     (''parent'', case parent of None \<Rightarrow> JNull | Some p \<Rightarrow> asdict_studio p)]"

definition asdict_performer :: "syncPerformer \<Rightarrow> jVal" where
  "asdict_performer p = JObj [(''id'', JStr (pf_id p)), (''name'', jvOptionalString (pf_name p)),
     (''updated_at'', jvOptionalString (pf_updated_at p)), (''favorite'', JBool (pf_favorite p)),
     (''gender'', jvOptionalString (pf_gender p)), (''rating100'', jvOptionalInt (pf_rating100 p)),
     (''birthdate'', jvOptionalString (pf_birthdate p)), (''ethnicity'', jvOptionalString (pf_ethnicity p)),
     (''country'', jvOptionalString (pf_country p)), (''eye_color'', jvOptionalString (pf_eye_color p)),
     (''hair_color'', jvOptionalString (pf_hair_color p)), (''height_cm'', jvOptionalInt (pf_height_cm p)),
     (''weight_kg'', jvOptionalInt (pf_weight_kg p)), (''measurements'', jvOptionalString (pf_measurements p)),
     (''augmentation'', jvOptionalString (pf_augmentation p)), (''tattoos'', jvOptionalString (pf_tattoos p)),
     (''piercings'', jvOptionalString (pf_piercings p)), (''tags'', syncAsdictTags (pf_tags p))]"

definition asdict_file :: "syncSourceFile \<Rightarrow> jVal" where
  "asdict_file f = JObj [(''id'', JStr (fl_id f)), (''duration_seconds'', jv_optional_float (fl_duration f))]"

definition asdict_marker :: "syncMarker \<Rightarrow> jVal" where
  "asdict_marker m = JObj [(''id'', JStr (mk_id m)), (''seconds'', jvFloat (mk_seconds m)),
     (''end_seconds'', jv_optional_float (mk_end_seconds m)), (''primary_tag'', asdict_tag (mk_primary_tag m)),
     (''tags'', syncAsdictTags (mk_tags m))]"

definition asdict_scene :: "syncScene \<Rightarrow> jVal" where
  "asdict_scene s = JObj [(''id'', JStr (sc_id s)), (''title'', jvOptionalString (sc_title s)),
     (''details'', jvOptionalString (sc_details s)), (''scene_date'', jvOptionalString (sc_date s)),
     (''rating100'', jvOptionalInt (sc_rating100 s)), (''updated_at'', jvOptionalString (sc_updated_at s)),
     (''created_at_ms'', jvOptionalInt (sc_created_at_ms s)), (''organized'', JBool (sc_organized s)),
     (''play_count'', jvInt (sc_play_count s)), (''play_duration_seconds'', jvFloat (sc_play_duration s)),
     (''play_history_ms'', JArr (map jvInt (sc_play_history_ms s))), (''o_history_ms'', JArr (map jvInt (sc_o_history_ms s))),
     (''studio'', case sc_studio s of None \<Rightarrow> JNull | Some d \<Rightarrow> asdict_studio d),
     (''tags'', syncAsdictTags (sc_tags s)), (''performers'', JArr (map asdict_performer (sc_performers s))),
     (''files'', JArr (map asdict_file (sc_files s))), (''markers'', JArr (map asdict_marker (sc_markers s)))]"

fun syncAsdict :: "syncSourceEntity \<Rightarrow> jVal" where
  "syncAsdict (Tag_Entity t) = asdict_tag t"
| "syncAsdict (Studio_Entity s) = asdict_studio s"
| "syncAsdict (Performer_Entity p) = asdict_performer p"
| "syncAsdict (Scene_Entity s) = asdict_scene s"

definition syncHashValue :: "(string \<Rightarrow> string) \<Rightarrow> jVal \<Rightarrow> string" where
  "syncHashValue sha v = sha (marshalSortedKeys v)"

definition syncHash :: "(string \<Rightarrow> string) \<Rightarrow> syncSourceEntity \<Rightarrow> string" where
  "syncHash sha e = syncHashValue sha (syncAsdict e)"

definition syncHashFile :: "(string \<Rightarrow> string) \<Rightarrow> syncSourceFile \<Rightarrow> string" where
  "syncHashFile sha f = syncHashValue sha (asdict_file f)"

definition syncHashMarker :: "(string \<Rightarrow> string) \<Rightarrow> syncMarker \<Rightarrow> string" where
  "syncHashMarker sha m = syncHashValue sha (asdict_marker m)"

section \<open>What the adapters guarantee\<close>

text \<open>The values the tables' CHECK constraints ask for.\<close>

lemma epochMsOf_nonneg: "epochMsOf v = Some ms \<Longrightarrow> 0 \<le> ms"
  by (auto simp: epochMsOf_def split: jVal.splits sum.splits if_splits)

lemma optionalPositiveIntPtr_pos: "optionalPositiveIntPtr v = Some n \<Longrightarrow> 0 < n"
  by (auto simp: optionalPositiveIntPtr_def split: option.splits if_splits)

lemma adaptSyncScene_history:
  "list_all (\<lambda>t. 0 \<le> t) (sc_play_history_ms (adaptSyncScene raw))"
  "list_all (\<lambda>t. 0 \<le> t) (sc_o_history_ms (adaptSyncScene raw))"
  "sc_created_at_ms (adaptSyncScene raw) = Some ms \<Longrightarrow> 0 \<le> ms"
  "0 \<le> sc_play_count (adaptSyncScene raw)"
  by (auto simp: adaptSyncScene_def list_all_iff map_filter_def epochMsOf_nonneg)

end
