(* ===== verification/Sync_Tables.thy ===== *)
theory Sync_Tables
  imports Sync_Entities
begin

text \<open>
  The library mirror of the sync: the source tables of the migrations with their CHECK, UNIQUE
  and FOREIGN KEY constraints, the upserts \<open>syncUpsertTag\<close>, \<open>syncUpsertStudio\<close>,
  \<open>syncUpsertPerformer\<close>, \<open>syncUpsertScene\<close>, and \<open>syncDeleteEntitiesConn\<close> with the
  cascades it relies on (\<open>core/syncclient.go\<close>). The rows of other tables that cascade from a
  deleted scene are not part of this state.
\<close>

section \<open>Tables\<close>

record source_tag =
  st_id :: string
  st_name :: "string option"
  st_updated_at :: "string option"
  st_hash :: string

record source_studio =
  ss_id :: string
  ss_name :: "string option"
  ss_parent :: "string option"
  ss_updated_at :: "string option"
  ss_hash :: string
  ss_favorite :: bool
  ss_rating100 :: "int option"

record source_performer =
  sp_id :: string
  sp_name :: "string option"
  sp_favorite :: bool
  sp_birthdate :: "string option"
  sp_ethnicity :: "string option"
  sp_country :: "string option"
  sp_eye_color :: "string option"
  sp_hair_color :: "string option"
  sp_height_cm :: "int option"
  sp_weight_kg :: "int option"
  sp_measurements :: "string option"
  sp_augmentation :: "string option"
  sp_tattoos :: "string option"
  sp_piercings :: "string option"
  sp_updated_at :: "string option"
  sp_hash :: string
  sp_gender :: "string option"
  sp_rating100 :: "int option"

record source_scene =
  sn_id :: string
  sn_title :: "string option"
  sn_details :: "string option"
  sn_date :: "string option"
  sn_studio :: "string option"
  sn_play_count :: int
  sn_play_duration :: float64
  sn_rating100 :: "int option"
  sn_updated_at :: "string option"
  sn_created_at_ms :: "int option"
  sn_organized :: bool
  sn_hash :: string

record source_file =
  sf_id :: string
  sf_scene :: string
  sf_duration :: "float64 option"
  sf_available :: bool
  sf_hash :: string

record scene_marker =
  sm_id :: string
  sm_scene :: string
  sm_seconds :: float64
  sm_end_seconds :: "float64 option"
  sm_primary_tag :: "string option"
  sm_hash :: string

record history_entry =
  hr_scene :: string
  hr_at_ms :: int
  hr_ordinal :: nat

record source_db =
  tags :: "source_tag list"
  tag_parents :: "(string \<times> string) list"
  tag_stash_ids :: "(string \<times> string \<times> string) list"
  studios :: "source_studio list"
  performers :: "source_performer list"
  performer_tags :: "(string \<times> string) list"
  scenes :: "source_scene list"
  files :: "source_file list"
  scene_performers :: "(string \<times> string \<times> nat) list"
  scene_tags :: "(string \<times> string) list"
  markers :: "scene_marker list"
  marker_tags :: "(string \<times> string) list"
  source_plays :: "history_entry list"
  source_os :: "history_entry list"
  local_matches :: "(string \<times> string \<times> string) list"

definition empty_source :: source_db where
  "empty_source = \<lparr>tags = [], tag_parents = [], tag_stash_ids = [], studios = [], performers = [],
     performer_tags = [], scenes = [], files = [], scene_performers = [], scene_tags = [], markers = [],
     marker_tags = [], source_plays = [], source_os = [], local_matches = []\<rparr>"

definition tag_ids :: "source_db \<Rightarrow> string set" where "tag_ids db = st_id ` set (tags db)"
definition studio_ids :: "source_db \<Rightarrow> string set" where "studio_ids db = ss_id ` set (studios db)"
definition performer_ids :: "source_db \<Rightarrow> string set" where "performer_ids db = sp_id ` set (performers db)"
definition scene_ids :: "source_db \<Rightarrow> string set" where "scene_ids db = sn_id ` set (scenes db)"
definition marker_ids :: "source_db \<Rightarrow> string set" where "marker_ids db = sm_id ` set (markers db)"

section \<open>Constraints\<close>

definition rating_ok :: "int option \<Rightarrow> bool" where
  "rating_ok r \<longleftrightarrow> (case r of None \<Rightarrow> True | Some n \<Rightarrow> 0 \<le> n \<and> n \<le> 100)"

definition positive_or_null :: "int option \<Rightarrow> bool" where
  "positive_or_null r \<longleftrightarrow> (case r of None \<Rightarrow> True | Some n \<Rightarrow> 0 < n)"

text \<open>A REAL column: NaN is stored as NULL, which NOT NULL refuses and \<open>CHECK\<close> lets pass.\<close>

definition real_ge :: "float64 \<Rightarrow> float64 \<Rightarrow> bool" where
  "real_ge x y \<longleftrightarrow> \<not> float_less x y"

definition performer_check :: "source_performer \<Rightarrow> bool" where
  "performer_check p \<longleftrightarrow> positive_or_null (sp_height_cm p) \<and> positive_or_null (sp_weight_kg p) \<and> rating_ok (sp_rating100 p)"

definition studio_check :: "source_studio \<Rightarrow> bool" where
  "studio_check s \<longleftrightarrow> rating_ok (ss_rating100 s)"

definition scene_check :: "source_scene \<Rightarrow> bool" where
  "scene_check s \<longleftrightarrow> 0 \<le> sn_play_count s \<and> sn_play_duration s \<noteq> NaN \<and> real_ge (sn_play_duration s) (Fin False 0) \<and>
     rating_ok (sn_rating100 s) \<and> (case sn_created_at_ms s of None \<Rightarrow> True | Some t \<Rightarrow> 0 \<le> t)"

definition file_check :: "source_file \<Rightarrow> bool" where
  "file_check f \<longleftrightarrow> (case sf_duration f of None \<Rightarrow> True | Some d \<Rightarrow> real_ge d (Fin False 0))"

definition marker_check :: "scene_marker \<Rightarrow> bool" where
  "marker_check m \<longleftrightarrow> sm_seconds m \<noteq> NaN \<and> real_ge (sm_seconds m) (Fin False 0) \<and>
     (case sm_end_seconds m of None \<Rightarrow> True | Some e \<Rightarrow> real_ge e (sm_seconds m))"

definition history_check :: "history_entry \<Rightarrow> bool" where
  "history_check h \<longleftrightarrow> 0 \<le> hr_at_ms h"

text \<open>A statement whose references must exist when it ends.\<close>

definition with_refs :: "bool \<Rightarrow> 'a res \<Rightarrow> 'a res" where
  "with_refs ok r = and_then r (\<lambda>x. if ok then Inr x else Inl Foreign_Key_Violation)"

definition null_or :: "string option \<Rightarrow> string set \<Rightarrow> bool" where
  "null_or r ids \<longleftrightarrow> (case r of None \<Rightarrow> True | Some i \<Rightarrow> i \<in> ids)"

text \<open>The references that every state of the database has.\<close>

definition refs_ok :: "source_db \<Rightarrow> bool" where
  "refs_ok db \<longleftrightarrow>
     (\<forall>(t, p) \<in> set (tag_parents db). t \<in> tag_ids db \<and> p \<in> tag_ids db) \<and>
     (\<forall>(t, e, i) \<in> set (tag_stash_ids db). t \<in> tag_ids db) \<and>
     (\<forall>s \<in> set (studios db). null_or (ss_parent s) (studio_ids db)) \<and>
     (\<forall>(p, t) \<in> set (performer_tags db). p \<in> performer_ids db \<and> t \<in> tag_ids db) \<and>
     (\<forall>s \<in> set (scenes db). null_or (sn_studio s) (studio_ids db)) \<and>
     (\<forall>f \<in> set (files db). sf_scene f \<in> scene_ids db) \<and>
     (\<forall>(s, p, n) \<in> set (scene_performers db). s \<in> scene_ids db \<and> p \<in> performer_ids db) \<and>
     (\<forall>(s, t) \<in> set (scene_tags db). s \<in> scene_ids db \<and> t \<in> tag_ids db) \<and>
     (\<forall>m \<in> set (markers db). sm_scene m \<in> scene_ids db \<and> null_or (sm_primary_tag m) (tag_ids db)) \<and>
     (\<forall>(m, t) \<in> set (marker_tags db). m \<in> marker_ids db \<and> t \<in> tag_ids db) \<and>
     (\<forall>h \<in> set (source_plays db). hr_scene h \<in> scene_ids db) \<and>
     (\<forall>h \<in> set (source_os db). hr_scene h \<in> scene_ids db)"

definition keys_ok :: "source_db \<Rightarrow> bool" where
  "keys_ok db \<longleftrightarrow> unique_key st_id (tags db) \<and> unique_key ss_id (studios db) \<and>
     unique_key sp_id (performers db) \<and> unique_key sn_id (scenes db) \<and> unique_key sm_id (markers db) \<and>
     unique_key sf_id (files db)"

section \<open>Statements\<close>

text \<open>\<open>COALESCE(excluded.c, table.c)\<close>.\<close>

definition coalesce :: "'a option \<Rightarrow> 'a option \<Rightarrow> 'a option" where
  "coalesce a b = (case a of None \<Rightarrow> b | Some x \<Rightarrow> a)"

type_synonym statement = "source_db \<Rightarrow> source_db res"

definition run_statements :: "statement list \<Rightarrow> source_db \<Rightarrow> source_db res" where
  "run_statements ss db = fold_res (\<lambda>s d. s d) ss db"

definition put_tag :: "(source_tag \<Rightarrow> source_tag \<Rightarrow> source_tag) \<Rightarrow> source_tag \<Rightarrow> statement" where
  "put_tag mrg r db = Inr (db\<lparr>tags := upsert_row st_id mrg r (tags db)\<rparr>)"

definition put_studio :: "(source_studio \<Rightarrow> source_studio \<Rightarrow> source_studio) \<Rightarrow> source_studio \<Rightarrow> statement" where
  "put_studio mrg r db = and_then (upsert_checked ss_id studio_check mrg r (studios db)) (\<lambda>rows.
     if list_all (\<lambda>s. null_or (ss_parent s) (ss_id ` set rows)) rows then Inr (db\<lparr>studios := rows\<rparr>)
     else Inl Foreign_Key_Violation)"

definition put_performer :: "(source_performer \<Rightarrow> source_performer \<Rightarrow> source_performer) \<Rightarrow> source_performer \<Rightarrow> statement" where
  "put_performer mrg r db = and_then (upsert_checked sp_id performer_check mrg r (performers db)) (\<lambda>rows.
     Inr (db\<lparr>performers := rows\<rparr>))"

definition put_scene :: "source_scene \<Rightarrow> statement" where
  "put_scene r db = with_refs (null_or (sn_studio r) (studio_ids db))
     (and_then (upsert_checked sn_id scene_check (\<lambda>old new. new) r (scenes db)) (\<lambda>rows. Inr (db\<lparr>scenes := rows\<rparr>)))"

definition clear_tag_parents :: "string \<Rightarrow> statement" where
  "clear_tag_parents t db = Inr (db\<lparr>tag_parents := delete_where (\<lambda>r. fst r = t) (tag_parents db)\<rparr>)"

definition add_tag_parent :: "string \<times> string \<Rightarrow> statement" where
  "add_tag_parent r db = with_refs (fst r \<in> tag_ids db \<and> snd r \<in> tag_ids db)
     (and_then (insert_row id (\<lambda>_. True) r (tag_parents db)) (\<lambda>rows. Inr (db\<lparr>tag_parents := rows\<rparr>)))"

definition clear_stash_ids :: "string \<Rightarrow> statement" where
  "clear_stash_ids t db = Inr (db\<lparr>tag_stash_ids := delete_where (\<lambda>r. fst r = t) (tag_stash_ids db)\<rparr>)"

definition add_stash_id :: "string \<times> string \<times> string \<Rightarrow> statement" where
  "add_stash_id r db = with_refs (fst r \<in> tag_ids db)
     (and_then (insert_row (\<lambda>(t, e, i). (t, e)) (\<lambda>_. True) r (tag_stash_ids db)) (\<lambda>rows. Inr (db\<lparr>tag_stash_ids := rows\<rparr>)))"

definition clear_performer_tags :: "string \<Rightarrow> statement" where
  "clear_performer_tags p db = Inr (db\<lparr>performer_tags := delete_where (\<lambda>r. fst r = p) (performer_tags db)\<rparr>)"

definition add_performer_tag :: "string \<times> string \<Rightarrow> statement" where
  "add_performer_tag r db = with_refs (fst r \<in> performer_ids db \<and> snd r \<in> tag_ids db)
     (and_then (insert_row id (\<lambda>_. True) r (performer_tags db)) (\<lambda>rows. Inr (db\<lparr>performer_tags := rows\<rparr>)))"

definition clear_files :: "string \<Rightarrow> statement" where
  "clear_files s db = Inr (db\<lparr>files := delete_where (\<lambda>f. sf_scene f = s) (files db)\<rparr>)"

definition put_file :: "source_file \<Rightarrow> statement" where
  "put_file r db = with_refs (sf_scene r \<in> scene_ids db)
     (and_then (upsert_checked sf_id file_check (\<lambda>old new. new) r (files db)) (\<lambda>rows. Inr (db\<lparr>files := rows\<rparr>)))"

definition clear_scene_performers :: "string \<Rightarrow> statement" where
  "clear_scene_performers s db = Inr (db\<lparr>scene_performers := delete_where (\<lambda>r. fst r = s) (scene_performers db)\<rparr>)"

definition add_scene_performer :: "string \<times> string \<times> nat \<Rightarrow> statement" where
  "add_scene_performer r db = with_refs (fst r \<in> scene_ids db \<and> fst (snd r) \<in> performer_ids db)
     (and_then (insert_row (\<lambda>(s, p, n). (s, p)) (\<lambda>_. True) r (scene_performers db)) (\<lambda>rows. Inr (db\<lparr>scene_performers := rows\<rparr>)))"

definition clear_scene_tags :: "string \<Rightarrow> statement" where
  "clear_scene_tags s db = Inr (db\<lparr>scene_tags := delete_where (\<lambda>r. fst r = s) (scene_tags db)\<rparr>)"

definition add_scene_tag :: "string \<times> string \<Rightarrow> statement" where
  "add_scene_tag r db = with_refs (fst r \<in> scene_ids db \<and> snd r \<in> tag_ids db)
     (and_then (insert_row id (\<lambda>_. True) r (scene_tags db)) (\<lambda>rows. Inr (db\<lparr>scene_tags := rows\<rparr>)))"

text \<open>Deleting markers cascades to their tags.\<close>

definition drop_markers :: "(scene_marker \<Rightarrow> bool) \<Rightarrow> source_db \<Rightarrow> source_db" where
  "drop_markers p db = (let gone = sm_id ` set (filter p (markers db)) in
     db\<lparr>markers := delete_where p (markers db), marker_tags := delete_where (\<lambda>r. fst r \<in> gone) (marker_tags db)\<rparr>)"

definition put_marker :: "scene_marker \<Rightarrow> statement" where
  "put_marker r db = with_refs (sm_scene r \<in> scene_ids db \<and> null_or (sm_primary_tag r) (tag_ids db))
     (and_then (upsert_checked sm_id marker_check (\<lambda>old new. new) r (markers db)) (\<lambda>rows. Inr (db\<lparr>markers := rows\<rparr>)))"

definition clear_marker_tags :: "string \<Rightarrow> statement" where
  "clear_marker_tags m db = Inr (db\<lparr>marker_tags := delete_where (\<lambda>r. fst r = m) (marker_tags db)\<rparr>)"

definition add_marker_tag :: "string \<times> string \<Rightarrow> statement" where
  "add_marker_tag r db = with_refs (fst r \<in> marker_ids db \<and> snd r \<in> tag_ids db)
     (and_then (insert_row id (\<lambda>_. True) r (marker_tags db)) (\<lambda>rows. Inr (db\<lparr>marker_tags := rows\<rparr>)))"

definition history_key :: "history_entry \<Rightarrow> string \<times> int \<times> nat" where
  "history_key h = (hr_scene h, hr_at_ms h, hr_ordinal h)"

definition clear_plays :: "string \<Rightarrow> statement" where
  "clear_plays s db = Inr (db\<lparr>source_plays := delete_where (\<lambda>h. hr_scene h = s) (source_plays db)\<rparr>)"

definition add_play :: "history_entry \<Rightarrow> statement" where
  "add_play r db = with_refs (hr_scene r \<in> scene_ids db)
     (and_then (insert_row history_key history_check r (source_plays db)) (\<lambda>rows. Inr (db\<lparr>source_plays := rows\<rparr>)))"

definition clear_os :: "string \<Rightarrow> statement" where
  "clear_os s db = Inr (db\<lparr>source_os := delete_where (\<lambda>h. hr_scene h = s) (source_os db)\<rparr>)"

definition add_o :: "history_entry \<Rightarrow> statement" where
  "add_o r db = with_refs (hr_scene r \<in> scene_ids db)
     (and_then (insert_row history_key history_check r (source_os db)) (\<lambda>rows. Inr (db\<lparr>source_os := rows\<rparr>)))"

section \<open>Upserts\<close>

definition tag_row :: "(string \<Rightarrow> string) \<Rightarrow> syncTag \<Rightarrow> source_tag" where
  "tag_row sha t = \<lparr>st_id = tg_id t, st_name = tg_name t, st_updated_at = tg_updated_at t,
     st_hash = syncHash sha (Tag_Entity t)\<rparr>"

text \<open>\<open>syncUpsertTag\<close> with \<open>replaceParents\<close> false: the stub of a tag another entity mentions.\<close>

fun stub_tag :: "(string \<Rightarrow> string) \<Rightarrow> syncTag \<Rightarrow> statement list" where
  "stub_tag sha (SyncTag i n u ps ids) = concat (map (stub_tag sha) ps) @
     [put_tag (\<lambda>old new. old\<lparr>st_name := coalesce (st_name new) (st_name old),
        st_updated_at := coalesce (st_updated_at new) (st_updated_at old)\<rparr>) (tag_row sha (SyncTag i n u ps ids))]"

text \<open>One stash id per endpoint: the first.\<close>

fun first_endpoints :: "string set \<Rightarrow> syncStashID list \<Rightarrow> syncStashID list" where
  "first_endpoints seen [] = []"
| "first_endpoints seen (i # ids) =
     (if si_endpoint i \<in> seen then first_endpoints seen ids
      else i # first_endpoints (insert (si_endpoint i) seen) ids)"

definition syncUpsertTag :: "(string \<Rightarrow> string) \<Rightarrow> syncTag \<Rightarrow> statement list" where
  "syncUpsertTag sha t = concat (map (stub_tag sha) (tg_parents t)) @
     [put_tag (\<lambda>old new. new) (tag_row sha t), clear_tag_parents (tg_id t)] @
     map (\<lambda>p. add_tag_parent (tg_id t, tg_id p)) (tg_parents t) @
     [clear_stash_ids (tg_id t)] @
     map (\<lambda>i. add_stash_id (tg_id t, si_endpoint i, si_stash_id i)) (first_endpoints {} (tg_stash_ids t))"

definition studio_row :: "(string \<Rightarrow> string) \<Rightarrow> syncStudio \<Rightarrow> source_studio" where
  "studio_row sha s = \<lparr>ss_id = sd_id s, ss_name = sd_name s, ss_parent = map_option sd_id (sd_parent s),
     ss_updated_at = sd_updated_at s, ss_hash = syncHash sha (Studio_Entity s), ss_favorite = sd_favorite s,
     ss_rating100 = sd_rating100 s\<rparr>"

text \<open>
  \<open>syncUpsertStudio\<close> with \<open>replaceDetails\<close> false inserts name, update time and hash only; the
  columns it leaves out take their defaults.
\<close>

fun stub_studio :: "(string \<Rightarrow> string) \<Rightarrow> syncStudio \<Rightarrow> statement list" where
  "stub_studio sha (SyncStudio i n u fav rating parent) =
     (case parent of None \<Rightarrow> [] | Some p \<Rightarrow> stub_studio sha p) @
     [put_studio (\<lambda>old new. old\<lparr>ss_name := coalesce (ss_name new) (ss_name old),
        ss_updated_at := coalesce (ss_updated_at new) (ss_updated_at old)\<rparr>)
        \<lparr>ss_id = i, ss_name = n, ss_parent = None, ss_updated_at = u,
         ss_hash = syncHash sha (Studio_Entity (SyncStudio i n u fav rating parent)),
         ss_favorite = False, ss_rating100 = None\<rparr>]"

definition syncUpsertStudio :: "(string \<Rightarrow> string) \<Rightarrow> syncStudio \<Rightarrow> statement list" where
  "syncUpsertStudio sha s = (case sd_parent s of None \<Rightarrow> [] | Some p \<Rightarrow> stub_studio sha p) @
     [put_studio (\<lambda>old new. new) (studio_row sha s)]"

definition performer_row :: "(string \<Rightarrow> string) \<Rightarrow> syncPerformer \<Rightarrow> source_performer" where
  "performer_row sha p = \<lparr>sp_id = pf_id p, sp_name = pf_name p, sp_favorite = pf_favorite p,
     sp_birthdate = pf_birthdate p, sp_ethnicity = pf_ethnicity p, sp_country = pf_country p,
     sp_eye_color = pf_eye_color p, sp_hair_color = pf_hair_color p, sp_height_cm = pf_height_cm p,
     sp_weight_kg = pf_weight_kg p, sp_measurements = pf_measurements p, sp_augmentation = pf_augmentation p,
     sp_tattoos = pf_tattoos p, sp_piercings = pf_piercings p, sp_updated_at = pf_updated_at p,
     sp_hash = syncHash sha (Performer_Entity p), sp_gender = pf_gender p, sp_rating100 = pf_rating100 p\<rparr>"

text \<open>Details Stash does not know keep their old value; name, favourite, time and hash are replaced.\<close>

definition merge_performer :: "source_performer \<Rightarrow> source_performer \<Rightarrow> source_performer" where
  "merge_performer old new = new\<lparr>
     sp_birthdate := coalesce (sp_birthdate new) (sp_birthdate old),
     sp_ethnicity := coalesce (sp_ethnicity new) (sp_ethnicity old),
     sp_country := coalesce (sp_country new) (sp_country old),
     sp_eye_color := coalesce (sp_eye_color new) (sp_eye_color old),
     sp_hair_color := coalesce (sp_hair_color new) (sp_hair_color old),
     sp_height_cm := coalesce (sp_height_cm new) (sp_height_cm old),
     sp_weight_kg := coalesce (sp_weight_kg new) (sp_weight_kg old),
     sp_measurements := coalesce (sp_measurements new) (sp_measurements old),
     sp_augmentation := coalesce (sp_augmentation new) (sp_augmentation old),
     sp_tattoos := coalesce (sp_tattoos new) (sp_tattoos old),
     sp_piercings := coalesce (sp_piercings new) (sp_piercings old),
     sp_gender := coalesce (sp_gender new) (sp_gender old),
     sp_rating100 := coalesce (sp_rating100 new) (sp_rating100 old)\<rparr>"

definition syncUpsertPerformer :: "(string \<Rightarrow> string) \<Rightarrow> syncPerformer \<Rightarrow> statement list" where
  "syncUpsertPerformer sha p = concat (map (stub_tag sha) (pf_tags p)) @
     [put_performer merge_performer (performer_row sha p), clear_performer_tags (pf_id p)] @
     map (\<lambda>t. add_performer_tag (pf_id p, tg_id t)) (pf_tags p)"

text \<open>The stub of a performer that a scene mentions.\<close>

definition stub_performer :: "(string \<Rightarrow> string) \<Rightarrow> syncPerformer \<Rightarrow> statement" where
  "stub_performer sha p = put_performer
     (\<lambda>old new. old\<lparr>sp_name := coalesce (sp_name new) (sp_name old),
        sp_updated_at := coalesce (sp_updated_at new) (sp_updated_at old)\<rparr>)
     \<lparr>sp_id = pf_id p, sp_name = pf_name p, sp_favorite = False, sp_birthdate = None, sp_ethnicity = None,
      sp_country = None, sp_eye_color = None, sp_hair_color = None, sp_height_cm = None, sp_weight_kg = None,
      sp_measurements = None, sp_augmentation = None, sp_tattoos = None, sp_piercings = None,
      sp_updated_at = pf_updated_at p, sp_hash = syncHash sha (Performer_Entity p), sp_gender = None,
      sp_rating100 = None\<rparr>"

definition scene_row :: "(string \<Rightarrow> string) \<Rightarrow> syncScene \<Rightarrow> source_scene" where
  "scene_row sha s = \<lparr>sn_id = sc_id s, sn_title = sc_title s, sn_details = sc_details s, sn_date = sc_date s,
     sn_studio = map_option sd_id (sc_studio s), sn_play_count = sc_play_count s,
     sn_play_duration = sc_play_duration s, sn_rating100 = sc_rating100 s, sn_updated_at = sc_updated_at s,
     sn_created_at_ms = sc_created_at_ms s, sn_organized = sc_organized s, sn_hash = syncHash sha (Scene_Entity s)\<rparr>"

text \<open>A float column is written as the number that the JSON text of the value reads as.\<close>

definition stored_float :: "float64 option \<Rightarrow> float64 option" where
  "stored_float d = (case d of None \<Rightarrow> None | Some f \<Rightarrow>
     Some (case pythonFloat (jvFloat f) of (x, None) \<Rightarrow> x | _ \<Rightarrow> Fin False 0))"

definition file_row :: "(string \<Rightarrow> string) \<Rightarrow> syncScene \<Rightarrow> syncSourceFile \<Rightarrow> source_file" where
  "file_row sha s f = \<lparr>sf_id = fl_id f, sf_scene = sc_id s, sf_duration = stored_float (fl_duration f),
     sf_available = True, sf_hash = syncHashFile sha f\<rparr>"

definition marker_row :: "(string \<Rightarrow> string) \<Rightarrow> syncScene \<Rightarrow> syncMarker \<Rightarrow> scene_marker" where
  "marker_row sha s m = \<lparr>sm_id = mk_id m, sm_scene = sc_id s, sm_seconds = mk_seconds m,
     sm_end_seconds = stored_float (mk_end_seconds m), sm_primary_tag = Some (tg_id (mk_primary_tag m)),
     sm_hash = syncHashMarker sha m\<rparr>"

definition marker_statements :: "(string \<Rightarrow> string) \<Rightarrow> syncScene \<Rightarrow> syncMarker \<Rightarrow> statement list" where
  "marker_statements sha s m = [put_marker (marker_row sha s m), clear_marker_tags (mk_id m)] @
     map (\<lambda>t. add_marker_tag (mk_id m, tg_id t)) (mk_tags m)"

definition history_rows :: "string \<Rightarrow> int list \<Rightarrow> history_entry list" where
  "history_rows scene ts = map (\<lambda>(n, t). \<lparr>hr_scene = scene, hr_at_ms = t, hr_ordinal = n\<rparr>) (enumerate 0 ts)"

definition scene_stubs :: "(string \<Rightarrow> string) \<Rightarrow> syncScene \<Rightarrow> statement list" where
  "scene_stubs sha s =
     (case sc_studio s of None \<Rightarrow> [] | Some d \<Rightarrow> stub_studio sha d) @
     concat (map (stub_tag sha) (sc_tags s)) @
     map (stub_performer sha) (sc_performers s) @
     concat (map (\<lambda>m. stub_tag sha (mk_primary_tag m) @ concat (map (stub_tag sha) (mk_tags m))) (sc_markers s))"

definition scene_details :: "(string \<Rightarrow> string) \<Rightarrow> syncScene \<Rightarrow> statement list" where
  "scene_details sha s =
     clear_files (sc_id s) #
     map (\<lambda>f. put_file (file_row sha s f)) (sc_files s) @
     clear_scene_performers (sc_id s) #
     map (\<lambda>(n, p). add_scene_performer (sc_id s, pf_id p, n)) (enumerate 0 (sc_performers s)) @
     clear_scene_tags (sc_id s) #
     map (\<lambda>t. add_scene_tag (sc_id s, tg_id t)) (sc_tags s) @
     (\<lambda>db. Inr (drop_markers (\<lambda>m. sm_scene m = sc_id s) db)) #
     concat (map (marker_statements sha s) (sc_markers s)) @
     clear_plays (sc_id s) #
     map add_play (history_rows (sc_id s) (sc_play_history_ms s)) @
     clear_os (sc_id s) #
     map add_o (history_rows (sc_id s) (sc_o_history_ms s))"

definition syncUpsertScene :: "(string \<Rightarrow> string) \<Rightarrow> syncScene \<Rightarrow> statement list" where
  "syncUpsertScene sha s = scene_stubs sha s @ put_scene (scene_row sha s) # scene_details sha s"

fun upsert_statements :: "(string \<Rightarrow> string) \<Rightarrow> syncSourceEntity \<Rightarrow> statement list" where
  "upsert_statements sha (Tag_Entity t) = syncUpsertTag sha t"
| "upsert_statements sha (Studio_Entity s) = syncUpsertStudio sha s"
| "upsert_statements sha (Performer_Entity p) = syncUpsertPerformer sha p"
| "upsert_statements sha (Scene_Entity s) = syncUpsertScene sha s"

text \<open>The stored hash of the row an entity has, if any.\<close>

fun stored_hash :: "syncSourceEntity \<Rightarrow> source_db \<Rightarrow> string option" where
  "stored_hash (Tag_Entity t) db = map_option st_hash (lookup_row st_id (tg_id t) (tags db))"
| "stored_hash (Studio_Entity s) db = map_option ss_hash (lookup_row ss_id (sd_id s) (studios db))"
| "stored_hash (Performer_Entity p) db = map_option sp_hash (lookup_row sp_id (pf_id p) (performers db))"
| "stored_hash (Scene_Entity s) db = map_option sn_hash (lookup_row sn_id (sc_id s) (scenes db))"

definition syncUpsert :: "(string \<Rightarrow> string) \<Rightarrow> syncSourceEntity \<Rightarrow> source_db \<Rightarrow> (bool \<times> source_db) res" where
  "syncUpsert sha e db =
     (if stored_hash e db = Some (syncHash sha e) then Inr (False, db)
      else and_then (run_statements (upsert_statements sha e) db) (\<lambda>db'. Inr (True, db')))"

section \<open>Deletes\<close>

text \<open>What \<open>ON DELETE CASCADE\<close> removes with the rows of an entity table.\<close>

definition drop_scenes :: "string set \<Rightarrow> source_db \<Rightarrow> source_db" where
  "drop_scenes ids db = drop_markers (\<lambda>m. sm_scene m \<in> ids) (db\<lparr>
     scenes := delete_where (\<lambda>s. sn_id s \<in> ids) (scenes db),
     files := delete_where (\<lambda>f. sf_scene f \<in> ids) (files db),
     scene_performers := delete_where (\<lambda>r. fst r \<in> ids) (scene_performers db),
     scene_tags := delete_where (\<lambda>r. fst r \<in> ids) (scene_tags db),
     source_plays := delete_where (\<lambda>h. hr_scene h \<in> ids) (source_plays db),
     source_os := delete_where (\<lambda>h. hr_scene h \<in> ids) (source_os db)\<rparr>)"

definition drop_performers :: "string set \<Rightarrow> source_db \<Rightarrow> source_db" where
  "drop_performers ids db = db\<lparr>
     performers := delete_where (\<lambda>p. sp_id p \<in> ids) (performers db),
     performer_tags := delete_where (\<lambda>r. fst r \<in> ids) (performer_tags db),
     scene_performers := delete_where (\<lambda>r. fst (snd r) \<in> ids) (scene_performers db)\<rparr>"

definition drop_tags :: "string set \<Rightarrow> source_db \<Rightarrow> source_db" where
  "drop_tags ids db = db\<lparr>
     tags := delete_where (\<lambda>t. st_id t \<in> ids) (tags db),
     tag_parents := delete_where (\<lambda>r. fst r \<in> ids \<or> snd r \<in> ids) (tag_parents db),
     tag_stash_ids := delete_where (\<lambda>r. fst r \<in> ids) (tag_stash_ids db),
     performer_tags := delete_where (\<lambda>r. snd r \<in> ids) (performer_tags db),
     scene_tags := delete_where (\<lambda>r. snd r \<in> ids) (scene_tags db),
     marker_tags := delete_where (\<lambda>r. snd r \<in> ids) (marker_tags db)\<rparr>"

definition drop_studios :: "string set \<Rightarrow> source_db \<Rightarrow> source_db" where
  "drop_studios ids db = db\<lparr>studios := delete_where (\<lambda>s. ss_id s \<in> ids) (studios db)\<rparr>"

text \<open>
  References without a cascade restrict the delete: a marker's primary tag, a studio's parent and
  a scene's studio.
\<close>

definition in_ids :: "string option \<Rightarrow> string set \<Rightarrow> bool" where
  "in_ids r ids \<longleftrightarrow> (case r of None \<Rightarrow> False | Some i \<Rightarrow> i \<in> ids)"

definition syncDeleteEntitiesConn :: "string \<Rightarrow> string list \<Rightarrow> source_db \<Rightarrow> source_db res" where
  "syncDeleteEntitiesConn ty deleted db =
     (let ids = set deleted in
      if deleted = [] then Inr db
      else if ty = ''scene'' then
        Inr (drop_scenes ids (db\<lparr>local_matches := delete_where (\<lambda>r. fst r \<in> ids) (local_matches db)\<rparr>))
      else if ty = ''performer'' then Inr (drop_performers ids db)
      else if ty = ''tag'' then
        let db1 = drop_markers (\<lambda>m. in_ids (sm_primary_tag m) ids) db in
        with_refs (list_all (\<lambda>m. \<not> in_ids (sm_primary_tag m) ids) (markers db1)) (Inr (drop_tags ids db1))
      else if ty = ''studio'' then
        let db1 = db\<lparr>studios := update_where (\<lambda>s. in_ids (ss_parent s) ids) (\<lambda>s. s\<lparr>ss_parent := None\<rparr>) (studios db),
                     scenes := update_where (\<lambda>s. in_ids (sn_studio s) ids) (\<lambda>s. s\<lparr>sn_studio := None\<rparr>) (scenes db)\<rparr>;
            db2 = drop_studios ids db1 in
        with_refs (list_all (\<lambda>s. \<not> in_ids (ss_parent s) ids) (studios db2) \<and>
                   list_all (\<lambda>s. \<not> in_ids (sn_studio s) ids) (scenes db2)) (Inr db2)
      else Inl (Msg ''near \"\": syntax error''))"

end
