(* ===== verification/Sync_Mirror.thy ===== *)
theory Sync_Mirror
  imports Sync_Tables
begin

text \<open>
  What the upserts and deletes of \<open>Sync_Tables\<close> keep: primary keys and references of the mirror
  (\<open>source_inv\<close>), the entities it knows (\<open>entities_grow\<close>), and the hash that makes a
  second upsert of the same entity a no-op.
\<close>

section \<open>The invariant of the mirror\<close>

definition source_inv :: "source_db \<Rightarrow> bool" where
  "source_inv db \<longleftrightarrow> keys_ok db \<and> refs_ok db"

lemma keys_upsert_row:
  assumes "\<And>x. key x = key r \<Longrightarrow> key (mrg x r) = key r"
  shows "key ` set (upsert_row key mrg r rows) = insert (key r) (key ` set rows)"
proof -
  have "key ` set (update_where (\<lambda>x. key x = key r) (\<lambda>x. mrg x r) rows) = key ` set rows"
    using keys_update_where [of rows "\<lambda>x. key x = key r" key "\<lambda>x. mrg x r"] assms by (metis list.set_map)
  then show ?thesis by (auto simp: upsert_row_def)
qed

lemma in_upsert_replace: "x \<in> set (upsert_row key (\<lambda>old new. new) r rows) \<Longrightarrow> x = r \<or> x \<in> set rows"
  by (auto simp: set_upsert_replace)

lemma with_refs_Inr: "with_refs ok r = Inr x \<longleftrightarrow> ok \<and> r = Inr x"
  by (auto simp: with_refs_def and_then_Inr_iff)

lemma null_or_mono: "null_or r A \<Longrightarrow> A \<subseteq> B \<Longrightarrow> null_or r B"
  by (auto simp: null_or_def split: option.splits)

text \<open>A statement of an upsert: it keeps the invariant and forgets no entity.\<close>

definition entities_grow :: "source_db \<Rightarrow> source_db \<Rightarrow> bool" where
  "entities_grow a b \<longleftrightarrow> tag_ids a \<subseteq> tag_ids b \<and> studio_ids a \<subseteq> studio_ids b \<and>
     performer_ids a \<subseteq> performer_ids b \<and> scene_ids a \<subseteq> scene_ids b"

definition keeps_inv :: "statement \<Rightarrow> bool" where
  "keeps_inv s \<longleftrightarrow> (\<forall>a b. source_inv a \<longrightarrow> s a = Inr b \<longrightarrow> source_inv b \<and> entities_grow a b)"

lemmas id_sets = tag_ids_def studio_ids_def performer_ids_def scene_ids_def marker_ids_def

lemmas mirror_defs = keeps_inv_def source_inv_def keys_ok_def refs_ok_def entities_grow_def id_sets

lemma keeps_put_tag: "(\<And>x. st_id x = st_id r \<Longrightarrow> st_id (mrg x r) = st_id r) \<Longrightarrow> keeps_inv (put_tag mrg r)"
  by (auto simp: mirror_defs put_tag_def keys_upsert_row null_or_def split: option.splits intro!: unique_key_upsert)

lemma keeps_add_tag_parent: "keeps_inv (add_tag_parent r)"
  by (auto simp: mirror_defs add_tag_parent_def with_refs_Inr and_then_Inr_iff insert_row_Inr)

lemma keeps_clear_tag_parents: "keeps_inv (clear_tag_parents t)"
  by (auto simp: mirror_defs clear_tag_parents_def)

lemma keeps_clear_stash_ids: "keeps_inv (clear_stash_ids t)"
  by (auto simp: mirror_defs clear_stash_ids_def)

lemma keeps_add_stash_id: "keeps_inv (add_stash_id r)"
  by (auto simp: mirror_defs add_stash_id_def with_refs_Inr and_then_Inr_iff insert_row_Inr)

lemma keeps_put_studio:
  "(\<And>x. ss_id x = ss_id r \<Longrightarrow> ss_id (mrg x r) = ss_id r) \<Longrightarrow> keeps_inv (put_studio mrg r)"
  by (auto simp: mirror_defs put_studio_def and_then_Inr_iff upsert_checked_Inr keys_upsert_row list_all_iff null_or_def
      split: option.splits if_splits intro!: unique_key_upsert)

lemma keeps_put_performer:
  "(\<And>x. sp_id x = sp_id r \<Longrightarrow> sp_id (mrg x r) = sp_id r) \<Longrightarrow> keeps_inv (put_performer mrg r)"
  by (auto simp: mirror_defs put_performer_def and_then_Inr_iff upsert_checked_Inr keys_upsert_row
      intro!: unique_key_upsert)

lemma keeps_clear_performer_tags: "keeps_inv (clear_performer_tags p)"
  by (auto simp: mirror_defs clear_performer_tags_def)

lemma keeps_add_performer_tag: "keeps_inv (add_performer_tag r)"
  by (auto simp: mirror_defs add_performer_tag_def with_refs_Inr and_then_Inr_iff insert_row_Inr)

lemma keeps_put_scene: "keeps_inv (put_scene r)"
  by (auto simp: mirror_defs put_scene_def with_refs_Inr and_then_Inr_iff upsert_checked_Inr keys_upsert_row
       intro!: unique_key_upsert dest!: in_upsert_replace)

lemma keeps_clear_files: "keeps_inv (clear_files s)"
  by (auto simp: mirror_defs clear_files_def intro!: unique_key_delete)

lemma keeps_put_file: "keeps_inv (put_file r)"
  by (auto simp: mirror_defs put_file_def with_refs_Inr and_then_Inr_iff upsert_checked_Inr 
      intro!: unique_key_upsert dest!: in_upsert_replace)

lemma keeps_clear_scene_performers: "keeps_inv (clear_scene_performers s)"
  by (auto simp: mirror_defs clear_scene_performers_def)

lemma keeps_add_scene_performer: "keeps_inv (add_scene_performer r)"
  by (auto simp: mirror_defs add_scene_performer_def with_refs_Inr and_then_Inr_iff insert_row_Inr)

lemma keeps_clear_scene_tags: "keeps_inv (clear_scene_tags s)"
  by (auto simp: mirror_defs clear_scene_tags_def)

lemma keeps_add_scene_tag: "keeps_inv (add_scene_tag r)"
  by (auto simp: mirror_defs add_scene_tag_def with_refs_Inr and_then_Inr_iff insert_row_Inr)

lemma image_kept: "x \<in> f ` A \<Longrightarrow> x \<notin> f ` {y \<in> A. p y} \<Longrightarrow> x \<in> f ` {y \<in> A. \<not> p y}"
  by blast

lemma drop_markers_inv: "source_inv db \<Longrightarrow> source_inv (drop_markers p db)"
  by (auto simp: source_inv_def keys_ok_def refs_ok_def id_sets drop_markers_def Let_def
      intro!: unique_key_delete intro: image_kept)

lemma keeps_drop_markers: "keeps_inv (\<lambda>db. Inr (drop_markers p db))"
  using drop_markers_inv by (auto simp: keeps_inv_def entities_grow_def id_sets drop_markers_def Let_def)

lemma keeps_put_marker: "keeps_inv (put_marker r)"
  by (auto simp: mirror_defs put_marker_def with_refs_Inr and_then_Inr_iff upsert_checked_Inr keys_upsert_row
       intro!: unique_key_upsert dest!: in_upsert_replace)

lemma keeps_clear_marker_tags: "keeps_inv (clear_marker_tags m)"
  by (auto simp: mirror_defs clear_marker_tags_def)

lemma keeps_add_marker_tag: "keeps_inv (add_marker_tag r)"
  by (auto simp: mirror_defs add_marker_tag_def with_refs_Inr and_then_Inr_iff insert_row_Inr)

lemma keeps_history: "keeps_inv (clear_plays s)" "keeps_inv (clear_os s)" "keeps_inv (add_play r)" "keeps_inv (add_o r)"
  by (auto simp: mirror_defs clear_plays_def clear_os_def add_play_def add_o_def with_refs_Inr and_then_Inr_iff insert_row_Inr)

section \<open>Statement lists\<close>

lemma run_statements_Cons: "run_statements (s # ss) db = and_then (s db) (run_statements ss)"
  by (cases "s db") (simp_all add: run_statements_def)

lemma run_statements_Nil: "run_statements [] db = Inr db"
  by (simp add: run_statements_def)

lemma run_statements_append: "run_statements (ss @ ts) db = and_then (run_statements ss db) (run_statements ts)"
proof (induction ss arbitrary: db)
  case Nil
  then show ?case by (simp add: run_statements_Nil)
next
  case (Cons s ss)
  then show ?case by (cases "s db") (simp_all add: run_statements_Cons)
qed

lemma entities_grow_refl: "entities_grow a a"
  by (simp add: entities_grow_def)

lemma entities_grow_trans: "entities_grow a b \<Longrightarrow> entities_grow b c \<Longrightarrow> entities_grow a c"
  unfolding entities_grow_def by (meson order_trans)

lemma run_keeps_inv:
  "\<forall>s \<in> set ss. keeps_inv s \<Longrightarrow> source_inv a \<Longrightarrow> run_statements ss a = Inr b \<Longrightarrow> source_inv b \<and> entities_grow a b"
proof (induction ss arbitrary: a)
  case Nil
  then show ?case by (simp add: run_statements_Nil entities_grow_refl)
next
  case (Cons s ss)
  then obtain c where "s a = Inr c" "run_statements ss c = Inr b"
    by (auto simp: run_statements_Cons and_then_Inr_iff)
  then have c: "source_inv c" "entities_grow a c" "run_statements ss c = Inr b"
    using Cons.prems(1,2) by (simp_all add: keeps_inv_def)
  then have "source_inv b" "entities_grow c b"
    using Cons.IH [OF _ c(1,3)] Cons.prems(1) by simp_all
  with c(2) show ?case using entities_grow_trans by blast
qed

lemma keeps_stub_tag: "\<forall>s \<in> set (stub_tag sha t). keeps_inv s"
  by (induction t) (auto simp: tag_row_def intro!: keeps_put_tag)

lemma keeps_stub_studio: "\<forall>s \<in> set (stub_studio sha t). keeps_inv s"
proof (induction t)
  case (SyncStudio i n u f r p)
  then show ?case by (cases p) (auto intro!: keeps_put_studio)
qed

lemma keeps_stub_performer: "keeps_inv (stub_performer sha p)"
  unfolding stub_performer_def by (rule keeps_put_performer) simp

lemmas keeps_statements = keeps_put_tag keeps_add_tag_parent keeps_clear_tag_parents keeps_clear_stash_ids
  keeps_add_stash_id keeps_put_studio keeps_put_performer keeps_clear_performer_tags keeps_add_performer_tag
  keeps_put_scene keeps_clear_files keeps_put_file keeps_clear_scene_performers keeps_add_scene_performer
  keeps_clear_scene_tags keeps_add_scene_tag keeps_drop_markers keeps_put_marker keeps_clear_marker_tags
  keeps_add_marker_tag keeps_history keeps_stub_performer

lemma keeps_upsert: "\<forall>s \<in> set (upsert_statements sha e). keeps_inv s"
proof (cases e)
  case (Tag_Entity t)
  then show ?thesis using keeps_stub_tag by (auto simp: syncUpsertTag_def intro!: keeps_statements)
next
  case (Studio_Entity s)
  then show ?thesis using keeps_stub_studio
    by (auto simp: syncUpsertStudio_def studio_row_def intro!: keeps_statements split: option.splits)
next
  case (Performer_Entity p)
  then show ?thesis using keeps_stub_tag
    by (auto simp: syncUpsertPerformer_def merge_performer_def performer_row_def intro!: keeps_statements)
next
  case (Scene_Entity s)
  then show ?thesis using keeps_stub_tag keeps_stub_studio
    by (auto simp: syncUpsertScene_def scene_stubs_def scene_details_def marker_statements_def history_rows_def intro!: keeps_statements split: option.splits)
qed

section \<open>No upsert breaks a reference\<close>

definition known :: "string set \<Rightarrow> string set \<Rightarrow> string set \<Rightarrow> string set \<Rightarrow> source_db \<Rightarrow> bool" where
  "known T S P C db \<longleftrightarrow> source_inv db \<and> T \<subseteq> tag_ids db \<and> S \<subseteq> studio_ids db \<and> P \<subseteq> performer_ids db \<and> C \<subseteq> scene_ids db"

definition safe_run :: "(source_db \<Rightarrow> bool) \<Rightarrow> statement list \<Rightarrow> (source_db \<Rightarrow> bool) \<Rightarrow> bool" where
  "safe_run K ss L \<longleftrightarrow> (\<forall>a. K a \<longrightarrow> (case run_statements ss a of Inl e \<Rightarrow> e \<noteq> Foreign_Key_Violation | Inr b \<Rightarrow> L b))"

lemma safe_append: "safe_run K ss L \<Longrightarrow> safe_run L ts M \<Longrightarrow> safe_run K (ss @ ts) M"
  unfolding safe_run_def run_statements_append
  by (metis (no_types, lifting) and_then.simps(1) and_then.simps(2) sum.case_eq_if sum.collapse(1) sum.collapse(2))

lemma safe_Nil: "safe_run K [] K"
  by (simp add: safe_run_def run_statements_def)

lemma known_grow: "known T S P C a \<Longrightarrow> source_inv b \<Longrightarrow> entities_grow a b \<Longrightarrow> known T S P C b"
  unfolding known_def entities_grow_def by blast

lemma safe_one:
  assumes "keeps_inv s" and "\<And>a. known T S P C a \<Longrightarrow> s a \<noteq> Inl Foreign_Key_Violation"
    and "\<And>a b. s a = Inr b \<Longrightarrow> T' \<subseteq> tag_ids b \<and> S' \<subseteq> studio_ids b \<and> P' \<subseteq> performer_ids b \<and> C' \<subseteq> scene_ids b"
  shows "safe_run (known T S P C) [s] (known (T \<union> T') (S \<union> S') (P \<union> P') (C \<union> C'))"
  unfolding safe_run_def
proof (intro allI impI)
  fix a
  assume a: "known T S P C a"
  show "case run_statements [s] a of Inl e \<Rightarrow> e \<noteq> Foreign_Key_Violation
      | Inr b \<Rightarrow> known (T \<union> T') (S \<union> S') (P \<union> P') (C \<union> C') b"
  proof (cases "s a")
    case (Inl e)
    then show ?thesis using assms(2) [OF a] by (simp add: run_statements_Cons)
  next
    case (Inr b)
    then have "known T S P C b"
      using assms(1) a known_grow unfolding keeps_inv_def by (meson known_def)
    with assms(3) [OF Inr] Inr show ?thesis
      by (simp add: run_statements_Cons run_statements_Nil known_def)
  qed
qed

lemma safe_keep:
  assumes "keeps_inv s" and "\<And>a. known T S P C a \<Longrightarrow> s a \<noteq> Inl Foreign_Key_Violation"
  shows "safe_run (known T S P C) [s] (known T S P C)"
  using safe_one [OF assms, where T' = "{}" and S' = "{}" and P' = "{}" and C' = "{}"] by simp

lemma safe_concat:
  "(\<And>x. x \<in> set xs \<Longrightarrow> safe_run K (f x) K) \<Longrightarrow> safe_run K (concat (map f xs)) K"
  by (induction xs) (auto intro: safe_Nil safe_append)

lemma safe_map:
  "(\<And>x. x \<in> set xs \<Longrightarrow> safe_run K [f x] K) \<Longrightarrow> safe_run K (map f xs) K"
  using safe_concat [of xs K "\<lambda>x. [f x]"] by (simp add: concat_map_singleton)

lemma with_refs_fk: "with_refs ok r = Inl Foreign_Key_Violation \<longleftrightarrow> r = Inl Foreign_Key_Violation \<or> (is_ok r \<and> \<not> ok)"
  by (cases r) (auto simp: with_refs_def)

lemma no_fk [simp]:
  "insert_row key check r rows \<noteq> Inl Foreign_Key_Violation"
  "upsert_checked key check mrg r rows \<noteq> Inl Foreign_Key_Violation"
  by (simp_all add: insert_row_def upsert_checked_def)

lemma and_then_fk [simp]: "and_then r (\<lambda>x. Inr (g x)) = Inl e \<longleftrightarrow> r = Inl e"
  by (cases r) auto

lemma safe_weaken: "safe_run K ss L \<Longrightarrow> (\<And>a. L a \<Longrightarrow> M a) \<Longrightarrow> safe_run K ss M"
  unfolding safe_run_def by (auto split: sum.splits)

lemma known_mono: "known T S P C a \<Longrightarrow> T' \<subseteq> T \<Longrightarrow> S' \<subseteq> S \<Longrightarrow> P' \<subseteq> P \<Longrightarrow> C' \<subseteq> C \<Longrightarrow> known T' S' P' C' a"
  unfolding known_def by blast

lemma known_insert:
  "known (insert t T) S P C a \<Longrightarrow> known T S P C a" "known T (insert s S) P C a \<Longrightarrow> known T S P C a"
  by (simp_all add: known_def)

lemma safe_stub_tag: "safe_run (known T S P C) (stub_tag sha t) (known (insert (tg_id t) T) S P C)"
proof (induction t arbitrary: T)
  case (SyncTag i n u ps ids)
  have grow: "safe_run (known T S P C) (concat (map (stub_tag sha) qs)) (known T S P C)" if "set qs \<subseteq> set ps" for qs T
    using that
  proof (induction qs)
    case (Cons q qs)
    have "safe_run (known T S P C) (stub_tag sha q) (known (insert (tg_id q) T) S P C)"
      using SyncTag Cons.prems by auto
    then have "safe_run (known T S P C) (stub_tag sha q) (known T S P C)"
      by (rule safe_weaken) (rule known_insert)
    with Cons show ?case by (auto intro: safe_append)
  qed (simp add: safe_Nil)
  have "safe_run (known T S P C) [put_tag (\<lambda>old new. old\<lparr>st_name := coalesce (st_name new) (st_name old),
        st_updated_at := coalesce (st_updated_at new) (st_updated_at old)\<rparr>) (tag_row sha (SyncTag i n u ps ids))]
      (known (T \<union> {i}) (S \<union> {}) (P \<union> {}) (C \<union> {}))"
    by (rule safe_one) (auto simp: put_tag_def tag_row_def tag_ids_def keys_upsert_row intro!: keeps_put_tag)
  from safe_append [OF grow [OF order_refl] this] show ?case by simp
qed

lemma safe_stub_tags: "safe_run (known T S P C) (concat (map (stub_tag sha) ts)) (known (tg_id ` set ts \<union> T) S P C)"
proof (induction ts arbitrary: T)
  case (Cons t ts)
  from safe_append [OF safe_stub_tag [of T S P C sha t] Cons.IH] show ?case by simp
qed (simp add: safe_Nil)

lemma in_upsert_row:
  "x \<in> set (upsert_row key mrg r rows) \<Longrightarrow> x = r \<or> x \<in> set rows \<or> (\<exists>y \<in> set rows. key y = key r \<and> x = mrg y r)"
  by (auto simp: upsert_row_def set_update_where split: if_splits)

lemma put_studio_no_fk:
  assumes "source_inv a" and "\<And>x. ss_id x = ss_id r \<Longrightarrow> ss_id (mrg x r) = ss_id r"
    and "\<And>x. x \<in> set (studios a) \<Longrightarrow> null_or (ss_parent (mrg x r)) (insert (ss_id r) (studio_ids a))"
    and "null_or (ss_parent r) (insert (ss_id r) (studio_ids a))"
  shows "put_studio mrg r a \<noteq> Inl Foreign_Key_Violation"
proof -
  have ids: "ss_id ` set (upsert_row ss_id mrg r (studios a)) = insert (ss_id r) (studio_ids a)"
    using assms(2) by (simp add: keys_upsert_row studio_ids_def)
  have old: "null_or (ss_parent s) (insert (ss_id r) (studio_ids a))" if "s \<in> set (studios a)" for s
    using assms(1) that null_or_mono [of "ss_parent s" "studio_ids a"] by (auto simp: source_inv_def refs_ok_def)
  have "\<forall>s \<in> set (upsert_row ss_id mrg r (studios a)). null_or (ss_parent s) (insert (ss_id r) (studio_ids a))"
    using assms(3,4) old by (auto dest!: in_upsert_row)
  then show ?thesis
    by (auto simp: put_studio_def upsert_checked_def list_all_iff ids)
qed

lemma safe_stub_studio: "safe_run (known T S P C) (stub_studio sha s) (known T (insert (sd_id s) S) P C)"
proof (induction s arbitrary: S)
  case (SyncStudio i n u f r p)
  have parent: "safe_run (known T S P C) (case p of None \<Rightarrow> [] | Some q \<Rightarrow> stub_studio sha q) (known T S P C)"
  proof (cases p)
    case (Some q)
    then have "safe_run (known T S P C) (stub_studio sha q) (known T (insert (sd_id q) S) P C)"
      using SyncStudio [of q] by simp
    then show ?thesis unfolding Some option.case by (rule safe_weaken) (rule known_insert)
  qed (simp add: safe_Nil)
  have "safe_run (known T S P C) [put_studio (\<lambda>old new. old\<lparr>ss_name := coalesce (ss_name new) (ss_name old),
        ss_updated_at := coalesce (ss_updated_at new) (ss_updated_at old)\<rparr>)
        \<lparr>ss_id = i, ss_name = n, ss_parent = None, ss_updated_at = u,
         ss_hash = syncHash sha (Studio_Entity (SyncStudio i n u f r p)), ss_favorite = False, ss_rating100 = None\<rparr>]
      (known (T \<union> {}) (S \<union> {i}) (P \<union> {}) (C \<union> {}))" (is "safe_run _ [put_studio ?m ?r] _")
  proof (rule safe_one)
    show "keeps_inv (put_studio ?m ?r)" by (rule keeps_put_studio) simp
    show "{} \<subseteq> tag_ids b \<and> {i} \<subseteq> studio_ids b \<and> {} \<subseteq> performer_ids b \<and> {} \<subseteq> scene_ids b"
      if "put_studio ?m ?r a = Inr b" for a b
      using that by (auto simp: put_studio_def and_then_Inr_iff upsert_checked_Inr studio_ids_def keys_upsert_row split: if_splits)
    show "put_studio ?m ?r a \<noteq> Inl Foreign_Key_Violation" if "known T S P C a" for a
      using that by (intro put_studio_no_fk) (auto simp: known_def source_inv_def refs_ok_def studio_ids_def null_or_def split: option.splits)
  qed
  from safe_append [OF parent this] show ?case by simp
qed

text \<open>A list is walked from the left; every statement finds the references it needs.\<close>

lemma safe_keep_Cons:
  "keeps_inv s \<Longrightarrow> (\<And>a. known T S P C a \<Longrightarrow> s a \<noteq> Inl Foreign_Key_Violation) \<Longrightarrow>
   safe_run (known T S P C) ts M \<Longrightarrow> safe_run (known T S P C) (s # ts) M"
  using safe_append [OF safe_keep, of s T S P C ts M] by simp

lemma safe_keep_map:
  "(\<And>x. x \<in> set xs \<Longrightarrow> keeps_inv (f x)) \<Longrightarrow>
   (\<And>x a. x \<in> set xs \<Longrightarrow> known T S P C a \<Longrightarrow> f x a \<noteq> Inl Foreign_Key_Violation) \<Longrightarrow>
   safe_run (known T S P C) ts M \<Longrightarrow> safe_run (known T S P C) (map f xs @ ts) M"
  by (rule safe_append [OF safe_map]) (auto intro: safe_keep)

lemma safe_last_map:
  "(\<And>x. x \<in> set xs \<Longrightarrow> keeps_inv (f x)) \<Longrightarrow>
   (\<And>x a. x \<in> set xs \<Longrightarrow> known T S P C a \<Longrightarrow> f x a \<noteq> Inl Foreign_Key_Violation) \<Longrightarrow>
   safe_run (known T S P C) (map f xs) (known T S P C)"
  by (rule safe_map) (auto intro: safe_keep)

lemma safe_put_Cons:
  "keeps_inv s \<Longrightarrow> (\<And>a. known T S P C a \<Longrightarrow> s a \<noteq> Inl Foreign_Key_Violation) \<Longrightarrow>
   (\<And>a b. s a = Inr b \<Longrightarrow> T' \<subseteq> tag_ids b \<and> S' \<subseteq> studio_ids b \<and> P' \<subseteq> performer_ids b \<and> C' \<subseteq> scene_ids b) \<Longrightarrow>
   safe_run (known (T \<union> T') (S \<union> S') (P \<union> P') (C \<union> C')) ts M \<Longrightarrow> safe_run (known T S P C) (s # ts) M"
  using safe_append [OF safe_one, of s T S P C T' S' P' C' ts M] by simp

lemmas statement_defs = put_tag_def put_studio_def put_performer_def put_scene_def clear_tag_parents_def
  add_tag_parent_def clear_stash_ids_def add_stash_id_def clear_performer_tags_def add_performer_tag_def
  clear_files_def put_file_def clear_scene_performers_def add_scene_performer_def clear_scene_tags_def
  add_scene_tag_def put_marker_def clear_marker_tags_def add_marker_tag_def clear_plays_def add_play_def
  clear_os_def add_o_def

lemma safe_tag: "safe_run (known {} {} {} {}) (syncUpsertTag sha t) (known {tg_id t} {} {} {})"
  unfolding syncUpsertTag_def append_Cons append_Nil
proof (rule safe_append [OF safe_stub_tags], rule safe_put_Cons [where T' = "{tg_id t}" and S' = "{}" and P' = "{}" and C' = "{}"])
  show "safe_run (known (tg_id ` set (tg_parents t) \<union> {} \<union> {tg_id t}) ({} \<union> {}) ({} \<union> {}) ({} \<union> {}))
     (clear_tag_parents (tg_id t) # map (\<lambda>p. add_tag_parent (tg_id t, tg_id p)) (tg_parents t) @
      clear_stash_ids (tg_id t) #
      map (\<lambda>i. add_stash_id (tg_id t, si_endpoint i, si_stash_id i)) (first_endpoints {} (tg_stash_ids t)))
     (known {tg_id t} {} {} {})"
    by (rule safe_weaken [of _ _ "known (tg_id ` set (tg_parents t) \<union> {} \<union> {tg_id t}) ({} \<union> {}) ({} \<union> {}) ({} \<union> {})"],
        intro safe_keep_Cons safe_keep_map safe_last_map keeps_statements)
      (auto simp: statement_defs with_refs_fk known_def)
qed (auto simp: put_tag_def tag_row_def tag_ids_def keys_upsert_row intro!: keeps_put_tag)

lemma safe_studio: "safe_run (known {} {} {} {}) (syncUpsertStudio sha s) (known {} {sd_id s} {} {})"
proof -
  let ?K = "known {} (set_option (map_option sd_id (sd_parent s))) {} {}"
  have "safe_run (known {} {} {} {}) (case sd_parent s of None \<Rightarrow> [] | Some p \<Rightarrow> stub_studio sha p) ?K"
    by (cases "sd_parent s") (auto simp: safe_Nil intro: safe_stub_studio [of "{}" "{}", simplified])
  moreover have "safe_run ?K [put_studio (\<lambda>old new. new) (studio_row sha s)] (known {} {sd_id s} {} {})"
  proof (rule safe_weaken, rule safe_one [where T' = "{}" and S' = "{sd_id s}" and P' = "{}" and C' = "{}"])
    show "put_studio (\<lambda>old new. new) (studio_row sha s) a \<noteq> Inl Foreign_Key_Violation" if "?K a" for a
      using that by (intro put_studio_no_fk)
        (auto simp: known_def studio_row_def null_or_def split: option.splits)
  qed (auto simp: put_studio_def and_then_Inr_iff upsert_checked_Inr studio_ids_def studio_row_def keys_upsert_row known_def
      split: if_splits intro!: keeps_put_studio)
  ultimately show ?thesis unfolding syncUpsertStudio_def by (rule safe_append)
qed

lemma safe_performer: "safe_run (known {} {} {} {}) (syncUpsertPerformer sha p) (known {} {} {pf_id p} {})"
  unfolding syncUpsertPerformer_def append_Cons append_Nil
proof (rule safe_append [OF safe_stub_tags], rule safe_put_Cons [where T' = "{}" and S' = "{}" and P' = "{pf_id p}" and C' = "{}"])
  show "safe_run (known (tg_id ` set (pf_tags p) \<union> {} \<union> {}) ({} \<union> {}) ({} \<union> {pf_id p}) ({} \<union> {}))
     (clear_performer_tags (pf_id p) # map (\<lambda>t. add_performer_tag (pf_id p, tg_id t)) (pf_tags p))
     (known {} {} {pf_id p} {})"
    by (rule safe_weaken [of _ _ "known (tg_id ` set (pf_tags p) \<union> {} \<union> {}) ({} \<union> {}) ({} \<union> {pf_id p}) ({} \<union> {})"],
        intro safe_keep_Cons safe_keep_map safe_last_map keeps_statements)
      (auto simp: statement_defs with_refs_fk known_def)
qed (auto simp: put_performer_def performer_row_def merge_performer_def performer_ids_def keys_upsert_row
      and_then_Inr_iff upsert_checked_Inr intro!: keeps_put_performer)

lemma safe_stub_performers:
  "safe_run (known T S P C) (map (stub_performer sha) ps) (known T S (pf_id ` set ps \<union> P) C)"
proof (induction ps arbitrary: P)
  case (Cons p ps)
  have "safe_run (known T S P C) [stub_performer sha p] (known (T \<union> {}) (S \<union> {}) (P \<union> {pf_id p}) (C \<union> {}))"
    by (rule safe_one [OF keeps_stub_performer])
      (auto simp: stub_performer_def put_performer_def performer_ids_def keys_upsert_row and_then_Inr_iff
        upsert_checked_Inr)
  from safe_append [OF this, of "map (stub_performer sha) ps"] Cons.IH [of "P \<union> {pf_id p}"] show ?case
    by (simp add: Un_insert_left Un_commute)
qed (simp add: safe_Nil)

text \<open>The statements of one marker; the tags of the marker follow its row.\<close>

lemma safe_marker:
  assumes "sc_id s \<in> C" "tg_id (mk_primary_tag m) \<in> T" "tg_id ` set (mk_tags m) \<subseteq> T"
  shows "safe_run (known T S P C) (marker_statements sha s m) (known T S P C)"
proof -
  let ?K = "\<lambda>a. known T S P C a \<and> mk_id m \<in> marker_ids a"
  have put: "safe_run (known T S P C) [put_marker (marker_row sha s m)] ?K"
    unfolding safe_run_def
  proof (intro allI impI)
    fix a
    assume a: "known T S P C a"
    have ref: "null_or (Some (tg_id (mk_primary_tag m))) (tag_ids a)" "sc_id s \<in> scene_ids a"
      using a assms by (auto simp: known_def null_or_def)
    show "case run_statements [put_marker (marker_row sha s m)] a of
        Inl e \<Rightarrow> e \<noteq> Foreign_Key_Violation | Inr b \<Rightarrow> known T S P C b \<and> mk_id m \<in> marker_ids b"
    proof (cases "put_marker (marker_row sha s m) a")
      case (Inl e)
      moreover have "put_marker (marker_row sha s m) a \<noteq> Inl Foreign_Key_Violation"
        using ref by (auto simp: put_marker_def marker_row_def with_refs_fk)
      ultimately show ?thesis by (simp add: run_statements_Cons)
    next
      case (Inr b)
      then have "known T S P C b"
        using a known_grow keeps_put_marker unfolding keeps_inv_def by (meson known_def)
      moreover have "mk_id m \<in> marker_ids b"
        using Inr by (auto simp: put_marker_def with_refs_Inr and_then_Inr_iff upsert_checked_Inr marker_ids_def
          marker_row_def keys_upsert_row)
      ultimately show ?thesis using Inr by (simp add: run_statements_Cons run_statements_Nil)
    qed
  qed
  have tag: "safe_run ?K [s] ?K"
    if "keeps_inv s" "\<And>a. ?K a \<Longrightarrow> s a \<noteq> Inl Foreign_Key_Violation" "\<And>a b. s a = Inr b \<Longrightarrow> marker_ids b = marker_ids a" for s
    unfolding safe_run_def
  proof (intro allI impI)
    fix a
    assume a: "?K a"
    show "case run_statements [s] a of Inl e \<Rightarrow> e \<noteq> Foreign_Key_Violation | Inr b \<Rightarrow> ?K b"
    proof (cases "s a")
      case (Inl e)
      with that(2) [OF a] show ?thesis by (simp add: run_statements_Cons)
    next
      case (Inr b)
      then have "known T S P C b" using a that(1) known_grow unfolding keeps_inv_def by (meson known_def)
      with a that(3) [OF Inr] Inr show ?thesis by (simp add: run_statements_Cons run_statements_Nil)
    qed
  qed
  have rest: "safe_run ?K (map (\<lambda>t. add_marker_tag (mk_id m, tg_id t)) (mk_tags m)) ?K"
  proof (rule safe_map, rule tag)
    show "add_marker_tag (mk_id m, tg_id t) a \<noteq> Inl Foreign_Key_Violation" if "?K a" "t \<in> set (mk_tags m)" for t a
      using that assms(3) by (auto simp: add_marker_tag_def with_refs_fk known_def)
  qed (auto simp: add_marker_tag_def with_refs_Inr and_then_Inr_iff marker_ids_def intro!: keeps_statements)
  have "safe_run ?K [clear_marker_tags (mk_id m)] ?K"
    by (rule tag) (auto simp: clear_marker_tags_def marker_ids_def intro!: keeps_statements)
  from safe_append [OF put safe_append [OF this rest]] show ?thesis
    unfolding marker_statements_def by (simp add: safe_weaken)
qed

lemma safe_scene_rows:
  assumes S: "set_option (map_option sd_id (sc_studio s)) \<subseteq> S" and P: "pf_id ` set (sc_performers s) \<subseteq> P"
    and T: "tg_id ` set (sc_tags s) \<subseteq> T" "\<And>m. m \<in> set (sc_markers s) \<Longrightarrow> insert (tg_id (mk_primary_tag m)) (tg_id ` set (mk_tags m)) \<subseteq> T"
  shows "safe_run (known T S P {}) (put_scene (scene_row sha s) # scene_details sha s) (known T S P {sc_id s})"
proof (rule safe_put_Cons [where T' = "{}" and S' = "{}" and P' = "{}" and C' = "{sc_id s}"], goal_cases)
  case 1
  show ?case by (rule keeps_put_scene)
next
  case (2 a)
  then show ?case using S by (auto simp: put_scene_def with_refs_fk scene_row_def null_or_def known_def split: option.splits)
next
  case (3 a b)
  then show ?case
    by (auto simp: put_scene_def with_refs_Inr and_then_Inr_iff upsert_checked_Inr scene_ids_def scene_row_def keys_upsert_row)
next
  case 4
  let ?K = "known T S P {sc_id s}"
  have mrk: "safe_run ?K (concat (map (marker_statements sha s) (sc_markers s))) ?K"
    using T(2) by (intro safe_concat safe_marker) auto
  have K: "known (T \<union> {}) (S \<union> {}) (P \<union> {}) ({} \<union> {sc_id s}) = ?K" by simp
  have nth: "pf_id (sc_performers s ! n) \<in> ids" if "P \<subseteq> ids" "n < length (sc_performers s)" for n ids
    by (meson P image_subset_iff nth_mem subset_iff that)
  show ?case
    unfolding K scene_details_def
    by (intro safe_keep_Cons safe_keep_map safe_last_map safe_append [OF mrk] keeps_statements)
      (use T(1) in \<open>auto simp: nth statement_defs with_refs_fk known_def file_row_def history_rows_def in_set_enumerate_eq
        intro!: keeps_statements\<close>)
qed

lemma safe_scene: "safe_run (known {} {} {} {}) (syncUpsertScene sha s) (known {} {} {} {sc_id s})"
proof -
  define S where "S = set_option (map_option sd_id (sc_studio s))"
  define T1 where "T1 = tg_id ` set (sc_tags s)"
  define P where "P = pf_id ` set (sc_performers s)"
  define marks where "marks = (\<lambda>m :: syncMarker. tg_id ` set (mk_tags m) \<union> {tg_id (mk_primary_tag m)})"
  define T where "T = (\<Union>m \<in> set (sc_markers s). marks m) \<union> T1"
  have studio: "safe_run (known {} {} {} {}) (case sc_studio s of None \<Rightarrow> [] | Some d \<Rightarrow> stub_studio sha d) (known {} S {} {})"
    by (cases "sc_studio s") (auto simp: S_def safe_Nil intro: safe_stub_studio [of "{}" "{}", simplified])
  have tags: "safe_run (known {} S {} {}) (concat (map (stub_tag sha) (sc_tags s))) (known T1 S {} {})"
    using safe_stub_tags [of "{}" S "{}" "{}" sha "sc_tags s"] by (simp add: T1_def)
  have perf: "safe_run (known T1 S {} {}) (map (stub_performer sha) (sc_performers s)) (known T1 S P {})"
    using safe_stub_performers [of T1 S "{}" "{}" sha "sc_performers s"] by (simp add: P_def)
  have mark: "safe_run (known T0 S P {}) (concat (map (\<lambda>m. stub_tag sha (mk_primary_tag m) @
      concat (map (stub_tag sha) (mk_tags m))) ms)) (known ((\<Union>m \<in> set ms. marks m) \<union> T0) S P {})" for T0 ms
  proof (induction ms arbitrary: T0)
    case (Cons m ms)
    have "safe_run (known T0 S P {}) (stub_tag sha (mk_primary_tag m) @ concat (map (stub_tag sha) (mk_tags m)))
        (known (marks m \<union> T0) S P {})"
      using safe_append [OF safe_stub_tag safe_stub_tags] by (simp add: marks_def)
    from safe_append [OF this Cons.IH] show ?case by (simp add: Un_ac)
  qed (simp add: safe_Nil)
  have "safe_run (known T S P {}) (put_scene (scene_row sha s) # scene_details sha s) (known T S P {sc_id s})"
    by (rule safe_scene_rows) (auto simp: S_def P_def T_def T1_def marks_def)
  note rows = safe_weaken [OF this, of "known {} {} {} {sc_id s}", OF known_mono]
  from safe_append [OF studio safe_append [OF tags safe_append [OF perf safe_append [OF mark [of T1 "sc_markers s", folded T_def] rows]]]]
  show ?thesis unfolding syncUpsertScene_def scene_stubs_def by simp
qed

section \<open>Deletes keep the references\<close>

text \<open>The ids of an entity type, and what a delete leaves of them.\<close>

definition ids_of :: "string \<Rightarrow> source_db \<Rightarrow> string set" where
  "ids_of ty db = (if ty = ''tag'' then tag_ids db else if ty = ''studio'' then studio_ids db
     else if ty = ''performer'' then performer_ids db else if ty = ''scene'' then scene_ids db else {})"

definition entity_types :: "string list" where
  "entity_types = [''scene'', ''performer'', ''tag'', ''studio'']"

lemma key_image_delete: "key ` {r \<in> A. \<not> key r \<in> ids} = key ` A - ids"
  by auto

lemma drop_scenes_inv: "source_inv db \<Longrightarrow> source_inv (drop_scenes ids db)"
  by (auto simp: source_inv_def keys_ok_def refs_ok_def id_sets drop_scenes_def drop_markers_def Let_def key_image_delete
      intro!: unique_key_delete intro: image_kept)

lemma drop_performers_inv: "source_inv db \<Longrightarrow> source_inv (drop_performers ids db)"
  by (auto simp: source_inv_def keys_ok_def refs_ok_def id_sets drop_performers_def key_image_delete
      intro!: unique_key_delete)

lemma drop_tags_inv:
  assumes "source_inv db" "\<forall>m \<in> set (markers db). \<not> in_ids (sm_primary_tag m) ids"
  shows "source_inv (drop_tags ids db)"
  using assms
  by (auto simp: source_inv_def keys_ok_def refs_ok_def id_sets drop_tags_def key_image_delete null_or_def in_ids_def
      split: option.splits intro!: unique_key_delete)

lemma drop_studios_inv:
  assumes "source_inv db" "\<forall>s \<in> set (studios db). \<not> in_ids (ss_parent s) ids"
    "\<forall>s \<in> set (scenes db). \<not> in_ids (sn_studio s) ids"
  shows "source_inv (drop_studios ids db)"
  using assms
  by (auto simp: source_inv_def keys_ok_def refs_ok_def id_sets drop_studios_def key_image_delete null_or_def in_ids_def
      split: option.splits intro!: unique_key_delete)

lemma keyset_update_where:
  assumes "\<And>r. key (f r) = key r"
  shows "key ` set (update_where p f rows) = key ` set rows"
proof -
  have "key (if p r then f r else r) = key r" for r using assms by simp
  then show ?thesis unfolding set_update_where image_image by simp
qed

lemma unlink_studios_inv:
  assumes "source_inv db"
  shows "source_inv (db\<lparr>studios := update_where (\<lambda>s. in_ids (ss_parent s) ids) (\<lambda>s. s\<lparr>ss_parent := None\<rparr>) (studios db),
    scenes := update_where (\<lambda>s. in_ids (sn_studio s) ids) (\<lambda>s. s\<lparr>sn_studio := None\<rparr>) (scenes db)\<rparr>)"
  using assms
  by (auto simp: source_inv_def keys_ok_def refs_ok_def id_sets ball_update_where null_or_def keyset_update_where
      intro!: unique_key_update_where)

lemma unlinked: "\<forall>s \<in> set (update_where (\<lambda>s. in_ids (ss_parent s) ids) (\<lambda>s. s\<lparr>ss_parent := None\<rparr>) rows). \<not> in_ids (ss_parent s) ids"
  "\<forall>s \<in> set (update_where (\<lambda>s. in_ids (sn_studio s) ids) (\<lambda>s. s\<lparr>sn_studio := None\<rparr>) rows'). \<not> in_ids (sn_studio s) ids"
  by (auto simp: set_update_where in_ids_def)

lemma ids_of_drops:
  "ids_of u (drop_tags ids d) = ids_of u d - (if u = ''tag'' then ids else {})"
  "ids_of u (drop_studios ids d) = ids_of u d - (if u = ''studio'' then ids else {})"
  "ids_of u (drop_performers ids d) = ids_of u d - (if u = ''performer'' then ids else {})"
  "ids_of u (drop_scenes ids d) = ids_of u d - (if u = ''scene'' then ids else {})"
  "ids_of u (drop_markers p d) = ids_of u d" "ids_of u (d\<lparr>local_matches := ms\<rparr>) = ids_of u d"
  by (simp_all add: ids_of_def id_sets drop_tags_def drop_studios_def drop_performers_def drop_scenes_def
      drop_markers_def Let_def key_image_delete)

lemma delete_entities:
  assumes "source_inv db" and "ty \<in> set entity_types"
  shows "\<exists>db'. syncDeleteEntitiesConn ty deleted db = Inr db' \<and> source_inv db' \<and>
    ids_of ty db' = ids_of ty db - set deleted \<and> (\<forall>u. u \<noteq> ty \<longrightarrow> ids_of u db' = ids_of u db)"
proof (cases "deleted = []")
  case True
  then show ?thesis using assms(1) by (simp add: syncDeleteEntitiesConn_def)
next
  case False
  let ?ids = "set deleted"
  from assms(2) consider "ty = ''scene''" | "ty = ''performer''" | "ty = ''tag''" | "ty = ''studio''"
    by (auto simp: entity_types_def)
  then show ?thesis
  proof cases
    case 1
    let ?db1 = "db\<lparr>local_matches := delete_where (\<lambda>r. fst r \<in> ?ids) (local_matches db)\<rparr>"
    have "source_inv ?db1"
      using assms(1) by (simp add: source_inv_def keys_ok_def refs_ok_def id_sets)
    then have "source_inv (drop_scenes ?ids ?db1)" by (rule drop_scenes_inv)
    moreover have "syncDeleteEntitiesConn ty deleted db = Inr (drop_scenes ?ids ?db1)"
      using 1 False by (simp add: syncDeleteEntitiesConn_def Let_def)
    ultimately show ?thesis using 1
      by (auto simp: ids_of_drops)
  next
    case 2
    then have "syncDeleteEntitiesConn ty deleted db = Inr (drop_performers ?ids db)"
      using False by (simp add: syncDeleteEntitiesConn_def)
    with 2 drop_performers_inv [OF assms(1)] show ?thesis
      by (auto simp: ids_of_drops)
  next
    case 3
    let ?db1 = "drop_markers (\<lambda>m. in_ids (sm_primary_tag m) ?ids) db"
    have none: "\<forall>m \<in> set (markers ?db1). \<not> in_ids (sm_primary_tag m) ?ids"
      by (simp add: drop_markers_def Let_def)
    then have "syncDeleteEntitiesConn ty deleted db = Inr (drop_tags ?ids ?db1)"
      using 3 False by (simp add: syncDeleteEntitiesConn_def Let_def with_refs_def list_all_iff)
    moreover have "source_inv (drop_tags ?ids ?db1)"
      by (rule drop_tags_inv [OF drop_markers_inv [OF assms(1)] none])
    ultimately show ?thesis using 3 by (auto simp: ids_of_drops)
  next
    case 4
    let ?db1 = "db\<lparr>studios := update_where (\<lambda>s. in_ids (ss_parent s) ?ids) (\<lambda>s. s\<lparr>ss_parent := None\<rparr>) (studios db),
      scenes := update_where (\<lambda>s. in_ids (sn_studio s) ?ids) (\<lambda>s. s\<lparr>sn_studio := None\<rparr>) (scenes db)\<rparr>"
    have inv: "source_inv (drop_studios ?ids ?db1)"
      using unlinked by (intro drop_studios_inv unlink_studios_inv assms(1)) simp_all
    have "syncDeleteEntitiesConn ty deleted db = Inr (drop_studios ?ids ?db1)"
      using 4 False unlinked(1) [of ?ids "studios db"] unlinked(2) [of ?ids "scenes db"]
      by (auto simp: syncDeleteEntitiesConn_def Let_def with_refs_def list_all_iff drop_studios_def)
    moreover have "ids_of u ?db1 = ids_of u db" for u
      by (simp add: ids_of_def id_sets keyset_update_where)
    ultimately show ?thesis using inv 4 by (auto simp: ids_of_drops)
  qed
qed

section \<open>Upserts\<close>

lemma syncUpsert_safe:
  assumes "source_inv db"
  shows "case syncUpsert sha e db of
      Inl err \<Rightarrow> err \<noteq> Foreign_Key_Violation
    | Inr (changed, db') \<Rightarrow> source_inv db' \<and> entities_grow db db' \<and> entityID e \<in> ids_of (entityType e) db'"
proof (cases "stored_hash e db = Some (syncHash sha e)")
  case True
  then have "entityID e \<in> ids_of (entityType e) db"
    by (cases e) (auto simp: ids_of_def id_sets dest!: lookup_row_Some intro: rev_image_eqI)
  with True assms show ?thesis by (simp add: syncUpsert_def entities_grow_refl)
next
  case False
  let ?K = "\<lambda>db. source_inv db \<and> entityID e \<in> ids_of (entityType e) db"
  have "safe_run (known {} {} {} {}) (upsert_statements sha e) ?K"
    by (cases e; simp; rule safe_weaken [OF safe_tag] safe_weaken [OF safe_studio] safe_weaken [OF safe_performer]
        safe_weaken [OF safe_scene]) (auto simp: known_def ids_of_def)
  then have safe: "case run_statements (upsert_statements sha e) db of Inl err \<Rightarrow> err \<noteq> Foreign_Key_Violation | Inr b \<Rightarrow> ?K b"
    using assms by (simp add: safe_run_def known_def)
  show ?thesis
  proof (cases "run_statements (upsert_statements sha e) db")
    case (Inl err)
    with safe False show ?thesis by (simp add: syncUpsert_def)
  next
    case (Inr db')
    with safe False run_keeps_inv [OF keeps_upsert assms Inr] show ?thesis by (simp add: syncUpsert_def)
  qed
qed

text \<open>
  C27. Syncing an entity never breaks a reference: the stubs of the entities it
  mentions go first, so an upsert can fail on a CHECK or a UNIQUE constraint only, and otherwise
  keeps every key and reference of the mirror, forgets no entity and records this one.
\<close>

theorem syncUpsert_keeps_references:
  assumes "source_inv db"
  shows "case syncUpsert sha e db of
      Inl err \<Rightarrow> err \<noteq> Foreign_Key_Violation
    | Inr (changed, db') \<Rightarrow> source_inv db' \<and> entities_grow db db' \<and> entityID e \<in> ids_of (entityType e) db'"
  by (rule syncUpsert_safe [OF assms])

text \<open>A part of the state that a list of statements leaves alone.\<close>

definition leaves :: "(source_db \<Rightarrow> 'v) \<Rightarrow> statement \<Rightarrow> bool" where
  "leaves f s \<longleftrightarrow> (\<forall>a b. s a = Inr b \<longrightarrow> f b = f a)"

lemma run_leaves: "\<forall>s \<in> set ss. leaves f s \<Longrightarrow> run_statements ss a = Inr b \<Longrightarrow> f b = f a"
proof (induction ss arbitrary: a)
  case (Cons s ss)
  then obtain c where c: "s a = Inr c" "run_statements ss c = Inr b"
    by (auto simp: run_statements_Cons and_then_Inr_iff)
  with Cons have "f b = f c" by simp
  with c(1) Cons.prems(1) show ?case by (simp add: leaves_def)
qed (simp add: run_statements_Nil)

lemma run_middle:
  assumes "run_statements (ss @ t # ts) a = Inr b"
  obtains c d where "run_statements ss a = Inr c" "t c = Inr d" "run_statements ts d = Inr b"
  using assms by (auto simp: run_statements_append run_statements_Cons and_then_Inr_iff)

lemma leaves_tags: "leaves tags (clear_tag_parents x)" "leaves tags (add_tag_parent r)" "leaves tags (clear_stash_ids x)"
  "leaves tags (add_stash_id i)"
  by (auto simp: leaves_def statement_defs with_refs_Inr and_then_Inr_iff)

lemma leaves_performers: "leaves performers (clear_performer_tags x)" "leaves performers (add_performer_tag r)"
  by (auto simp: leaves_def statement_defs with_refs_Inr and_then_Inr_iff)

lemma leaves_scenes: "leaves scenes (clear_files x)" "leaves scenes (put_file f)" "leaves scenes (clear_scene_performers x)"
  "leaves scenes (add_scene_performer r)" "leaves scenes (clear_scene_tags x)" "leaves scenes (add_scene_tag t)"
  "leaves scenes (\<lambda>db. Inr (drop_markers p db))" "leaves scenes (put_marker m)" "leaves scenes (clear_marker_tags x)"
  "leaves scenes (add_marker_tag t)" "leaves scenes (clear_plays x)" "leaves scenes (add_play h)"
  "leaves scenes (clear_os x)" "leaves scenes (add_o h)"
  by (auto simp: leaves_def statement_defs with_refs_Inr and_then_Inr_iff drop_markers_def Let_def)

lemma stored_hash_after:
  assumes "run_statements (upsert_statements sha e) a = Inr b"
  shows "stored_hash e b = Some (syncHash sha e)"
proof (cases e)
  case (Tag_Entity t)
  from assms[unfolded this] obtain c d where d: "put_tag (\<lambda>old new. new) (tag_row sha t) c = Inr d"
    and rest: "run_statements (clear_tag_parents (tg_id t) # map (\<lambda>p. add_tag_parent (tg_id t, tg_id p)) (tg_parents t) @
      clear_stash_ids (tg_id t) #
      map (\<lambda>i. add_stash_id (tg_id t, si_endpoint i, si_stash_id i)) (first_endpoints {} (tg_stash_ids t))) d = Inr b"
    unfolding upsert_statements.simps syncUpsertTag_def append_Cons append_Nil by (rule run_middle)
  have "tags b = tags d" by (rule run_leaves [OF _ rest]) (auto simp: leaves_tags)
  with d show ?thesis unfolding Tag_Entity
    by (auto simp: put_tag_def tag_row_def lookup_upsert split: option.splits)
next
  case (Studio_Entity s)
  from assms[unfolded this] obtain c d where d: "put_studio (\<lambda>old new. new) (studio_row sha s) c = Inr d"
    and rest: "run_statements [] d = Inr b"
    unfolding upsert_statements.simps syncUpsertStudio_def by (rule run_middle)
  then show ?thesis unfolding Studio_Entity
    by (auto simp: put_studio_def studio_row_def and_then_Inr_iff upsert_checked_Inr lookup_upsert run_statements_Nil
        split: option.splits if_splits)
next
  case (Performer_Entity p)
  from assms[unfolded this] obtain c d where d: "put_performer merge_performer (performer_row sha p) c = Inr d"
    and rest: "run_statements (clear_performer_tags (pf_id p) # map (\<lambda>t. add_performer_tag (pf_id p, tg_id t)) (pf_tags p)) d = Inr b"
    unfolding upsert_statements.simps syncUpsertPerformer_def append_Cons append_Nil by (rule run_middle)
  have "performers b = performers d" by (rule run_leaves [OF _ rest]) (auto simp: leaves_performers)
  with d show ?thesis unfolding Performer_Entity
    by (auto simp: put_performer_def performer_row_def merge_performer_def and_then_Inr_iff upsert_checked_Inr
        lookup_upsert split: option.splits)
next
  case (Scene_Entity s)
  from assms[unfolded this] obtain c d where d: "put_scene (scene_row sha s) c = Inr d"
    and rest: "run_statements (scene_details sha s) d = Inr b"
    unfolding upsert_statements.simps syncUpsertScene_def by (rule run_middle)
  have "scenes b = scenes d"
    by (rule run_leaves [OF _ rest]) (auto simp: scene_details_def marker_statements_def leaves_scenes)
  with d show ?thesis unfolding Scene_Entity
    by (auto simp: put_scene_def scene_row_def with_refs_Inr and_then_Inr_iff upsert_checked_Inr lookup_upsert
        split: option.splits)
qed

text \<open>
  C28. Syncing the same entity again finds its hash and writes nothing.
\<close>

theorem syncUpsert_idempotent:
  assumes "syncUpsert sha e db = Inr (changed, db')"
  shows "syncUpsert sha e db' = Inr (False, db')"
  using assms stored_hash_after by (auto simp: syncUpsert_def and_then_Inr_iff split: if_splits)

lemma leaves_studios: "leaves studios (put_tag f r)" "leaves studios (put_performer g p)" "leaves studios (put_scene s)"
  "leaves studios (clear_files x)" "leaves studios (put_file fl)" "leaves studios (clear_scene_performers x)"
  "leaves studios (add_scene_performer sp)" "leaves studios (clear_scene_tags x)" "leaves studios (add_scene_tag t)"
  "leaves studios (\<lambda>db. Inr (drop_markers q db))" "leaves studios (put_marker m)" "leaves studios (clear_marker_tags x)"
  "leaves studios (add_marker_tag t)" "leaves studios (clear_plays x)" "leaves studios (add_play h)"
  "leaves studios (clear_os x)" "leaves studios (add_o h)"
  by (auto simp: leaves_def statement_defs with_refs_Inr and_then_Inr_iff drop_markers_def Let_def)

lemma stub_tag_leaves_studios: "\<forall>s \<in> set (stub_tag sha t). leaves studios s"
  by (induction t) (auto simp: leaves_studios)

lemma studio_then_rest:
  assumes "sc_studio s = Some d"
  obtains ts where "syncUpsertScene sha s = stub_studio sha d @ ts" and "\<forall>t \<in> set ts. leaves studios t"
proof (rule that [of "concat (map (stub_tag sha) (sc_tags s)) @ map (stub_performer sha) (sc_performers s) @
     concat (map (\<lambda>m. stub_tag sha (mk_primary_tag m) @ concat (map (stub_tag sha) (mk_tags m))) (sc_markers s)) @
     put_scene (scene_row sha s) # scene_details sha s"])
qed (use assms stub_tag_leaves_studios in \<open>auto simp: syncUpsertScene_def scene_stubs_def scene_details_def
  marker_statements_def stub_performer_def leaves_studios\<close>)

text \<open>
  C29. A studio first met inside a scene is recorded without its details but with the
  hash of the whole studio, so the studio sync that follows takes it for known: its favourite
  mark, its rating and its parent stay unset.
\<close>

theorem studio_stub_hides_details:
  assumes "syncUpsert sha (Scene_Entity s) db = Inr (True, db')"
    and "sc_studio s = Some d" and "sd_id d \<notin> studio_ids db"
    and "\<forall>p. sd_parent d = Some p \<longrightarrow> sd_parent p = None \<and> sd_id p \<noteq> sd_id d"
  shows "syncUpsert sha (Studio_Entity d) db' = Inr (False, db') \<and>
    (\<exists>r. lookup_row ss_id (sd_id d) (studios db') = Some r \<and> ss_favorite r = False \<and>
       ss_rating100 r = None \<and> ss_parent r = None)"
proof -
  from studio_then_rest [OF assms(2)] obtain ts where eq: "syncUpsertScene sha s = stub_studio sha d @ ts"
    and ts: "\<forall>t \<in> set ts. leaves studios t" .
  obtain i n u f r p where d: "d = SyncStudio i n u f r p" by (cases d)
  define row where "row = \<lparr>ss_id = i, ss_name = n, ss_parent = None, ss_updated_at = u,
    ss_hash = syncHash sha (Studio_Entity d), ss_favorite = False, ss_rating100 = None\<rparr>"
  define mrg :: "source_studio \<Rightarrow> source_studio \<Rightarrow> source_studio" where
    "mrg = (\<lambda>old new. old\<lparr>ss_name := coalesce (ss_name new) (ss_name old),
        ss_updated_at := coalesce (ss_updated_at new) (ss_updated_at old)\<rparr>)"
  have "run_statements (syncUpsertScene sha s) db = Inr db'"
    using assms(1) by (auto simp: syncUpsert_def and_then_Inr_iff split: if_splits)
  then have "run_statements ((case p of None \<Rightarrow> [] | Some q \<Rightarrow> stub_studio sha q) @ put_studio mrg row # ts) db = Inr db'"
    unfolding eq by (simp add: d row_def mrg_def)
  then obtain c e where c: "run_statements (case p of None \<Rightarrow> [] | Some q \<Rightarrow> stub_studio sha q) db = Inr c"
    and e: "put_studio mrg row c = Inr e" and rest: "run_statements ts e = Inr db'"
    by (rule run_middle)
  have "lookup_row ss_id i (studios db) = None"
    using assms(3) by (auto simp: lookup_row_None studio_ids_def d)
  moreover have "lookup_row ss_id i (studios c) = lookup_row ss_id i (studios db)"
  proof (cases p)
    case None
    with c show ?thesis by (simp add: run_statements_Nil)
  next
    case (Some q)
    with assms(4) obtain j m v g w where "q = SyncStudio j m v g w None" "j \<noteq> i"
      by (cases q) (auto simp: d)
    with c Some show ?thesis
      by (auto simp: run_statements_Nil run_statements_Cons put_studio_def and_then_Inr_iff upsert_checked_Inr
          lookup_upsert split: if_splits)
  qed
  ultimately have "lookup_row ss_id i (studios c) = None" by simp
  then have "lookup_row ss_id i (studios e) = Some row"
    using e by (auto simp: put_studio_def and_then_Inr_iff upsert_checked_Inr lookup_upsert row_def mrg_def split: if_splits)
  moreover have "studios db' = studios e" by (rule run_leaves [OF ts rest])
  ultimately have "lookup_row ss_id (sd_id d) (studios db') = Some row" by (simp add: d)
  then show ?thesis by (auto simp: syncUpsert_def row_def)
qed

section \<open>Witnesses\<close>

definition sample_studio :: syncStudio where
  "sample_studio = SyncStudio ''9'' (Some ''North'') None True (Some 80) None"

definition sample_scene :: syncScene where
  "sample_scene = \<lparr>sc_id = ''1'', sc_title = None, sc_details = None, sc_date = None, sc_rating100 = None,
     sc_updated_at = None, sc_created_at_ms = None, sc_organized = False, sc_play_count = 0,
     sc_play_duration = Fin False 0, sc_play_history_ms = [5], sc_o_history_ms = [], sc_studio = Some sample_studio,
     sc_tags = [SyncTag ''3'' None None [] []], sc_performers = [], sc_files = [], sc_markers = []\<rparr>"

lemma empty_source_inv: "source_inv empty_source"
  by (simp add: source_inv_def keys_ok_def refs_ok_def id_sets empty_source_def unique_key_def)

lemma sample_upsert: "\<exists>db'. syncUpsert sha (Scene_Entity sample_scene) empty_source = Inr (True, db')"
  by (simp add: syncUpsert_def syncUpsertScene_def scene_stubs_def scene_details_def sample_scene_def sample_studio_def
      empty_source_def lookup_row_def run_statements_Cons run_statements_Nil statement_defs upsert_checked_def upsert_row_def
      studio_check_def rating_ok_def tag_row_def scene_row_def scene_check_def real_ge_def with_refs_def id_sets null_or_def
      history_rows_def insert_row_def history_check_def drop_markers_def Let_def delete_where_def)

theorem syncUpsert_idempotent_witness:
  "\<exists>db'. syncUpsert (\<lambda>x. x) (Scene_Entity sample_scene) db' = Inr (False, db')"
  using sample_upsert [of "\<lambda>x. x"] syncUpsert_idempotent [of "\<lambda>x. x" "Scene_Entity sample_scene" empty_source] by blast

theorem studio_stub_hides_details_witness:
  "\<exists>db'. syncUpsert (\<lambda>x. x) (Studio_Entity sample_studio) db' = Inr (False, db') \<and>
    (\<exists>r. lookup_row ss_id ''9'' (studios db') = Some r \<and> \<not> ss_favorite r)"
proof -
  obtain db' where "syncUpsert (\<lambda>x. x) (Scene_Entity sample_scene) empty_source = Inr (True, db')"
    using sample_upsert by blast
  from studio_stub_hides_details [OF this, of sample_studio] show ?thesis
    by (auto simp: sample_scene_def sample_studio_def empty_source_def id_sets)
qed

theorem syncUpsert_keeps_references_witness:
  "\<exists>db'. syncUpsert (\<lambda>x. x) (Scene_Entity sample_scene) empty_source = Inr (True, db') \<and> source_inv db' \<and> ''1'' \<in> scene_ids db'"
proof -
  obtain db' where "syncUpsert (\<lambda>x. x) (Scene_Entity sample_scene) empty_source = Inr (True, db')"
    using sample_upsert by blast
  with syncUpsert_keeps_references [OF empty_source_inv, where sha = "\<lambda>x. x" and e = "Scene_Entity sample_scene"] show ?thesis
    by (simp add: ids_of_def sample_scene_def)
qed
end
