(* ===== verification/Local_Matches.thy ===== *)
theory Local_Matches
  imports Sync_Tables "HOL-Library.Product_Lexorder"
begin

text \<open>
  The index of StashDB ids and perceptual hashes of the library's scenes
  (\<open>core/localmatches.go\<close>, with \<open>normalizePhash\<close> of \<open>core/links.go\<close>): the row set of one
  scene, the queue that the entity hook fills, its refresh against Stash, and the backfill.
  \<open>gql\<close> is the GraphQL client, called with the name of the operation and its variables; \<open>ep\<close>
  is the selected endpoint.
\<close>

type_synonym graphql = "string \<Rightarrow> jVal \<Rightarrow> jVal res"
type_synonym match_row = "string \<times> string \<times> string"

record match_db =
  match_rows :: "match_row list"
  match_pending :: "(string \<times> string) list"
  match_ready :: "string option"

fun error_text :: "go_error \<Rightarrow> string" where
  "error_text (Msg s) = s"
| "error_text (Panic s) = s"
| "error_text Unique_Violation = ''UNIQUE constraint failed''"
| "error_text Check_Violation = ''CHECK constraint failed''"
| "error_text Foreign_Key_Violation = ''FOREIGN KEY constraint failed''"
| "error_text No_Rows = ''sql: no rows in result set''"

section \<open>One scene\<close>

definition is_hex_digit :: "char \<Rightarrow> bool" where
  "is_hex_digit c \<longleftrightarrow> is_digit c \<or> (97 \<le> byte c \<and> byte c \<le> 102) \<or> (65 \<le> byte c \<and> byte c \<le> 70)"

definition normalizePhash :: "jVal \<Rightarrow> string option" where
  "normalizePhash value =
     (let normalized = to_lower (trim_space (pythonStrOrEmpty value)) in
      if length normalized \<noteq> 16 then None
      else if \<not> list_all is_hex_digit normalized then None else Some normalized)"

definition same_endpoint :: "string \<Rightarrow> string \<Rightarrow> bool" where
  "same_endpoint ep s \<longleftrightarrow> equal_fold (trim_right_char (CHR ''/'') s) ep"

definition stashdb_values :: "string \<Rightarrow> jVal \<Rightarrow> string list" where
  "stashdb_values ep scene = filter (\<lambda>v. v \<noteq> [])
     (map (\<lambda>i. pythonStrOrEmpty (jget i ''stash_id''))
       (filter (\<lambda>i. same_endpoint ep (asString (jget i ''endpoint''))) (arr_of (jget scene ''stash_ids''))))"

definition phash_values :: "jVal \<Rightarrow> string list" where
  "phash_values scene = concat (map (\<lambda>file. List.map_filter
     (\<lambda>f. if equal_fold (asString (jget f ''type'')) ''phash'' then normalizePhash (jget f ''value'') else None)
     (arr_of (jget file ''fingerprints''))) (arr_of (jget scene ''files'')))"

text \<open>The values of one kind are replaced: rows that are not wanted go, missing ones are added.\<close>

definition replace_values :: "string \<Rightarrow> string \<Rightarrow> string list \<Rightarrow> match_row list \<Rightarrow> match_row list" where
  "replace_values sid kind wanted rows =
     fold (\<lambda>v. insert_or_ignore id (\<lambda>_. True) (sid, kind, v)) (sort (remdups wanted))
       (delete_where (\<lambda>(s, k, v). s = sid \<and> k = kind \<and> v \<notin> set wanted) rows)"

definition writeLocalSceneMatch :: "string \<Rightarrow> jVal \<Rightarrow> match_row list \<Rightarrow> match_row list res" where
  "writeLocalSceneMatch ep scene rows =
     (let sid = pythonStrOrEmpty (jget scene ''id'') in
      if sid = [] then Inl (Msg ''local scene match is missing an id'')
      else Inr (replace_values sid ''phash'' (phash_values scene)
             (replace_values sid ''stashdb_id'' (stashdb_values ep scene) rows)))"

section \<open>The queue\<close>

text \<open>\<open>revision\<close> is a fresh \<open>uuid4\<close>.\<close>

definition queueLocalSceneMatch :: "string \<Rightarrow> string \<Rightarrow> match_db \<Rightarrow> match_db" where
  "queueLocalSceneMatch sid revision db =
     db\<lparr>match_pending := upsert_row fst (\<lambda>old new. new) (sid, revision) (match_pending db)\<rparr>"

text \<open>The answer of a batch: the scenes that Stash still has, by id.\<close>

definition batch_by_id :: "jVal list \<Rightarrow> (string \<times> jVal) list \<Rightarrow> (string \<times> jVal) list res" where
  "batch_by_id items acc = fold_res (\<lambda>scene ps.
     let sid = pythonStrOrEmpty (jget scene ''id'') in
     if sid = [] then Inl (Msg ''local scene match is missing an id'') else Inr ((sid, scene) # ps)) items acc"

definition slot_key :: "nat \<Rightarrow> string" where
  "slot_key n = ''s'' @ itoa (int n)"

definition batch_one_by_one :: "(string \<times> string) list \<Rightarrow> jVal \<Rightarrow> (string \<times> jVal) list res" where
  "batch_one_by_one batch data = fold_res (\<lambda>(n, item) ps.
     if \<not> jhas data (slot_key n) then Inl (Msg ''Stash did not return changed local scene matches'')
     else let scene = jget data (slot_key n) in
       Inr (if scene \<noteq> JNull then (fst item, scene) # ps else ps)) (enumerate 0 batch) []"

definition batch_scenes :: "graphql \<Rightarrow> (string \<times> string) list \<Rightarrow> (string \<times> jVal) list res" where
  "batch_scenes gql batch =
     (case gql ''CuratorLocalSceneMatchesByIds'' (JObj [(''ids'', JArr (map (\<lambda>i. JStr (fst i)) batch))]) of
        Inl err \<Rightarrow>
          if \<not> str_contains (error_text err) ''scene with id '' \<or> \<not> str_contains (error_text err) '' not found''
          then Inl err
          else and_then (gql ''CuratorLocalSceneMatchesByIds''
                 (JObj (map (\<lambda>(n, item). (slot_key n, JStr (fst item))) (enumerate 0 batch))))
                 (batch_one_by_one batch)
      | Inr data \<Rightarrow>
          let items = jget (jget data ''findScenes'') ''scenes'' in
          if \<not> is_arr items then Inl (Msg ''Stash did not return changed local scene matches'')
          else batch_by_id (arr_of items) [])"

text \<open>
  The transaction of a batch. A newer hook must survive a fetch that started before its mutation:
  a row whose revision is not the one that was read is left alone.
\<close>

definition refresh_one :: "string \<Rightarrow> (string \<times> jVal) list \<Rightarrow> string \<times> string \<Rightarrow> match_db \<Rightarrow> match_db res" where
  "refresh_one ep byID item db =
     (case lookup_row fst (fst item) (match_pending db) of
        None \<Rightarrow> Inr db
      | Some row \<Rightarrow>
          if snd row \<noteq> snd item then Inr db
          else and_then (case map_of byID (fst item) of
                 Some scene \<Rightarrow> writeLocalSceneMatch ep scene (match_rows db)
               | None \<Rightarrow> Inr (delete_where (\<lambda>(s, k, v). s = fst item) (match_rows db)))
               (\<lambda>rows. Inr (db\<lparr>match_rows := rows,
                  match_pending := delete_where (\<lambda>r. r = item) (match_pending db)\<rparr>)))"

definition refresh_batch :: "string \<Rightarrow> (string \<times> jVal) list \<Rightarrow> (string \<times> string) list \<Rightarrow> match_db \<Rightarrow> match_db res" where
  "refresh_batch ep byID batch db = fold_res (refresh_one ep byID) batch db"

fun chunks_of :: "nat \<Rightarrow> 'a list \<Rightarrow> 'a list list" where
  "chunks_of n [] = []"
| "chunks_of n (x # xs) = take (max n 1) (x # xs) # chunks_of n (drop (max n 1) (x # xs))"

text \<open>
  \<open>refreshPendingLocalSceneMatches\<close>: the batches with the hooks that other processes queue
  between the fetch of a batch and its transaction. A committed batch stays when a later one fails.
\<close>

fun refresh_batches :: "graphql \<Rightarrow> string \<Rightarrow> (string \<times> string) list list \<Rightarrow> (string \<times> string) list list \<Rightarrow>
    match_db \<Rightarrow> match_db \<times> unit res" where
  "refresh_batches gql ep meanwhile [] db = (db, Inr ())"
| "refresh_batches gql ep meanwhile (batch # batches) db =
     (case batch_scenes gql batch of
        Inl e \<Rightarrow> (db, Inl e)
      | Inr byID \<Rightarrow>
          let db1 = fold (\<lambda>(sid, rev). queueLocalSceneMatch sid rev) (case meanwhile of [] \<Rightarrow> [] | h # hs \<Rightarrow> h) db in
          (case refresh_batch ep byID batch db1 of
             Inl e \<Rightarrow> (db1, Inl e)
           | Inr db2 \<Rightarrow> refresh_batches gql ep (drop 1 meanwhile) batches db2))"

definition refreshPendingLocalSceneMatches ::
    "graphql \<Rightarrow> string \<Rightarrow> (string \<times> string) list list \<Rightarrow> match_db \<Rightarrow> match_db \<times> unit res" where
  "refreshPendingLocalSceneMatches gql ep meanwhile db =
     refresh_batches gql ep meanwhile (chunks_of 200 (sort_key fst (match_pending db))) db"

section \<open>Backfill\<close>

definition index_ready :: "string \<Rightarrow> match_db \<Rightarrow> bool" where
  "index_ready ep db \<longleftrightarrow> (case match_ready db of None \<Rightarrow> False | Some r \<Rightarrow> same_endpoint ep r)"

text \<open>The pages of the whole library; \<open>fuel\<close> bounds how many are read.\<close>

fun backfill_fetch :: "graphql \<Rightarrow> nat \<Rightarrow> int \<Rightarrow> jVal list \<Rightarrow> jVal list res option" where
  "backfill_fetch gql 0 page found = None"
| "backfill_fetch gql (Suc fuel) page found =
     (case gql ''CuratorLocalSceneMatches'' (JObj [(''page'', jvInt page), (''perPage'', jvInt 1000)]) of
        Inl e \<Rightarrow> Some (Inl e)
      | Inr data \<Rightarrow>
          let root = jget data ''findScenes'' in
          if \<not> is_arr (jget root ''scenes'') \<or> \<not> isJSONNumber (jget root ''count'')
          then Some (Inl (Msg ''Stash did not return local scene matches''))
          else let items = arr_of (jget root ''scenes''); total = pythonInt (jget root ''count'') in
            if items = [] \<and> int (length found) < total
            then Some (Inl (Msg ''Stash returned an incomplete local scene match page''))
            else let all = found @ items in
              if page * 1000 \<ge> total then
                if int (length all) < total
                then Some (Inl (Msg ''Stash returned an incomplete local scene match page''))
                else Some (Inr all)
              else backfill_fetch gql fuel (page + 1) all)"

definition backfill_index :: "string \<Rightarrow> jVal list \<Rightarrow> match_db \<Rightarrow> match_db res" where
  "backfill_index ep found db =
     (if index_ready ep db then Inr db
      else and_then (fold_res (writeLocalSceneMatch ep) found [])
        (\<lambda>rows. Inr (db\<lparr>match_rows := rows, match_ready := Some ep\<rparr>)))"

definition backfillLocalSceneMatches :: "graphql \<Rightarrow> nat \<Rightarrow> string \<Rightarrow> match_db \<Rightarrow> match_db res option" where
  "backfillLocalSceneMatches gql fuel ep db =
     (if index_ready ep db then Some (Inr db)
      else map_option (\<lambda>r. and_then r (\<lambda>found. backfill_index ep found db)) (backfill_fetch gql fuel 1 []))"

section \<open>Reading the index\<close>

text \<open>
  \<open>localSceneLinks\<close> after its refresh: the first scene of every value, in the order of the
  numeric id; \<open>CAST(scene_id AS INTEGER)\<close> reads the leading digits.
\<close>

definition cast_integer :: "string \<Rightarrow> int" where
  "cast_integer s = (let (neg, ds) = split_sign s; n = int_of_digits (takeWhile is_digit ds) in if neg then - n else n)"

definition ordered_matches :: "match_row list \<Rightarrow> match_row list" where
  "ordered_matches rows = sort_key (\<lambda>(s, k, v). (cast_integer s, s, k, v)) rows"

fun first_links :: "string set \<Rightarrow> match_row list \<Rightarrow> (string \<times> string) list" where
  "first_links seen [] = []"
| "first_links seen ((s, k, v) # rows) =
     (if v \<in> seen then first_links seen rows else (v, s) # first_links (insert v seen) rows)"

definition localSceneLinks :: "match_db \<Rightarrow> (string \<times> string) list \<times> (string \<times> string) list" where
  "localSceneLinks db =
     (let rows = ordered_matches (match_rows db) in
      (first_links {} (filter (\<lambda>(s, k, v). k = ''stashdb_id'') rows),
       first_links {} (filter (\<lambda>(s, k, v). k = ''phash'') rows)))"

section \<open>Newer hooks survive\<close>

text \<open>A row queued after the snapshot \<open>snap\<close> was read.\<close>

definition newer_queued :: "(string \<times> string) list \<Rightarrow> string \<Rightarrow> match_db \<Rightarrow> bool" where
  "newer_queued snap sid db \<longleftrightarrow> unique_key fst (match_pending db) \<and>
     (\<exists>r. (sid, r) \<in> set (match_pending db) \<and> r \<notin> snd ` set snap)"

lemma queue_newer:
  assumes "unique_key fst (match_pending db)" and "r \<notin> snd ` set snap"
  shows "newer_queued snap sid db \<Longrightarrow> newer_queued snap sid (queueLocalSceneMatch sid' r db)"
    and "newer_queued snap sid (queueLocalSceneMatch sid r db)"
  using assms by (auto simp: newer_queued_def queueLocalSceneMatch_def set_upsert_replace intro: unique_key_upsert)

lemma refresh_one_pending:
  assumes "refresh_one ep byID item db = Inr db'"
  shows "match_pending db' = match_pending db \<or> match_pending db' = delete_where (\<lambda>r. r = item) (match_pending db)"
  using assms by (auto simp: refresh_one_def and_then_Inr_iff split: option.splits if_splits)

lemma refresh_batch_unique:
  "refresh_batch ep byID batch db = Inr db' \<Longrightarrow> unique_key fst (match_pending db) \<Longrightarrow> unique_key fst (match_pending db')"
  unfolding refresh_batch_def
  by (rule fold_res_invariant [where P = "\<lambda>d. unique_key fst (match_pending d)"])
    (auto dest!: refresh_one_pending intro: unique_key_delete)

lemma refresh_batch_newer:
  assumes "refresh_batch ep byID batch db = Inr db'" and "newer_queued snap sid db" and "set batch \<subseteq> set snap"
  shows "newer_queued snap sid db'"
proof -
  have step: "newer_queued snap sid d'"
    if item: "item \<in> set batch" "newer_queued snap sid d" "refresh_one ep byID item d = Inr d'" for item d d'
  proof -
    obtain r where r: "(sid, r) \<in> set (match_pending d)" "r \<notin> snd ` set snap" and u: "unique_key fst (match_pending d)"
      using item(2) by (auto simp: newer_queued_def)
    have "snd item \<in> snd ` set snap" using item(1) assms(3) by blast
    with r(2) have "(sid, r) \<noteq> item" by (metis snd_conv)
    with r u refresh_one_pending [OF item(3)] show ?thesis
      by (auto simp: newer_queued_def intro: unique_key_delete)
  qed
  show ?thesis
    using assms(1,2) step unfolding refresh_batch_def
  proof (induction batch arbitrary: db)
    case (Cons item batch)
    then obtain d where d: "refresh_one ep byID item db = Inr d" "fold_res (refresh_one ep byID) batch d = Inr db'"
      by (auto simp: and_then_Inr_iff)
    have "newer_queued snap sid d" using Cons.prems(2,3) d(1) by (meson list.set_intros(1))
    then show ?case using Cons.IH [OF d(2)] Cons.prems(3) by (meson list.set_intros(2))
  qed simp
qed

lemma queue_all_newer:
  assumes "unique_key fst (match_pending db)" and "\<forall>h \<in> set hs. snd h \<notin> snd ` set snap"
    and "newer_queued snap sid db \<or> sid \<in> fst ` set hs"
  shows "newer_queued snap sid (fold (\<lambda>(sid, rev). queueLocalSceneMatch sid rev) hs db)"
  using assms
proof (induction hs arbitrary: db)
  case (Cons h hs)
  obtain s r where h: "h = (s, r)" by (cases h)
  have uniq: "unique_key fst (match_pending (queueLocalSceneMatch s r db))"
    using Cons.prems(1) by (auto simp: queueLocalSceneMatch_def intro: unique_key_upsert)
  have "newer_queued snap sid (queueLocalSceneMatch s r db) \<or> sid \<in> fst ` set hs"
    using Cons.prems queue_newer [OF Cons.prems(1), of r snap] by (auto simp: h)
  with Cons.IH [OF uniq] Cons.prems(2) show ?case by (simp add: h)
qed simp

lemma queue_all_unique:
  "unique_key fst (match_pending db) \<Longrightarrow> unique_key fst (match_pending (fold (\<lambda>(sid, rev). queueLocalSceneMatch sid rev) hs db))"
proof (induction hs arbitrary: db)
  case (Cons h hs)
  have "unique_key fst (match_pending (queueLocalSceneMatch (fst h) (snd h) db))"
    using Cons.prems by (simp add: queueLocalSceneMatch_def unique_key_upsert)
  from Cons.IH [OF this] show ?case by (simp add: case_prod_beta)
qed simp

lemma refresh_batches_newer:
  assumes "refresh_batches gql ep meanwhile batches db = (db', Inr ())"
    and "unique_key fst (match_pending db)" and "\<forall>hs \<in> set meanwhile. \<forall>h \<in> set hs. snd h \<notin> snd ` set snap"
    and "\<forall>b \<in> set batches. set b \<subseteq> set snap"
    and "newer_queued snap sid db \<or> sid \<in> fst ` set (concat (take (length batches) meanwhile))"
  shows "newer_queued snap sid db'"
  using assms
proof (induction batches arbitrary: db meanwhile)
  case Nil
  then show ?case by simp
next
  case (Cons batch batches)
  define hs where "hs = (case meanwhile of [] \<Rightarrow> [] | h # hs \<Rightarrow> h)"
  define db1 where "db1 = fold (\<lambda>(sid, rev). queueLocalSceneMatch sid rev) hs db"
  obtain byID db2 where run: "refresh_batch ep byID batch db1 = Inr db2"
    and rest: "refresh_batches gql ep (drop 1 meanwhile) batches db2 = (db', Inr ())"
    using Cons.prems(1) by (auto simp: Let_def db1_def hs_def split: sum.splits)
  have uniq1: "unique_key fst (match_pending db1)"
    unfolding db1_def by (rule queue_all_unique [OF Cons.prems(2)])
  have fresh: "\<forall>h \<in> set hs. snd h \<notin> snd ` set snap"
    using Cons.prems(3) by (cases meanwhile) (simp_all add: hs_def)
  have later: "sid \<in> fst ` set (concat (take (length batches) (drop 1 meanwhile)))"
    if "sid \<notin> fst ` set hs" "\<not> newer_queued snap sid db"
    using Cons.prems(5) that by (cases meanwhile) (auto simp: hs_def)
  have "newer_queued snap sid db2 \<or> sid \<in> fst ` set (concat (take (length batches) (drop 1 meanwhile)))"
  proof (cases "newer_queued snap sid db \<or> sid \<in> fst ` set hs")
    case True
    then have "newer_queued snap sid db1"
      unfolding db1_def by (rule queue_all_newer [OF Cons.prems(2) fresh])
    then show ?thesis using refresh_batch_newer [OF run] Cons.prems(4) by simp
  next
    case False
    with later show ?thesis by blast
  qed
  moreover have "unique_key fst (match_pending db2)" by (rule refresh_batch_unique [OF run uniq1])
  moreover have "\<forall>hs \<in> set (drop 1 meanwhile). \<forall>h \<in> set hs. snd h \<notin> snd ` set snap"
    using Cons.prems(3) by (auto dest: in_set_dropD)
  ultimately show ?case using Cons.IH [OF rest] Cons.prems(4) by simp
qed

lemma refresh_one_removes:
  assumes "refresh_one ep byID item db = Inr db'" and "unique_key fst (match_pending db)"
  shows "set (match_pending db') \<subseteq> set (match_pending db) - {item}"
proof (cases "lookup_row fst (fst item) (match_pending db)")
  case None
  then have "item \<notin> set (match_pending db)" by (auto simp: lookup_row_None)
  with None assms(1) show ?thesis by (auto simp: refresh_one_def)
next
  case (Some row)
  then have row: "row \<in> set (match_pending db)" "fst row = fst item" by (auto dest: lookup_row_Some)
  show ?thesis
  proof (cases "snd row = snd item")
    case True
    with assms(1) Some show ?thesis
      by (auto simp: refresh_one_def and_then_Inr_iff split: option.splits)
  next
    case False
    have "item \<notin> set (match_pending db)"
    proof
      assume "item \<in> set (match_pending db)"
      from unique_key_inj [OF assms(2) row(1) this row(2)] False show False by simp
    qed
    with False assms(1) Some show ?thesis by (auto simp: refresh_one_def)
  qed
qed

lemma refresh_batch_removes:
  "refresh_batch ep byID batch db = Inr db' \<Longrightarrow> unique_key fst (match_pending db) \<Longrightarrow>
   set (match_pending db') \<subseteq> set (match_pending db) - set batch"
  unfolding refresh_batch_def
proof (induction batch arbitrary: db)
  case (Cons item batch)
  then obtain d where d: "refresh_one ep byID item db = Inr d" "fold_res (refresh_one ep byID) batch d = Inr db'"
    by (auto simp: and_then_Inr_iff)
  have "unique_key fst (match_pending d)"
    using refresh_one_pending [OF d(1)] Cons.prems(2) by (auto intro: unique_key_delete)
  from Cons.IH [OF d(2) this] refresh_one_removes [OF d(1) Cons.prems(2)] show ?case by auto
qed simp

lemma queue_all_rows:
  "set (match_pending (fold (\<lambda>(sid, rev). queueLocalSceneMatch sid rev) hs db)) \<subseteq> set (match_pending db) \<union> set hs"
proof (induction hs arbitrary: db)
  case (Cons h hs)
  obtain s r where h: "h = (s, r)" by (cases h)
  have "set (match_pending (queueLocalSceneMatch s r db)) \<subseteq> insert h (set (match_pending db))"
    by (auto simp: queueLocalSceneMatch_def set_upsert_replace h)
  with Cons.IH [of "queueLocalSceneMatch s r db"] show ?case by (auto simp: h)
qed simp

lemma refresh_batches_removes:
  assumes "refresh_batches gql ep meanwhile batches db = (db', Inr ())"
    and "unique_key fst (match_pending db)" and "set (concat meanwhile) \<inter> set (concat batches) = {}"
  shows "set (match_pending db') \<subseteq> (set (match_pending db) - set (concat batches)) \<union> set (concat meanwhile)"
  using assms
proof (induction batches arbitrary: db meanwhile)
  case (Cons batch batches)
  define hs where "hs = (case meanwhile of [] \<Rightarrow> [] | h # hs \<Rightarrow> h)"
  define db1 where "db1 = fold (\<lambda>(sid, rev). queueLocalSceneMatch sid rev) hs db"
  have hs: "set (concat meanwhile) = set hs \<union> set (concat (drop 1 meanwhile))"
    by (cases meanwhile) (auto simp: hs_def)
  obtain byID db2 where run: "refresh_batch ep byID batch db1 = Inr db2"
    and rest: "refresh_batches gql ep (drop 1 meanwhile) batches db2 = (db', Inr ())"
    using Cons.prems(1) by (auto simp: Let_def db1_def hs_def split: sum.splits)
  have uniq: "unique_key fst (match_pending db1)"
    unfolding db1_def by (rule queue_all_unique [OF Cons.prems(2)])
  have rows1: "set (match_pending db1) \<subseteq> set (match_pending db) \<union> set hs"
    unfolding db1_def by (rule queue_all_rows)
  have "set (match_pending db') \<subseteq> (set (match_pending db2) - set (concat batches)) \<union> set (concat (drop 1 meanwhile))"
    using Cons.prems(3) hs by (intro Cons.IH [OF rest refresh_batch_unique [OF run uniq]]) auto
  with refresh_batch_removes [OF run uniq] rows1 hs show ?case by auto
qed auto

lemma concat_chunks_of: "concat (chunks_of n xs) = xs"
  by (induction n xs rule: chunks_of.induct) auto

text \<open>
  C30. A newer hook survives the refresh: whatever scenes other processes queue while
  batches are fetched, exactly those are queued when the refresh succeeds. The rows that were read
  are gone, unless a hook replaced them meanwhile.
\<close>

theorem refresh_keeps_newer_hooks:
  assumes "refreshPendingLocalSceneMatches gql ep meanwhile db = (db', Inr ())"
    and "unique_key fst (match_pending db)"
    and "\<forall>h \<in> set (concat meanwhile). snd h \<notin> snd ` set (match_pending db)"
    and "length meanwhile \<le> length (chunks_of 200 (sort_key fst (match_pending db)))"
  shows "fst ` set (match_pending db') = fst ` set (concat meanwhile)"
proof
  let ?snap = "sort_key fst (match_pending db)"
  have run: "refresh_batches gql ep meanwhile (chunks_of 200 ?snap) db = (db', Inr ())"
    using assms(1) by (simp add: refreshPendingLocalSceneMatches_def)
  have "set (concat meanwhile) \<inter> set (match_pending db) = {}" using assms(3) by auto
  then show "fst ` set (match_pending db') \<subseteq> fst ` set (concat meanwhile)"
    using refresh_batches_removes [OF run assms(2)] unfolding concat_chunks_of by auto
  have subsets: "\<forall>b \<in> set (chunks_of 200 ?snap). set b \<subseteq> set ?snap"
    using concat_chunks_of [of 200 ?snap] by (metis concat_eq_concat_iff UN_upper set_concat)
  show "fst ` set (concat meanwhile) \<subseteq> fst ` set (match_pending db')"
  proof
    fix sid
    assume "sid \<in> fst ` set (concat meanwhile)"
    then have "newer_queued ?snap sid db'"
      using refresh_batches_newer [OF run assms(2) _ subsets, of sid] assms(3,4) by auto
    then show "sid \<in> fst ` set (match_pending db')" by (auto simp: newer_queued_def rev_image_eqI)
  qed
qed

definition answer_nothing :: graphql where
  "answer_nothing name vars = Inr (JObj [(''findScenes'', JObj [(''scenes'', JArr [])])])"

theorem refresh_keeps_newer_hooks_witness:
  "\<exists>db'. refreshPendingLocalSceneMatches answer_nothing ''e'' [[(''7'', ''new'')]]
      \<lparr>match_rows = [], match_pending = [(''7'', ''old'')], match_ready = None\<rparr> = (db', Inr ()) \<and>
    fst ` set (match_pending db') = {''7''}"
proof -
  let ?db = "\<lparr>match_rows = [], match_pending = [(''7'', ''old'')], match_ready = None\<rparr>"
  obtain db' where "refreshPendingLocalSceneMatches answer_nothing ''e'' [[(''7'', ''new'')]] ?db = (db', Inr ())"
    by (simp add: refreshPendingLocalSceneMatches_def batch_scenes_def answer_nothing_def jget_JObj batch_by_id_def
      refresh_batch_def refresh_one_def queueLocalSceneMatch_def upsert_row_def update_where_def lookup_row_def)
  with refresh_keeps_newer_hooks [OF this] show ?thesis by (simp add: unique_key_def)
qed

end
