(* ===== verification/Sync_Repository.thy ===== *)
theory Sync_Repository
  imports Sync_Mirror Local_Matches
begin

text \<open>
  The repository of the sync (\<open>syncRepository\<close> of \<open>core/syncclient.go\<close>): runs, the
  cursor of each entity type with its watermarks, and the ids a full run has seen. An operation
  of one transaction answers the new database or an error; \<open>prepareEntity\<close> and
  \<open>failRun\<close> commit several statements one by one, so they answer the database beside the
  result.
\<close>

section \<open>State\<close>

record sync_run =
  run_id :: string
  run_mode :: string
  run_state :: string
  run_server :: "string option"
  run_started_at_ms :: int
  run_completed_at_ms :: "int option"
  run_error :: "string option"

record sync_cursor =
  cur_entity :: string
  cur_watermark :: "string option"
  cur_page :: "string option"
  cur_state :: string
  cur_updated_at_ms :: int
  cur_run :: "string option"
  cur_baseline :: "string option"
  cur_pending :: "string option"

record entity_change =
  ec_type :: string
  ec_id :: string
  ec_operation :: string
  ec_created_at_ms :: int

record sync_db =
  source :: source_db
  sync_runs :: "sync_run list"
  cursors :: "sync_cursor list"
  seen_ids :: "(string \<times> string \<times> string) list"
  changes :: "entity_change list"
  matches_ready :: "string option"

definition run_check :: "sync_run \<Rightarrow> bool" where
  "run_check r \<longleftrightarrow> run_mode r \<in> {''incremental'', ''full''} \<and> run_state r \<in> {''running'', ''complete'', ''failed''} \<and>
     0 \<le> run_started_at_ms r \<and> (case run_completed_at_ms r of None \<Rightarrow> True | Some t \<Rightarrow> run_started_at_ms r \<le> t)"

definition cursor_check :: "sync_cursor \<Rightarrow> bool" where
  "cursor_check c \<longleftrightarrow> cur_state c \<in> {''idle'', ''running'', ''complete'', ''failed''} \<and> 0 \<le> cur_updated_at_ms c"

definition change_key :: "entity_change \<Rightarrow> string \<times> string" where
  "change_key c = (ec_type c, ec_id c)"

definition run_ids :: "sync_db \<Rightarrow> string set" where
  "run_ids db = run_id ` set (sync_runs db)"

section \<open>Runs\<close>

text \<open>\<open>ORDER BY started_at_ms DESC LIMIT 1\<close>.\<close>

definition resumableRun :: "string \<Rightarrow> sync_db \<Rightarrow> sync_run option" where
  "resumableRun mode db = first_by (\<lambda>a b. run_started_at_ms a > run_started_at_ms b)
     (filter (\<lambda>r. run_mode r = mode \<and> run_state r \<in> {''running'', ''failed''}) (sync_runs db))"

definition startRun :: "string \<Rightarrow> string \<Rightarrow> string \<Rightarrow> int \<Rightarrow> sync_db \<Rightarrow> sync_db res" where
  "startRun rid mode version now db =
     and_then (insert_row run_id run_check \<lparr>run_id = rid, run_mode = mode, run_state = ''running'',
         run_server = Some version, run_started_at_ms = now, run_completed_at_ms = None, run_error = None\<rparr> (sync_runs db))
       (\<lambda>rows. Inr (db\<lparr>sync_runs := rows\<rparr>))"

definition update_run :: "string \<Rightarrow> (sync_run \<Rightarrow> sync_run) \<Rightarrow> sync_db \<Rightarrow> sync_db res" where
  "update_run rid f db = and_then (update_checked run_check (\<lambda>r. run_id r = rid) f (sync_runs db))
     (\<lambda>rows. Inr (db\<lparr>sync_runs := rows\<rparr>))"

definition resumeRun :: "string \<Rightarrow> sync_db \<Rightarrow> sync_db res" where
  "resumeRun rid db = update_run rid (\<lambda>r. r\<lparr>run_state := ''running'', run_error := None\<rparr>) db"

definition finishRun :: "string \<Rightarrow> int \<Rightarrow> sync_db \<Rightarrow> sync_db res" where
  "finishRun rid now db = update_run rid (\<lambda>r. r\<lparr>run_state := ''complete'', run_completed_at_ms := Some now,
     run_error := None\<rparr>) db"

section \<open>Cursors\<close>

definition update_cursor :: "(sync_cursor \<Rightarrow> bool) \<Rightarrow> (sync_cursor \<Rightarrow> sync_cursor) \<Rightarrow> sync_db \<Rightarrow> sync_db res" where
  "update_cursor p f db = and_then (update_checked cursor_check p f (cursors db)) (\<lambda>rows. Inr (db\<lparr>cursors := rows\<rparr>))"

definition failRun :: "string \<Rightarrow> string \<Rightarrow> string \<Rightarrow> int \<Rightarrow> sync_db \<Rightarrow> sync_db \<times> unit res" where
  "failRun rid ty errorText now db =
     (case update_run rid (\<lambda>r. r\<lparr>run_state := ''failed'', run_error := Some (take 2000 errorText)\<rparr>) db of
        Inl e \<Rightarrow> (db, Inl e)
      | Inr db1 \<Rightarrow>
          if ty = [] then (db1, Inr ())
          else (case update_cursor (\<lambda>c. cur_entity c = ty \<and> cur_run c = Some rid)
                  (\<lambda>c. c\<lparr>cur_state := ''failed'', cur_updated_at_ms := now\<rparr>) db1 of
              Inl e \<Rightarrow> (db1, Inl e)
            | Inr db2 \<Rightarrow> (db2, Inr ())))"

text \<open>\<open>Sscanf("%d")\<close>: leading blanks, a sign, the leading digits; out of range is an error.\<close>

definition parseInt64 :: "string \<Rightarrow> int option" where
  "parseInt64 value =
     (let (neg, ds) = split_sign (dropWhile (\<lambda>c. c = CHR '' '') value);
          digits = takeWhile is_digit ds;
          n = (if neg then - int_of_digits digits else int_of_digits digits)
      in if digits = [] \<or> n < min_int64 \<or> max_int64 < n then None else Some n)"

text \<open>The upsert and the update by which a run takes over the cursor of an entity type.\<close>

definition take_cursor :: "string \<Rightarrow> string \<Rightarrow> int \<Rightarrow> sync_db \<Rightarrow> sync_db res" where
  "take_cursor rid ty now db =
     with_refs (rid \<in> run_ids db)
       (and_then (upsert_checked cur_entity cursor_check
           (\<lambda>old new. old\<lparr>cur_page := Some ''1'', cur_state := ''running'', cur_updated_at_ms := cur_updated_at_ms new,
              cur_run := cur_run new, cur_baseline := cur_watermark old, cur_pending := None\<rparr>)
           \<lparr>cur_entity = ty, cur_watermark = None, cur_page = Some ''1'', cur_state = ''running'',
            cur_updated_at_ms = now, cur_run = Some rid, cur_baseline = None, cur_pending = None\<rparr> (cursors db))
         (\<lambda>rows. Inr (db\<lparr>cursors := rows\<rparr>)))"

definition set_baseline :: "string \<Rightarrow> sync_db \<Rightarrow> sync_db res" where
  "set_baseline ty db = update_cursor (\<lambda>c. cur_entity c = ty \<and> cur_baseline c = None)
     (\<lambda>c. c\<lparr>cur_baseline := cur_watermark c\<rparr>) db"

definition begin_entity :: "string \<Rightarrow> string \<Rightarrow> int \<Rightarrow> sync_db \<Rightarrow> sync_db \<times> (int \<times> bool) res" where
  "begin_entity rid ty now db =
     (case take_cursor rid ty now db of
        Inl e \<Rightarrow> (db, Inl e)
      | Inr db1 \<Rightarrow>
          (case set_baseline ty db1 of
             Inl e \<Rightarrow> (db1, Inl e)
           | Inr db2 \<Rightarrow> (db2, Inr (1, True))))"

text \<open>The next page of an entity type in this run; not active when the run has completed it.\<close>

definition prepareEntity :: "string \<Rightarrow> string \<Rightarrow> int \<Rightarrow> sync_db \<Rightarrow> sync_db \<times> (int \<times> bool) res" where
  "prepareEntity rid ty now db =
     (case lookup_row cur_entity ty (cursors db) of
        None \<Rightarrow> begin_entity rid ty now db
      | Some c \<Rightarrow>
          if cur_run c = None then (db, Inl (Msg ''converting NULL to string is unsupported''))
          else if cur_run c = Some rid \<and> cur_state c = ''complete'' then (db, Inr (0, False))
          else if cur_run c = Some rid then
            (case update_cursor (\<lambda>c. cur_entity c = ty) (\<lambda>c. c\<lparr>cur_state := ''running'', cur_updated_at_ms := now\<rparr>) db of
               Inl e \<Rightarrow> (db, Inl e)
             | Inr db1 \<Rightarrow> (db1, Inr (case cur_page c of None \<Rightarrow> 1 | Some p \<Rightarrow> (case parseInt64 p of None \<Rightarrow> 1 | Some n \<Rightarrow> n), True)))
          else begin_entity rid ty now db)"

definition text_or_empty :: "string option \<Rightarrow> string" where
  "text_or_empty v = (case v of None \<Rightarrow> [] | Some s \<Rightarrow> s)"

definition cursorWatermarks :: "string \<Rightarrow> sync_db \<Rightarrow> string \<times> string" where
  "cursorWatermarks ty db =
     (case lookup_row cur_entity ty (cursors db) of
        None \<Rightarrow> ([], [])
      | Some c \<Rightarrow> (text_or_empty (cur_baseline c), text_or_empty (cur_pending c)))"

definition completeEntity :: "string \<Rightarrow> string \<Rightarrow> int \<Rightarrow> sync_db \<Rightarrow> sync_db res" where
  "completeEntity rid ty now db = update_cursor (\<lambda>c. cur_entity c = ty \<and> cur_run c = Some rid)
     (\<lambda>c. c\<lparr>cur_watermark := coalesce (cur_pending c) (cur_watermark c), cur_page := None,
        cur_state := ''complete'', cur_updated_at_ms := now\<rparr>) db"

section \<open>Pages\<close>

definition write_matches :: "string \<Rightarrow> jVal list \<Rightarrow> sync_db \<Rightarrow> sync_db res" where
  "write_matches ep ms db =
     and_then (fold_res (writeLocalSceneMatch ep) ms (local_matches (source db)))
       (\<lambda>rows. Inr (db\<lparr>source := (source db)\<lparr>local_matches := rows\<rparr>\<rparr>))"

definition see_id :: "string \<Rightarrow> string \<Rightarrow> string \<Rightarrow> sync_db \<Rightarrow> sync_db res" where
  "see_id rid ty i db = with_refs (rid \<in> run_ids db)
     (Inr (db\<lparr>seen_ids := insert_or_ignore id (\<lambda>_. True) (rid, ty, i) (seen_ids db)\<rparr>))"

definition save_item :: "(string \<Rightarrow> string) \<Rightarrow> string \<Rightarrow> string \<Rightarrow> bool \<Rightarrow> syncSourceEntity \<Rightarrow>
    string list \<times> sync_db \<Rightarrow> (string list \<times> sync_db) res" where
  "save_item sha rid ty recordSeen item = (\<lambda>(changed, db).
     and_then (syncUpsert sha item (source db)) (\<lambda>(flag, s).
       let changed' = (if flag then changed @ [entityID item] else changed); db1 = db\<lparr>source := s\<rparr> in
       if recordSeen then and_then (see_id rid ty (entityID item) db1) (\<lambda>db2. Inr (changed', db2))
       else Inr (changed', db1)))"

definition higher_watermark :: "string \<Rightarrow> string \<Rightarrow> string" where
  "higher_watermark page pending =
     (if page \<noteq> [] \<and> (pending = [] \<or> pending < page) then page else pending)"

definition savePage :: "(string \<Rightarrow> string) \<Rightarrow> string \<Rightarrow> string \<Rightarrow> string \<Rightarrow> syncSourceEntity list \<Rightarrow> jVal list \<Rightarrow>
    int \<Rightarrow> string \<Rightarrow> int \<Rightarrow> bool \<Rightarrow> sync_db \<Rightarrow> (string list \<times> sync_db) res" where
  "savePage sha ep rid ty items matchScenes nextPage pageHigh now recordSeen db =
     and_then (write_matches ep matchScenes db) (\<lambda>db1.
     and_then (fold_res (save_item sha rid ty recordSeen) items ([], db1)) (\<lambda>(changed, db2).
       case lookup_row cur_entity ty (cursors db2) of
         None \<Rightarrow> Inl No_Rows
       | Some c \<Rightarrow>
           and_then (update_cursor (\<lambda>c. cur_entity c = ty \<and> cur_run c = Some rid)
               (\<lambda>c'. c'\<lparr>cur_page := Some (itoa nextPage),
                  cur_pending := Some (higher_watermark pageHigh (text_or_empty (cur_pending c))),
                  cur_updated_at_ms := now\<rparr>) db2)
             (\<lambda>db3. Inr (changed, db3))))"

section \<open>Entities\<close>

definition all_ids :: "string \<Rightarrow> source_db \<Rightarrow> string list" where
  "all_ids ty s = (if ty = ''tag'' then map st_id (tags s) else if ty = ''studio'' then map ss_id (studios s)
     else if ty = ''performer'' then map sp_id (performers s) else if ty = ''scene'' then map sn_id (scenes s) else [])"

definition entityCount :: "string \<Rightarrow> sync_db \<Rightarrow> int" where
  "entityCount ty db = int (length (all_ids ty (source db)))"

definition on_source :: "(source_db \<Rightarrow> source_db res) \<Rightarrow> sync_db \<Rightarrow> sync_db res" where
  "on_source f db = and_then (f (source db)) (\<lambda>s. Inr (db\<lparr>source := s\<rparr>))"

definition upsert_entity :: "(string \<Rightarrow> string) \<Rightarrow> syncSourceEntity \<Rightarrow> sync_db \<Rightarrow> (bool \<times> sync_db) res" where
  "upsert_entity sha e db = and_then (syncUpsert sha e (source db)) (\<lambda>(changed, s). Inr (changed, db\<lparr>source := s\<rparr>))"

definition deleteEntities :: "string \<Rightarrow> string list \<Rightarrow> sync_db \<Rightarrow> sync_db res" where
  "deleteEntities ty deleted db = (if deleted = [] then Inr db else on_source (syncDeleteEntitiesConn ty deleted) db)"

definition deleteAbsent :: "string \<Rightarrow> string set \<Rightarrow> sync_db \<Rightarrow> (string list \<times> sync_db) res" where
  "deleteAbsent ty present db =
     (let deleted = sort (filter (\<lambda>i. i \<notin> present) (all_ids ty (source db))) in
      and_then (deleteEntities ty deleted db) (\<lambda>db'. Inr (deleted, db')))"

definition reconcile_type :: "string \<Rightarrow> string \<Rightarrow> sync_db \<Rightarrow> sync_db res" where
  "reconcile_type rid ty db = on_source (syncDeleteEntitiesConn ty
     (filter (\<lambda>i. (rid, ty, i) \<notin> set (seen_ids db)) (all_ids ty (source db)))) db"

definition reconcile :: "string \<Rightarrow> sync_db \<Rightarrow> sync_db res" where
  "reconcile rid db = fold_res (reconcile_type rid) [''scene'', ''performer'', ''tag'', ''studio''] db"

end
