(* ===== verification/Sync_Service.thy ===== *)
theory Sync_Service
  imports Sync_Repository "HOL-Library.AList"
begin

text \<open>
  The sync service (\<open>syncService\<close> of \<open>core/syncclient.go\<close>): the capability probe, the
  pagination of one entity type with its watermarks, the sweep for deleted entities, and the run
  that puts them together. \<open>sv_gql\<close> answers a query by its name and variables. No query of a
  run is sent twice with the same variables, so a Stash that changes while the run reads it is
  a function of this kind too. \<open>sv_clock\<close> is the clock at a place of the code, an entity type
  and a page. A loop over pages has fuel: it answers None when the fuel is spent.
\<close>

section \<open>Operations\<close>

record syncOperation =
  op_entity :: string
  op_name :: string
  op_root :: string
  op_items :: string
  op_sort :: string
  op_incremental :: bool
  op_ids :: "string option"

definition syncTagOperation :: syncOperation where
  "syncTagOperation = \<lparr>op_entity = ''tag'', op_name = ''CuratorTags'', op_root = ''findTags'', op_items = ''tags'',
     op_sort = ''updated_at'', op_incremental = False, op_ids = Some ''CuratorTagIds''\<rparr>"

definition syncStudioOperation :: syncOperation where
  "syncStudioOperation = \<lparr>op_entity = ''studio'', op_name = ''CuratorStudios'', op_root = ''findStudios'',
     op_items = ''studios'', op_sort = ''updated_at'', op_incremental = False, op_ids = Some ''CuratorStudioIds''\<rparr>"

definition syncPerformerOperation :: syncOperation where
  "syncPerformerOperation = \<lparr>op_entity = ''performer'', op_name = ''CuratorPerformers'', op_root = ''findPerformers'',
     op_items = ''performers'', op_sort = ''updated_at'', op_incremental = False, op_ids = Some ''CuratorPerformerIds''\<rparr>"

definition syncSceneOperation :: syncOperation where
  "syncSceneOperation = \<lparr>op_entity = ''scene'', op_name = ''CuratorScenes'', op_root = ''findScenes'',
     op_items = ''scenes'', op_sort = ''updated_at'', op_incremental = False, op_ids = Some ''CuratorSceneIds''\<rparr>"

definition syncScenePlaysOperation :: syncOperation where
  "syncScenePlaysOperation = \<lparr>op_entity = ''scene_play'', op_name = ''CuratorScenePlays'', op_root = ''findScenes'',
     op_items = ''scenes'', op_sort = ''last_played_at'', op_incremental = True, op_ids = None\<rparr>"

definition syncOperations :: "syncOperation list" where
  "syncOperations = [syncTagOperation, syncStudioOperation, syncPerformerOperation, syncSceneOperation,
     syncScenePlaysOperation]"

lemmas operation_defs = syncTagOperation_def syncStudioOperation_def syncPerformerOperation_def
  syncSceneOperation_def syncScenePlaysOperation_def

lemma op_entities [simp]: "op_entity syncTagOperation = ''tag''" "op_entity syncStudioOperation = ''studio''"
  "op_entity syncPerformerOperation = ''performer''" "op_entity syncSceneOperation = ''scene''"
  "op_entity syncScenePlaysOperation = ''scene_play''"
  by (simp_all add: operation_defs)

section \<open>Service\<close>

record syncService =
  sv_gql :: graphql
  sv_sha :: "string \<Rightarrow> string"
  sv_endpoint :: string
  sv_page_size :: int
  sv_clock :: "string \<Rightarrow> string \<Rightarrow> int \<Rightarrow> int"
  sv_id :: string

definition newSyncService :: "graphql \<Rightarrow> (string \<Rightarrow> string) \<Rightarrow> string \<Rightarrow> int \<Rightarrow> (string \<Rightarrow> string \<Rightarrow> int \<Rightarrow> int) \<Rightarrow>
    string \<Rightarrow> syncService res" where
  "newSyncService gql sha ep pageSize clock new_id =
     (if pageSize < 1 then Inl (Msg ''page_size must be positive'')
      else Inr \<lparr>sv_gql = gql, sv_sha = sha, sv_endpoint = ep, sv_page_size = pageSize, sv_clock = clock, sv_id = new_id\<rparr>)"

text \<open>The fields a type of the schema names, and those of the required ones it lacks.\<close>

definition field_names :: "jVal \<Rightarrow> string list" where
  "field_names fs = map (\<lambda>f. asString (jget f ''name'')) (filter (\<lambda>f. truthy (jget f ''name'')) (arr_of fs))"

definition missing_fields :: "string list \<Rightarrow> jVal \<Rightarrow> string list" where
  "missing_fields required fs = sort (filter (\<lambda>f. f \<notin> set (field_names fs)) required)"

definition require_fields :: "jVal \<Rightarrow> string \<Rightarrow> string \<Rightarrow> string list \<Rightarrow> unit res" where
  "require_fields data typeKey fieldKey required =
     (let typeData = jget data typeKey in
      if \<not> is_obj typeData \<or> \<not> is_arr (jget typeData fieldKey)
      then Inl (Msg (''Stash capability probe is missing '' @ typeKey))
      else let missing = missing_fields required (jget typeData fieldKey) in
        if missing \<noteq> []
        then Inl (Msg (''Stash '' @ typeKey @ '' is missing required fields: ['' @ join_with '' '' missing @ '']''))
        else Inr ())"

text \<open>Go visits the requirements in any order, which decides the message of a schema with several faults.\<close>

definition probe_requirements :: "(string \<times> string list) list" where
  "probe_requirements =
     [(''queryType'', [''findTags'', ''findStudios'', ''findPerformers'', ''findScenes'']),
      (''sceneType'', [''id'', ''updated_at'', ''play_count'', ''play_duration'', ''play_history'', ''o_history'',
         ''files'', ''scene_markers'', ''tags'', ''performers'']),
      (''performerType'', [''id'', ''updated_at'', ''favorite'', ''weight'', ''fake_tits'']),
      (''tagType'', [''id'', ''updated_at'', ''stash_ids''])]"

definition probeSyncCapabilities :: "graphql \<Rightarrow> string res" where
  "probeSyncCapabilities gql = and_then (gql ''CuratorCapabilities'' JNull) (\<lambda>data.
     let version = jget data ''version'' in
     if \<not> is_obj version \<or> \<not> truthy (jget version ''version'')
     then Inl (Msg ''Stash did not return a compatible version response'')
     else and_then (fold_res (\<lambda>(key, required) u. require_fields data key ''fields'' required) probe_requirements ())
       (\<lambda>_. and_then (require_fields data ''sceneFilterType'' ''inputFields'' [''play_count'', ''last_played_at''])
       (\<lambda>_. Inr (asString (jget version ''version'')))))"

section \<open>One entity type\<close>

definition syncPlayedSince :: "string \<Rightarrow> jVal" where
  "syncPlayedSince watermark =
     (let criteria = JObj [(''play_count'', JObj [(''value'', jvInt 0), (''modifier'', JStr ''GREATER_THAN'')])] in
      JObj [(''sceneFilter'', if watermark \<noteq> []
        then jset criteria ''last_played_at'' (JObj [(''value'', JStr watermark), (''modifier'', JStr ''GREATER_THAN'')])
        else criteria)])"

definition first_max :: "('a :: linorder) list \<Rightarrow> 'a option" where
  "first_max xs = (case xs of [] \<Rightarrow> None | x # xs \<Rightarrow> Some (foldl (\<lambda>m v. if v > m then v else m) x xs))"

definition first_min :: "('a :: linorder) list \<Rightarrow> 'a option" where
  "first_min xs = (case xs of [] \<Rightarrow> None | x # xs \<Rightarrow> Some (foldl (\<lambda>m v. if v < m then v else m) x xs))"

definition syncLastPlayedAt :: "syncSourceEntity \<Rightarrow> string option" where
  "syncLastPlayedAt e = (case e of Scene_Entity s \<Rightarrow> map_option epochMsToISO (first_max (sc_play_history_ms s)) | _ \<Rightarrow> None)"

definition syncOperationWatermark :: "syncOperation \<Rightarrow> syncSourceEntity \<Rightarrow> string option" where
  "syncOperationWatermark op e =
     (if op_items op = ''scenes'' \<and> op_incremental op then syncLastPlayedAt e else entityUpdatedAt e)"

definition page_variables :: "syncService \<Rightarrow> syncOperation \<Rightarrow> bool \<Rightarrow> string \<Rightarrow> int \<Rightarrow> jVal" where
  "page_variables sv op full baseline page =
     (let base = if op_incremental op then syncPlayedSince baseline else JObj [] in
      jset (jset (jset (jset base ''page'' (jvInt page)) ''perPage'' (jvInt (sv_page_size sv)))
        ''sort'' (JStr (if full then ''id'' else op_sort op))) ''direction'' (JStr (if full then ''ASC'' else ''DESC'')))"

text \<open>The items of a page as Stash sent them, and the total it reports.\<close>

definition fetch_page :: "syncService \<Rightarrow> syncOperation \<Rightarrow> bool \<Rightarrow> string \<Rightarrow> int \<Rightarrow> (jVal list \<times> int) res" where
  "fetch_page sv op full baseline page =
     and_then (sv_gql sv (op_name op) (page_variables sv op full baseline page)) (\<lambda>data.
       let root = jget data (op_root op) in Inr (arr_of (jget root (op_items op)), pythonInt (jget root ''count'')))"

definition adapt_items :: "syncOperation \<Rightarrow> jVal list \<Rightarrow> syncSourceEntity list" where
  "adapt_items op items = List.map_filter (adaptSyncEntity (op_items op)) items"

definition page_timestamps :: "syncOperation \<Rightarrow> syncSourceEntity list \<Rightarrow> string list" where
  "page_timestamps op es = List.map_filter (syncOperationWatermark op) es"

definition reached_watermark :: "bool \<Rightarrow> string \<Rightarrow> string list \<Rightarrow> bool" where
  "reached_watermark full baseline ts \<longleftrightarrow> \<not> full \<and> baseline \<noteq> [] \<and>
     (case first_min ts of None \<Rightarrow> False | Some m \<Rightarrow> m \<le> baseline)"

definition page_exhausted :: "syncService \<Rightarrow> syncSourceEntity list \<Rightarrow> int \<Rightarrow> int \<Rightarrow> bool" where
  "page_exhausted sv es page remoteTotal \<longleftrightarrow> es = [] \<or> wrap64 (page * sv_page_size sv) \<ge> remoteTotal"

text \<open>A first or full scan of the scenes has indexed their matches.\<close>

definition mark_index :: "syncOperation \<Rightarrow> bool \<Rightarrow> string \<Rightarrow> sync_db \<Rightarrow> sync_db" where
  "mark_index op full baseline db =
     (if op_entity op = ''scene'' \<and> \<not> op_incremental op \<and> (full \<or> baseline = [])
      then db\<lparr>matches_ready := (case matches_ready db of None \<Rightarrow> Some ''1'' | Some r \<Rightarrow> Some r)\<rparr> else db)"

definition finish_entity :: "syncService \<Rightarrow> string \<Rightarrow> syncOperation \<Rightarrow> bool \<Rightarrow> string \<Rightarrow> sync_db \<Rightarrow> sync_db \<times> unit res" where
  "finish_entity sv rid op full baseline db =
     (let db1 = mark_index op full baseline db in
      (case completeEntity rid (op_entity op) (sv_clock sv ''complete'' (op_entity op) 0) db1 of
         Inl e \<Rightarrow> (db1, Inl e)
       | Inr db2 \<Rightarrow> (db2, Inr ())))"

definition store_page :: "syncService \<Rightarrow> string \<Rightarrow> syncOperation \<Rightarrow> bool \<Rightarrow> int \<Rightarrow> jVal list \<Rightarrow> sync_db \<Rightarrow>
    (string list \<times> sync_db) res" where
  "store_page sv rid op full page items db =
     (let es = adapt_items op items in
      savePage (sv_sha sv) (sv_endpoint sv) rid (op_entity op) es (if op_entity op = ''scene'' then items else [])
        (wrap64 (page + 1)) (text_or_empty (first_max (page_timestamps op es)))
        (sv_clock sv ''page'' (op_entity op) page) full db)"

text \<open>The loop of \<open>syncEntity\<close> from a page on, with the items processed and the ids changed so far.\<close>

fun sync_pages :: "syncService \<Rightarrow> string \<Rightarrow> syncOperation \<Rightarrow> bool \<Rightarrow> string \<Rightarrow> nat \<Rightarrow> int \<Rightarrow> int \<Rightarrow> string list \<Rightarrow>
    sync_db \<Rightarrow> (sync_db \<times> (int \<times> string list) res) option" where
  "sync_pages sv rid op full baseline 0 page processed ids db = None"
| "sync_pages sv rid op full baseline (Suc fuel) page processed ids db =
     (case fetch_page sv op full baseline page of
        Inl e \<Rightarrow> Some (db, Inl e)
      | Inr (items, remoteTotal) \<Rightarrow>
          (case store_page sv rid op full page items db of
             Inl e \<Rightarrow> Some (db, Inl e)
           | Inr (changed, db1) \<Rightarrow>
               let es = adapt_items op items; processed' = processed + int (length es); ids' = ids @ changed in
               if reached_watermark full baseline (page_timestamps op es) \<or> page_exhausted sv es page remoteTotal
               then (case finish_entity sv rid op full baseline db1 of
                   (db2, Inl e) \<Rightarrow> Some (db2, Inl e)
                 | (db2, Inr u) \<Rightarrow> Some (db2, Inr (processed', ids')))
               else sync_pages sv rid op full baseline fuel (wrap64 (page + 1)) processed' ids' db1))"

definition syncEntity :: "syncService \<Rightarrow> nat \<Rightarrow> string \<Rightarrow> syncOperation \<Rightarrow> bool \<Rightarrow> sync_db \<Rightarrow>
    (sync_db \<times> (int \<times> string list) res) option" where
  "syncEntity sv fuel rid op full db =
     (case prepareEntity rid (op_entity op) (sv_clock sv ''prepare'' (op_entity op) 0) db of
        (db1, Inl e) \<Rightarrow> Some (db1, Inl e)
      | (db1, Inr (page, active)) \<Rightarrow>
          if \<not> active then Some (db1, Inr (0, []))
          else sync_pages sv rid op full (fst (cursorWatermarks (op_entity op) db1)) fuel page 0 [] db1)"

section \<open>Deleted entities\<close>

text \<open>The sweep over all remote ids; \<open>present\<close> holds the ids found so far.\<close>

definition sweep_page_size :: int where "sweep_page_size = 5000"

definition ids_query :: "syncService \<Rightarrow> string \<Rightarrow> int \<Rightarrow> int \<Rightarrow> jVal res" where
  "ids_query sv name page perPage = sv_gql sv name (JObj [(''page'', jvInt page), (''perPage'', jvInt perPage)])"

fun sweep_ids :: "syncService \<Rightarrow> syncOperation \<Rightarrow> string \<Rightarrow> nat \<Rightarrow> int \<Rightarrow> string list \<Rightarrow> string list res option" where
  "sweep_ids sv op name 0 page present = None"
| "sweep_ids sv op name (Suc fuel) page present =
     (case ids_query sv name page sweep_page_size of
        Inl e \<Rightarrow> Some (Inl e)
      | Inr data \<Rightarrow>
          let root = jget data (op_root op); remoteTotal = pythonInt (jget root ''count''); items = arr_of (jget root (op_items op));
              found = remdups (present @ map (\<lambda>item. asString (jget item ''id'')) items) in
          if items = [] \<or> int (length found) \<ge> remoteTotal then Some (Inr found)
          else sweep_ids sv op name fuel (page + 1) found)"

definition pruneDeleted :: "syncService \<Rightarrow> nat \<Rightarrow> syncOperation \<Rightarrow> sync_db \<Rightarrow> (sync_db \<times> string list res) option" where
  "pruneDeleted sv fuel op db =
     (case op_ids op of
        None \<Rightarrow> Some (db, Inr [])
      | Some name \<Rightarrow>
          (case ids_query sv name 1 0 of
             Inl e \<Rightarrow> Some (db, Inl e)
           | Inr probe \<Rightarrow>
               if entityCount (op_entity op) db \<le> pythonInt (jget (jget probe (op_root op)) ''count'') then Some (db, Inr [])
               else (case sweep_ids sv op name fuel 1 [] of
                   None \<Rightarrow> None
                 | Some (Inl e) \<Rightarrow> Some (db, Inl e)
                 | Some (Inr present) \<Rightarrow>
                     if present = [] then Some (db, Inr [])
                     else (case deleteAbsent (op_entity op) (set present) db of
                         Inl e \<Rightarrow> Some (db, Inl e)
                       | Inr (deleted, db') \<Rightarrow> Some (db', Inr deleted)))))"

section \<open>Runs\<close>

record sync_totals =
  tot_counts :: "(string \<times> int) list"
  tot_changed :: "(string \<times> int) list"
  tot_scenes :: "string list"
  tot_deleted :: "(string \<times> int) list"

record sync_result =
  res_run_id :: string
  res_mode :: string
  res_version :: string
  res_resumed :: bool
  res_totals :: sync_totals

text \<open>The body of a run: an error comes with the entity type it happened at.\<close>

type_synonym 'a run_body = "(sync_db \<times> (string \<times> go_error + 'a)) option"

definition add_totals :: "syncOperation \<Rightarrow> int \<Rightarrow> string list \<Rightarrow> sync_totals \<Rightarrow> sync_totals" where
  "add_totals op n ids t = t\<lparr>tot_counts := AList.update (op_entity op) n (tot_counts t),
     tot_changed := AList.update (op_entity op) (int (length ids)) (tot_changed t),
     tot_scenes := (if op_items op = ''scenes'' then remdups (tot_scenes t @ ids) else tot_scenes t)\<rparr>"

fun run_operations :: "syncService \<Rightarrow> nat \<Rightarrow> string \<Rightarrow> bool \<Rightarrow> syncOperation list \<Rightarrow> sync_totals \<Rightarrow> sync_db \<Rightarrow>
    sync_totals run_body" where
  "run_operations sv fuel rid full [] t db = Some (db, Inr t)"
| "run_operations sv fuel rid full (op # ops) t db =
     (case syncEntity sv fuel rid op full db of
        None \<Rightarrow> None
      | Some (db1, Inl e) \<Rightarrow> Some (db1, Inl (op_entity op, e))
      | Some (db1, Inr (n, ids)) \<Rightarrow> run_operations sv fuel rid full ops (add_totals op n ids t) db1)"

fun prune_operations :: "syncService \<Rightarrow> nat \<Rightarrow> syncOperation list \<Rightarrow> sync_totals \<Rightarrow> sync_db \<Rightarrow> sync_totals run_body" where
  "prune_operations sv fuel [] t db = Some (db, Inr t)"
| "prune_operations sv fuel (op # ops) t db =
     (case pruneDeleted sv fuel op db of
        None \<Rightarrow> None
      | Some (db1, Inl e) \<Rightarrow> Some (db1, Inl (op_entity op, e))
      | Some (db1, Inr deleted) \<Rightarrow> prune_operations sv fuel ops
          (if deleted = [] then t else t\<lparr>tot_deleted := AList.update (op_entity op) (int (length deleted)) (tot_deleted t)\<rparr>) db1)"

text \<open>Hooks may have indexed a newly created scene after the full scan.\<close>

definition drop_orphan_matches :: "sync_db \<Rightarrow> sync_db" where
  "drop_orphan_matches db = (let s = source db;
       kept = scene_ids s \<union> ec_id ` set (filter (\<lambda>c. ec_type c = ''scene'' \<and> ec_operation c = ''upsert'') (changes db)) in
     db\<lparr>source := s\<lparr>local_matches := delete_where (\<lambda>r. fst r \<notin> kept) (local_matches s)\<rparr>\<rparr>)"

definition after_operations :: "syncService \<Rightarrow> nat \<Rightarrow> string \<Rightarrow> bool \<Rightarrow> bool \<Rightarrow> syncOperation list \<Rightarrow> sync_totals \<Rightarrow> sync_db \<Rightarrow>
    sync_totals run_body" where
  "after_operations sv fuel rid full playsOnly ops t db =
     (if full then (case reconcile rid db of
          Inl e \<Rightarrow> Some (db, Inl ([], e))
        | Inr db1 \<Rightarrow> Some (drop_orphan_matches db1, Inr t))
      else if \<not> playsOnly then prune_operations sv fuel ops t db
      else Some (db, Inr t))"

definition sync_body :: "syncService \<Rightarrow> nat \<Rightarrow> string \<Rightarrow> bool \<Rightarrow> bool \<Rightarrow> syncOperation list \<Rightarrow> sync_db \<Rightarrow> sync_totals run_body" where
  "sync_body sv fuel rid full playsOnly ops db =
     (case run_operations sv fuel rid full ops \<lparr>tot_counts = [], tot_changed = [], tot_scenes = [], tot_deleted = []\<rparr> db of
        None \<Rightarrow> None
      | Some (db1, Inl e) \<Rightarrow> Some (db1, Inl e)
      | Some (db1, Inr t) \<Rightarrow>
          (case after_operations sv fuel rid full playsOnly ops t db1 of
             None \<Rightarrow> None
           | Some (db2, Inl e) \<Rightarrow> Some (db2, Inl e)
           | Some (db2, Inr t2) \<Rightarrow>
               (case finishRun rid (sv_clock sv ''finish'' [] 0) db2 of
                  Inl e \<Rightarrow> Some (db2, Inl ([], e))
                | Inr db3 \<Rightarrow> Some (db3, Inr t2))))"

definition run_operations_of :: "bool \<Rightarrow> bool \<Rightarrow> syncOperation list" where
  "run_operations_of full playsOnly =
     (let ops = filter (\<lambda>op. \<not> (full \<and> op_incremental op)) syncOperations in
      if playsOnly then filter op_incremental ops else ops)"

text \<open>The run that is resumed or started: its id, and whether it is resumed.\<close>

definition open_run :: "syncService \<Rightarrow> string \<Rightarrow> string \<Rightarrow> sync_db \<Rightarrow> (string \<times> bool \<times> sync_db) res" where
  "open_run sv runMode version db =
     (case resumableRun runMode db of
        None \<Rightarrow> and_then (startRun (sv_id sv) runMode version (sv_clock sv ''start'' [] 0) db) (\<lambda>db1. Inr (sv_id sv, False, db1))
      | Some r \<Rightarrow> and_then (resumeRun (run_id r) db) (\<lambda>db1. Inr (run_id r, True, db1)))"

definition sync :: "syncService \<Rightarrow> nat \<Rightarrow> bool \<Rightarrow> bool \<Rightarrow> sync_db \<Rightarrow> (sync_db \<times> sync_result res) option" where
  "sync sv fuel full playsOnly db =
     (if full \<and> playsOnly then Some (db, Inl (Msg ''full and plays_only are mutually exclusive''))
      else let runMode = if full then ''full'' else ''incremental''; mode = if playsOnly then ''plays'' else runMode in
      (case probeSyncCapabilities (sv_gql sv) of
         Inl e \<Rightarrow> Some (db, Inl e)
       | Inr version \<Rightarrow>
           (case open_run sv runMode version db of
              Inl e \<Rightarrow> Some (db, Inl e)
            | Inr (rid, resumed, db1) \<Rightarrow>
                (case sync_body sv fuel rid full playsOnly (run_operations_of full playsOnly) db1 of
                   None \<Rightarrow> None
                 | Some (db2, Inl (entity, e)) \<Rightarrow>
                     (case failRun rid entity (take 2000 (error_text e)) (sv_clock sv ''fail'' [] 0) db2 of
                        (db3, Inl e') \<Rightarrow> Some (db3, Inl e')
                      | (db3, Inr u) \<Rightarrow> Some (db3, Inl e))
                 | Some (db2, Inr t) \<Rightarrow> Some (db2, Inr \<lparr>res_run_id = rid, res_mode = mode, res_version = version,
                     res_resumed = resumed, res_totals = t\<lparr>tot_scenes := sort (tot_scenes t)\<rparr>\<rparr>)))))"

end
