(* ===== verification/Sync_Runs.thy ===== *)
theory Sync_Runs
  imports Sync_Service
begin

text \<open>
  What a sync run guarantees: a full run over a library that stands still leaves exactly the ids
  of Stash in the mirror, and the loops of every run end.
\<close>

section \<open>What an operation changes\<close>

text \<open>\<open>cursor_of\<close> reads the cursor of an entity type; an operation on one type keeps the others.\<close>

definition cursor_of :: "string \<Rightarrow> sync_db \<Rightarrow> sync_cursor option" where
  "cursor_of ty db = lookup_row cur_entity ty (cursors db)"

definition only_cursor :: "string \<Rightarrow> sync_db \<Rightarrow> sync_db \<Rightarrow> bool" where
  "only_cursor ty a b \<longleftrightarrow> (\<forall>u. u \<noteq> ty \<longrightarrow> cursor_of u b = cursor_of u a)"

lemma only_cursor_trans: "only_cursor ty a b \<Longrightarrow> only_cursor ty b c \<Longrightarrow> only_cursor ty a c"
  by (simp add: only_cursor_def)

lemma only_cursor_same: "cursors b = cursors a \<Longrightarrow> only_cursor ty a b"
  by (simp add: only_cursor_def cursor_of_def)

lemma update_cursor_of:
  assumes "update_cursor p f db = Inr db'" and "\<And>c. p c \<Longrightarrow> cur_entity (f c) = cur_entity c"
  shows "cursor_of u db' = map_option (\<lambda>c. if p c then f c else c) (cursor_of u db)"
  using assms by (auto simp: update_cursor_def and_then_Inr_iff update_checked_Inr cursor_of_def lookup_update_where)

lemma update_cursor_only:
  assumes "update_cursor p f db = Inr db'" and "\<And>c. p c \<Longrightarrow> cur_entity (f c) = cur_entity c"
    and "\<And>c. p c \<Longrightarrow> cur_entity c = ty"
  shows "only_cursor ty db db'"
  unfolding only_cursor_def
proof (intro allI impI)
  fix u assume "u \<noteq> ty"
  then have "map_option (\<lambda>c. if p c then f c else c) (cursor_of u db) = cursor_of u db"
    using assms(3) by (cases "cursor_of u db") (auto simp: cursor_of_def dest: lookup_row_Some)
  then show "cursor_of u db' = cursor_of u db" by (simp add: update_cursor_of [OF assms(1,2)])
qed

lemma update_cursor_rest: "update_cursor p f db = Inr db' \<Longrightarrow>
    source db' = source db \<and> seen_ids db' = seen_ids db \<and> sync_runs db' = sync_runs db \<and> changes db' = changes db"
  by (auto simp: update_cursor_def and_then_Inr_iff)

lemma take_cursor_rest: "take_cursor rid ty now db = Inr db' \<Longrightarrow>
    source db' = source db \<and> seen_ids db' = seen_ids db \<and> sync_runs db' = sync_runs db \<and> changes db' = changes db"
  by (auto simp: take_cursor_def with_refs_Inr and_then_Inr_iff)

lemma take_cursor_of:
  assumes "take_cursor rid ty now db = Inr db'"
  shows "cursor_of u db' = (if u = ty then Some (case cursor_of ty db of
      None \<Rightarrow> \<lparr>cur_entity = ty, cur_watermark = None, cur_page = Some ''1'', cur_state = ''running'',
        cur_updated_at_ms = now, cur_run = Some rid, cur_baseline = None, cur_pending = None\<rparr>
    | Some c \<Rightarrow> c\<lparr>cur_page := Some ''1'', cur_state := ''running'', cur_updated_at_ms := now,
        cur_run := Some rid, cur_baseline := cur_watermark c, cur_pending := None\<rparr>) else cursor_of u db)"
  using assms
  by (auto simp: take_cursor_def with_refs_Inr and_then_Inr_iff upsert_checked_Inr cursor_of_def lookup_upsert
      split: option.splits)

lemma begin_entity_ok:
  assumes "begin_entity rid ty now db = (db', Inr (page, active))"
  shows "page = 1 \<and> active \<and> only_cursor ty db db' \<and> source db' = source db \<and> seen_ids db' = seen_ids db \<and>
    sync_runs db' = sync_runs db \<and> changes db' = changes db \<and>
    cursor_of ty db' = Some (case cursor_of ty db of
      None \<Rightarrow> \<lparr>cur_entity = ty, cur_watermark = None, cur_page = Some ''1'', cur_state = ''running'',
        cur_updated_at_ms = now, cur_run = Some rid, cur_baseline = None, cur_pending = None\<rparr>
    | Some c \<Rightarrow> c\<lparr>cur_page := Some ''1'', cur_state := ''running'', cur_updated_at_ms := now,
        cur_run := Some rid, cur_baseline := cur_watermark c, cur_pending := None\<rparr>)"
proof -
  from assms obtain d where d: "take_cursor rid ty now db = Inr d" "set_baseline ty d = Inr db'" "page = 1" "active"
    by (auto simp: begin_entity_def split: sum.splits)
  have only: "only_cursor ty d db'"
    using d(2) unfolding set_baseline_def by (rule update_cursor_only) auto
  have "cursor_of ty db' = map_option (\<lambda>c. if cur_entity c = ty \<and> cur_baseline c = None
      then c\<lparr>cur_baseline := cur_watermark c\<rparr> else c) (cursor_of ty d)"
    using d(2) unfolding set_baseline_def by (rule update_cursor_of) auto
  then show ?thesis
    using d(3,4) only take_cursor_of [OF d(1)] take_cursor_rest [OF d(1)]
      update_cursor_rest [OF d(2) [unfolded set_baseline_def]]
    by (auto simp: only_cursor_def split: option.splits)
qed

lemma write_matches_ok:
  assumes "write_matches ep ms db = Inr db'"
  shows "\<exists>m. db' = db\<lparr>source := (source db)\<lparr>local_matches := m\<rparr>\<rparr>"
  using assms by (auto simp: write_matches_def and_then_Inr_iff)

lemma local_matches_inv [simp]:
  "source_inv (s\<lparr>local_matches := m\<rparr>) = source_inv s" "ids_of ty (s\<lparr>local_matches := m\<rparr>) = ids_of ty s"
  "entities_grow t (s\<lparr>local_matches := m\<rparr>) = entities_grow t s"
  by (simp_all add: source_inv_def keys_ok_def refs_ok_def id_sets ids_of_def entities_grow_def)

lemma entities_grow_ids: "entities_grow a b \<Longrightarrow> ids_of ty a \<subseteq> ids_of ty b"
  by (auto simp: entities_grow_def ids_of_def)

text \<open>The state after some items of a page were saved.\<close>

definition items_saved :: "string \<Rightarrow> string \<Rightarrow> bool \<Rightarrow> syncSourceEntity list \<Rightarrow> sync_db \<Rightarrow> sync_db \<Rightarrow> bool" where
  "items_saved rid ty recordSeen es a b \<longleftrightarrow> source_inv (source b) \<and> entities_grow (source a) (source b) \<and>
     (\<forall>e \<in> set es. entityID e \<in> ids_of (entityType e) (source b)) \<and>
     set (seen_ids b) = set (seen_ids a) \<union> (if recordSeen then {(rid, ty, entityID e) |e. e \<in> set es} else {}) \<and>
     sync_runs b = sync_runs a \<and> changes b = changes a"

lemma save_item_ok:
  assumes "save_item sha rid ty recordSeen e (ch, a) = Inr (ch', b)" and "source_inv (source a)"
  shows "items_saved rid ty recordSeen [e] a b \<and> cursors b = cursors a"
proof -
  obtain flag t where up: "syncUpsert sha e (source a) = Inr (flag, t)"
    using assms(1) by (auto simp: save_item_def and_then_Inr_iff)
  note one = syncUpsert_safe [OF assms(2), where sha = sha and e = e]
  show ?thesis
  proof (cases recordSeen)
    case True
    then have "see_id rid ty (entityID e) (a\<lparr>source := t\<rparr>) = Inr b"
      using assms(1) up by (auto simp: save_item_def and_then_Inr_iff Let_def)
    then have "b = a\<lparr>source := t, seen_ids := insert_or_ignore id (\<lambda>_. True) (rid, ty, entityID e) (seen_ids a)\<rparr>"
      by (auto simp: see_id_def with_refs_Inr)
    with True one show ?thesis by (auto simp: up items_saved_def insert_or_ignore_def)
  next
    case False
    then have "b = a\<lparr>source := t\<rparr>" using assms(1) up by (auto simp: save_item_def Let_def)
    with False one show ?thesis by (simp add: up items_saved_def)
  qed
qed

lemma items_saved_trans:
  assumes "items_saved rid ty r es a b" and "items_saved rid ty r fs b c"
  shows "items_saved rid ty r (es @ fs) a c"
proof -
  have "ids_of t (source b) \<subseteq> ids_of t (source c)" for t
    using assms(2) by (intro entities_grow_ids) (simp add: items_saved_def)
  then show ?thesis
    using assms unfolding items_saved_def by (auto intro: entities_grow_trans)
qed

lemma save_items_ok:
  "fold_res (save_item sha rid ty r) es (ch, a) = Inr (ch', b) \<Longrightarrow> source_inv (source a) \<Longrightarrow>
   items_saved rid ty r es a b \<and> cursors b = cursors a"
proof (induction es arbitrary: ch a)
  case Nil
  then show ?case by (simp add: items_saved_def entities_grow_refl)
next
  case (Cons e es)
  then obtain ch1 a1 where a1: "save_item sha rid ty r e (ch, a) = Inr (ch1, a1)"
      "fold_res (save_item sha rid ty r) es (ch1, a1) = Inr (ch', b)"
    by (auto simp: and_then_Inr_iff)
  note one = save_item_ok [OF a1(1) Cons.prems(2)]
  then have "source_inv (source a1)" by (simp add: items_saved_def)
  from Cons.IH [OF a1(2) this] one show ?case
    using items_saved_trans [of rid ty r "[e]" a a1 es b] by simp
qed

lemma savePage_parts:
  assumes "savePage sha ep rid ty es ms nextPage high now r a = Inr (ch, b)"
  obtains a1 a2 c where "write_matches ep ms a = Inr a1" and "fold_res (save_item sha rid ty r) es ([], a1) = Inr (ch, a2)"
    and "cursor_of ty a2 = Some c"
    and "update_cursor (\<lambda>c. cur_entity c = ty \<and> cur_run c = Some rid)
      (\<lambda>c'. c'\<lparr>cur_page := Some (itoa nextPage),
        cur_pending := Some (higher_watermark high (text_or_empty (cur_pending c))), cur_updated_at_ms := now\<rparr>) a2 = Inr b"
  using assms by (auto simp: savePage_def and_then_Inr_iff cursor_of_def split: option.splits)

lemma savePage_ok:
  assumes "savePage sha ep rid ty es ms nextPage high now r a = Inr (ch, b)" and "source_inv (source a)"
  shows "items_saved rid ty r es a b \<and> only_cursor ty a b \<and> (\<exists>c. cursor_of ty a = Some c \<and>
    cursor_of ty b = Some (if cur_run c = Some rid then c\<lparr>cur_page := Some (itoa nextPage),
      cur_pending := Some (higher_watermark high (text_or_empty (cur_pending c))), cur_updated_at_ms := now\<rparr> else c))"
proof -
  obtain a1 a2 c where a1: "write_matches ep ms a = Inr a1"
    and a2: "fold_res (save_item sha rid ty r) es ([], a1) = Inr (ch, a2)"
    and c: "cursor_of ty a2 = Some c"
    and b: "update_cursor (\<lambda>c. cur_entity c = ty \<and> cur_run c = Some rid)
      (\<lambda>c'. c'\<lparr>cur_page := Some (itoa nextPage),
        cur_pending := Some (higher_watermark high (text_or_empty (cur_pending c))), cur_updated_at_ms := now\<rparr>) a2 = Inr b"
    by (rule savePage_parts [OF assms(1)])
  from write_matches_ok [OF a1] obtain m where m: "a1 = a\<lparr>source := (source a)\<lparr>local_matches := m\<rparr>\<rparr>" ..
  have saved: "items_saved rid ty r es a1 a2 \<and> cursors a2 = cursors a1"
    by (rule save_items_ok [OF a2]) (simp add: m assms(2))
  have "entities_grow (source a) x \<longleftrightarrow> entities_grow (source a1) x" for x
    by (simp add: m entities_grow_def id_sets)
  then have "items_saved rid ty r es a b"
    using saved update_cursor_rest [OF b] by (simp add: items_saved_def m)
  moreover have "only_cursor ty a b"
  proof (rule only_cursor_trans)
    show "only_cursor ty a a2" using saved by (intro only_cursor_same) (simp add: m)
    show "only_cursor ty a2 b" using b by (rule update_cursor_only) auto
  qed
  moreover have "cursor_of ty a = cursor_of ty a2" using saved by (simp add: cursor_of_def m)
  moreover have "cur_entity c = ty" using c by (auto simp: cursor_of_def dest: lookup_row_Some)
  moreover note update_cursor_of [OF b, of ty]
  ultimately show ?thesis using c by simp
qed

section \<open>A full run\<close>

text \<open>The id that Stash gives an item.\<close>

definition item_id :: "jVal \<Rightarrow> string" where
  "item_id i = asString (jget i ''id'')"

text \<open>Stash serves \<open>items\<close> to the paginated query of an operation while the run reads them.\<close>

definition serves :: "syncService \<Rightarrow> syncOperation \<Rightarrow> jVal list \<Rightarrow> bool" where
  "serves sv op items \<longleftrightarrow> (let n = nat (sv_page_size sv) in 0 < n \<and> length items + n < 2 ^ 63 \<and>
     (\<forall>k. fetch_page sv op True [] (int k + 1) = Inr (take n (drop (k * n) items), int (length items))))"

definition full_operations :: "syncOperation list" where
  "full_operations = [syncTagOperation, syncStudioOperation, syncPerformerOperation, syncSceneOperation]"

lemma run_operations_full: "run_operations_of True False = full_operations"
  by (simp add: run_operations_of_def syncOperations_def operation_defs full_operations_def)

lemma full_operation_adapts:
  assumes "op \<in> set full_operations"
  shows "\<exists>e. adaptSyncEntity (op_items op) i = Some e \<and> entityType e = op_entity op \<and> entityID e = item_id i"
    and "\<not> op_incremental op" and "op_entity op \<in> set entity_types"
  using assms by (auto simp: full_operations_def operation_defs adaptSyncEntity_def item_id_def adaptSyncTag_def
      adapt_tag_def adaptSyncStudio_def adapt_studio_def adaptSyncPerformer_def adaptSyncScene_def Let_def entity_types_def)

lemma adapt_items_full:
  assumes "op \<in> set full_operations"
  shows "map entityID (adapt_items op items) = map item_id items" and "\<forall>e \<in> set (adapt_items op items). entityType e = op_entity op"
proof (induction items)
  case (Cons i items)
  obtain e where "adaptSyncEntity (op_items op) i = Some e" "entityType e = op_entity op" "entityID e = item_id i"
    using full_operation_adapts(1) [OF assms] by blast
  then show "map entityID (adapt_items op (i # items)) = map item_id (i # items)"
    and "\<forall>e \<in> set (adapt_items op (i # items)). entityType e = op_entity op"
    using Cons.IH by (auto simp: adapt_items_def map_filter_simps)
qed (simp_all add: adapt_items_def map_filter_simps)

text \<open>The effect of a full run on one entity type, whose items have the ids \<open>ids\<close>.\<close>

definition type_synced :: "string \<Rightarrow> string \<Rightarrow> string set \<Rightarrow> sync_db \<Rightarrow> sync_db \<Rightarrow> bool" where
  "type_synced rid ty ids a b \<longleftrightarrow> source_inv (source b) \<and> entities_grow (source a) (source b) \<and> ids \<subseteq> ids_of ty (source b) \<and>
     set (seen_ids b) = set (seen_ids a) \<union> {(rid, ty, i) |i. i \<in> ids} \<and> only_cursor ty a b \<and> sync_runs b = sync_runs a"

lemma type_synced_trans:
  assumes "type_synced rid ty ids a b" and "type_synced rid ty ids' b c"
  shows "type_synced rid ty (ids \<union> ids') a c"
proof -
  have "ids_of ty (source b) \<subseteq> ids_of ty (source c)"
    using assms(2) by (intro entities_grow_ids) (simp add: type_synced_def)
  then show ?thesis
    using assms unfolding type_synced_def by (auto intro: entities_grow_trans only_cursor_trans)
qed

lemma store_page_full:
  assumes "store_page sv rid op True page items a = Inr (ch, b)" and "source_inv (source a)" and "op \<in> set full_operations"
  shows "type_synced rid (op_entity op) (item_id ` set items) a b"
proof -
  let ?es = "adapt_items op items"
  note saved = savePage_ok [OF assms(1) [unfolded store_page_def Let_def] assms(2)]
  have ids: "item_id ` set items = entityID ` set ?es" 
    using adapt_items_full(1) [OF assms(3), of items] by (metis list.set_map)
  show ?thesis
    using saved adapt_items_full(2) [OF assms(3), of items] unfolding ids items_saved_def type_synced_def by auto
qed

lemma finish_entity_ok:
  assumes "finish_entity sv rid op full baseline a = (b, Inr u)"
  shows "only_cursor (op_entity op) a b \<and> source b = source a \<and> seen_ids b = seen_ids a \<and> sync_runs b = sync_runs a"
proof -
  define d where "d = mark_index op full baseline a"
  have d: "cursors d = cursors a" "source d = source a" "seen_ids d = seen_ids a" "sync_runs d = sync_runs a"
    by (simp_all add: d_def mark_index_def)
  have b: "completeEntity rid (op_entity op) (sv_clock sv ''complete'' (op_entity op) 0) d = Inr b"
    using assms unfolding finish_entity_def Let_def d_def [symmetric] by (simp split: sum.splits)
  have "only_cursor (op_entity op) d b"
    using b unfolding completeEntity_def by (rule update_cursor_only) auto
  with d update_cursor_rest [OF b [unfolded completeEntity_def]] show ?thesis
    by (simp add: only_cursor_def cursor_of_def)
qed

lemma wrap64_nat: "m < 2 ^ 63 \<Longrightarrow> wrap64 (int m) = int m"
proof -
  assume "m < 2 ^ 63"
  then have "int m < int (2 ^ 63)" by (simp only: of_nat_less_iff)
  then show ?thesis by (intro wrap64_small) simp_all
qed

lemma fetch_page_full:
  assumes "serves sv op items" and "\<not> op_incremental op"
  shows "fetch_page sv op True baseline (int k + 1) =
    Inr (take (nat (sv_page_size sv)) (drop (k * nat (sv_page_size sv)) items), int (length items))"
  using assms by (simp add: serves_def Let_def fetch_page_def page_variables_def)

lemma sync_pages_step:
  assumes "fetch_page sv op full baseline page = Inr (items, tot)" and "store_page sv rid op full page items a = Inr (ch, d)"
  shows "sync_pages sv rid op full baseline (Suc fuel) page processed ids a =
    (if reached_watermark full baseline (page_timestamps op (adapt_items op items)) \<or>
        page_exhausted sv (adapt_items op items) page tot
     then (case finish_entity sv rid op full baseline d of
         (b, Inl e) \<Rightarrow> Some (b, Inl e)
       | (b, Inr u) \<Rightarrow> Some (b, Inr (processed + int (length (adapt_items op items)), ids @ ch)))
     else sync_pages sv rid op full baseline fuel (wrap64 (page + 1)) (processed + int (length (adapt_items op items))) (ids @ ch) d)"
  using assms by (simp add: Let_def)

lemma full_pages:
  assumes "serves sv op items" and "op \<in> set full_operations"
  shows "sync_pages sv rid op True baseline fuel (int k + 1) processed ids a = Some (b, Inr r) \<Longrightarrow>
    source_inv (source a) \<Longrightarrow> k * nat (sv_page_size sv) \<le> length items \<Longrightarrow>
    type_synced rid (op_entity op) (item_id ` set (drop (k * nat (sv_page_size sv)) items)) a b"
proof (induction fuel arbitrary: k processed ids a)
  case 0
  then show ?case by simp
next
  case (Suc fuel)
  define n where "n = nat (sv_page_size sv)"
  have n: "0 < n" "sv_page_size sv = int n" "length items + n < 2 ^ 63"
    using assms(1) by (auto simp: serves_def Let_def n_def)
  let ?page = "take n (drop (k * n) items)"
  note fetch = fetch_page_full [OF assms(1) full_operation_adapts(2) [OF assms(2)], of baseline k, folded n_def]
  from Suc.prems(1) obtain ch d where d: "store_page sv rid op True (int k + 1) ?page a = Inr (ch, d)"
    by (auto simp: fetch split: sum.splits)
  note stored = store_page_full [OF d Suc.prems(2) assms(2)]
  have split: "drop (k * n) items = ?page @ drop (Suc k * n) items"
    by (metis add.commute append_take_drop_id drop_drop mult_Suc)
  show ?case
  proof (cases "page_exhausted sv (adapt_items op ?page) (int k + 1) (int (length items))")
    case True
    then obtain u where fin: "finish_entity sv rid op True baseline d = (b, Inr u)"
      using Suc.prems(1) by (auto simp: fetch d Let_def split: prod.splits sum.splits)
    have "drop (Suc k * n) items = []"
    proof (cases "?page = []")
      case True
      then show ?thesis using n(1) by simp
    next
      case False
      then have "adapt_items op ?page \<noteq> []" using adapt_items_full(1) [OF assms(2), of ?page] by force
      with True have "int (length items) \<le> wrap64 (int (Suc k * n))"
        by (simp add: page_exhausted_def n(2) algebra_simps)
      moreover have "Suc k * n < 2 ^ 63" using Suc.prems(3) n(3) by (simp add: n_def [symmetric])
      then have "wrap64 (int (Suc k * n)) = int (Suc k * n)" by (rule wrap64_nat)
      ultimately have "int (length items) \<le> int (Suc k * n)" by (simp only:)
      then show ?thesis by (simp only: of_nat_le_iff drop_all)
    qed
    then have "type_synced rid (op_entity op) (item_id ` set (drop (k * n) items)) a d"
      using stored split by simp
    then show ?thesis
      using finish_entity_ok [OF fin] only_cursor_trans unfolding type_synced_def n_def [symmetric] by auto
  next
    case False
    have less: "Suc k * n < length items"
    proof -
      have "Suc k * n < 2 ^ 63" using Suc.prems(3) n(3) by (simp add: n_def [symmetric])
      then have "wrap64 (int (Suc k * n)) = int (Suc k * n)" by (rule wrap64_nat)
      moreover have "(int k + 1) * sv_page_size sv = int (Suc k * n)" by (simp add: n(2) algebra_simps)
      ultimately have "int (Suc k * n) < int (length items)"
        using False unfolding page_exhausted_def by (simp only: not_le simp_thms de_Morgan_disj)
      then show ?thesis by (simp only: of_nat_less_iff)
    qed
    moreover have "Suc k \<le> Suc k * n" using n(1) by (cases n) simp_all
    ultimately have "Suc (Suc k) < 2 ^ 63" using n(1,3) by linarith
    from wrap64_nat [OF this] have next_page: "wrap64 (int k + 1 + 1) = int (Suc k) + 1" by (simp add: algebra_simps)
    have "\<not> (reached_watermark True baseline (page_timestamps op (adapt_items op ?page)) \<or>
        page_exhausted sv (adapt_items op ?page) (int k + 1) (int (length items)))"
      using False by (simp add: reached_watermark_def)
    note step = sync_pages_step [OF fetch d, of fuel processed ids, unfolded if_not_P [OF this] next_page]
    have "sync_pages sv rid op True baseline fuel (int (Suc k) + 1)
        (processed + int (length (adapt_items op ?page))) (ids @ ch) d = Some (b, Inr r)"
      using Suc.prems(1) unfolding step .
    from Suc.IH [OF this] have "type_synced rid (op_entity op) (item_id ` set (drop (Suc k * n) items)) d b"
      using stored less by (simp add: type_synced_def n_def)
    moreover have "item_id ` set (drop (k * n) items) = item_id ` set ?page \<union> item_id ` set (drop (Suc k * n) items)"
      by (subst split) (simp add: image_Un)
    ultimately show ?thesis using type_synced_trans [OF stored] by (simp only: n_def)
  qed
qed

definition fresh_cursor :: "string \<Rightarrow> string \<Rightarrow> sync_db \<Rightarrow> bool" where
  "fresh_cursor rid ty db \<longleftrightarrow> (\<forall>c. cursor_of ty db = Some c \<longrightarrow> cur_run c \<noteq> Some rid)"

lemma prepareEntity_fresh:
  assumes "prepareEntity rid ty now a = (b, Inr (page, active))" and "fresh_cursor rid ty a"
  shows "begin_entity rid ty now a = (b, Inr (page, active))"
  using assms by (auto simp: prepareEntity_def fresh_cursor_def cursor_of_def split: option.splits if_splits)

lemma syncEntity_full:
  assumes "syncEntity sv fuel rid op True a = Some (b, Inr r)" and "fresh_cursor rid (op_entity op) a"
    and "serves sv op items" and "op \<in> set full_operations" and "source_inv (source a)"
  shows "type_synced rid (op_entity op) (item_id ` set items) a b"
proof -
  obtain d page active where d: "prepareEntity rid (op_entity op) (sv_clock sv ''prepare'' (op_entity op) 0) a = (d, Inr (page, active))"
    using assms(1) by (auto simp: syncEntity_def split: prod.splits sum.splits)
  note begun = begin_entity_ok [OF prepareEntity_fresh [OF d assms(2)]]
  then have run: "sync_pages sv rid op True (fst (cursorWatermarks (op_entity op) d)) fuel (int 0 + 1) 0 [] d = Some (b, Inr r)"
    using assms(1) by (simp add: syncEntity_def d)
  have "type_synced rid (op_entity op) (item_id ` set (drop (0 * nat (sv_page_size sv)) items)) d b"
    using begun assms(5) by (intro full_pages [OF assms(3,4) run]) simp_all
  then show ?thesis using begun only_cursor_trans unfolding type_synced_def by auto
qed

lemma run_operations_synced:
  "run_operations sv fuel rid True ops t a = Some (b, Inr t') \<Longrightarrow> source_inv (source a) \<Longrightarrow>
   set ops \<subseteq> set full_operations \<Longrightarrow> distinct (map op_entity ops) \<Longrightarrow>
   \<forall>op \<in> set ops. fresh_cursor rid (op_entity op) a \<and> serves sv op (remote (op_entity op)) \<Longrightarrow>
   source_inv (source b) \<and> entities_grow (source a) (source b) \<and>
   set (seen_ids b) = set (seen_ids a) \<union> {(rid, ty, i) |ty i. ty \<in> op_entity ` set ops \<and> i \<in> item_id ` set (remote ty)} \<and>
   (\<forall>ty \<in> op_entity ` set ops. item_id ` set (remote ty) \<subseteq> ids_of ty (source b))"
proof (induction ops arbitrary: t a)
  case Nil
  then show ?case by (simp add: entities_grow_refl)
next
  case (Cons op ops)
  from Cons.prems(1) obtain d n ids where d: "syncEntity sv fuel rid op True a = Some (d, Inr (n, ids))"
    and rest: "run_operations sv fuel rid True ops (add_totals op n ids t) d = Some (b, Inr t')"
    by (auto split: option.splits sum.splits)
  have one: "type_synced rid (op_entity op) (item_id ` set (remote (op_entity op))) a d"
    using Cons.prems by (intro syncEntity_full [OF d]) auto
  have "fresh_cursor rid (op_entity x) d" if "x \<in> set ops" for x
  proof -
    have "op_entity op \<notin> op_entity ` set ops" using Cons.prems(4) by simp
    with that have "op_entity x \<noteq> op_entity op" by (metis image_eqI)
    then have "cursor_of (op_entity x) d = cursor_of (op_entity x) a"
      using one by (simp add: type_synced_def only_cursor_def)
    then show ?thesis using Cons.prems(5) that by (simp add: fresh_cursor_def)
  qed
  then have rest': "source_inv (source b) \<and> entities_grow (source d) (source b) \<and>
     set (seen_ids b) = set (seen_ids d) \<union> {(rid, ty, i) |ty i. ty \<in> op_entity ` set ops \<and> i \<in> item_id ` set (remote ty)} \<and>
     (\<forall>ty \<in> op_entity ` set ops. item_id ` set (remote ty) \<subseteq> ids_of ty (source b))"
    using one Cons.prems by (intro Cons.IH [OF rest]) (auto simp: type_synced_def)
  moreover have "ids_of (op_entity op) (source d) \<subseteq> ids_of (op_entity op) (source b)"
    using rest' by (intro entities_grow_ids) simp
  ultimately show ?case
    using one entities_grow_trans [of "source a" "source d" "source b"] unfolding type_synced_def by auto
qed

lemma set_all_ids: "set (all_ids ty s) = ids_of ty s"
  by (simp add: all_ids_def ids_of_def id_sets)

lemma reconcile_type_ok:
  assumes "source_inv (source a)" and "ty \<in> set entity_types"
  shows "\<exists>b. reconcile_type rid ty a = Inr b \<and> source_inv (source b) \<and> seen_ids b = seen_ids a \<and>
    (\<forall>u. ids_of u (source b) = (if u = ty then {i \<in> ids_of ty (source a). (rid, ty, i) \<in> set (seen_ids a)} else ids_of u (source a)))"
proof -
  obtain s where s: "syncDeleteEntitiesConn ty (filter (\<lambda>i. (rid, ty, i) \<notin> set (seen_ids a)) (all_ids ty (source a))) (source a) = Inr s"
    "source_inv s" "ids_of ty s = ids_of ty (source a) - {i \<in> ids_of ty (source a). (rid, ty, i) \<notin> set (seen_ids a)}"
    "\<forall>u. u \<noteq> ty \<longrightarrow> ids_of u s = ids_of u (source a)"
    using delete_entities [OF assms, of "filter (\<lambda>i. (rid, ty, i) \<notin> set (seen_ids a)) (all_ids ty (source a))"]
    by (auto simp: set_all_ids)
  then have "reconcile_type rid ty a = Inr (a\<lparr>source := s\<rparr>)"
    by (simp add: reconcile_type_def on_source_def)
  with s show ?thesis by auto
qed

lemma reconcile_ok:
  "source_inv (source a) \<Longrightarrow> set tys \<subseteq> set entity_types \<Longrightarrow> distinct tys \<Longrightarrow>
   \<exists>b. fold_res (reconcile_type rid) tys a = Inr b \<and> source_inv (source b) \<and> seen_ids b = seen_ids a \<and>
    (\<forall>u. ids_of u (source b) = (if u \<in> set tys then {i \<in> ids_of u (source a). (rid, u, i) \<in> set (seen_ids a)} else ids_of u (source a)))"
proof (induction tys arbitrary: a)
  case (Cons ty tys)
  obtain d where d: "reconcile_type rid ty a = Inr d" "source_inv (source d)" "seen_ids d = seen_ids a"
    "\<forall>u. ids_of u (source d) = (if u = ty then {i \<in> ids_of ty (source a). (rid, ty, i) \<in> set (seen_ids a)} else ids_of u (source a))"
    using reconcile_type_ok [of a ty rid] Cons.prems by auto
  from Cons.IH [OF d(2)] Cons.prems obtain b where "fold_res (reconcile_type rid) tys d = Inr b" "source_inv (source b)"
    "seen_ids b = seen_ids d"
    "\<forall>u. ids_of u (source b) = (if u \<in> set tys then {i \<in> ids_of u (source d). (rid, u, i) \<in> set (seen_ids d)} else ids_of u (source d))"
    by auto
  with d Cons.prems(3) show ?case by auto
qed simp

text \<open>
  C31. A full run over a library that stands still leaves the mirror with exactly the
  tags, studios, performers and scenes that Stash has, and with all references resolved: what pages
  and stubs brought in is kept if Stash lists it, and everything else is gone.
\<close>

theorem full_sync_mirrors_remote:
  assumes "sync sv fuel True False a = Some (b, Inr res)"
    and "resumableRun ''full'' a = None" and "\<forall>ty. fresh_cursor (sv_id sv) ty a"
    and "\<forall>ty i. (sv_id sv, ty, i) \<notin> set (seen_ids a)" and "source_inv (source a)"
    and "\<forall>op \<in> set (run_operations_of True False). serves sv op (remote (op_entity op))"
  shows "source_inv (source b) \<and> (\<forall>ty \<in> set entity_types. ids_of ty (source b) = item_id ` set (remote ty))"
proof -
  let ?rid = "sv_id sv"
  obtain version a1 where probe: "probeSyncCapabilities (sv_gql sv) = Inr version"
    and start: "startRun ?rid ''full'' version (sv_clock sv ''start'' [] 0) a = Inr a1"
    using assms(1,2) by (auto simp: sync_def open_run_def Let_def and_then_Inr_iff split: sum.splits option.splits prod.splits)
  have a1: "source a1 = source a" "seen_ids a1 = seen_ids a" "cursors a1 = cursors a"
    using start by (auto simp: startRun_def and_then_Inr_iff)
  obtain t where body: "sync_body sv fuel ?rid True False full_operations a1 = Some (b, Inr t)"
    using assms(1,2) by (auto simp: sync_def open_run_def Let_def probe start run_operations_full split: sum.splits option.splits prod.splits)
  then obtain c t1 d t2 where ops: "run_operations sv fuel ?rid True full_operations
      \<lparr>tot_counts = [], tot_changed = [], tot_scenes = [], tot_deleted = []\<rparr> a1 = Some (c, Inr t1)"
    and rec: "after_operations sv fuel ?rid True False full_operations t1 c = Some (d, Inr t2)"
    and fin: "finishRun ?rid (sv_clock sv ''finish'' [] 0) d = Inr b"
    by (auto simp: sync_body_def split: option.splits sum.splits prod.splits)
  have ents: "op_entity ` set full_operations = set entity_types"
    by (auto simp: full_operations_def operation_defs entity_types_def)
  have synced: "source_inv (source c) \<and> entities_grow (source a1) (source c) \<and>
      set (seen_ids c) = set (seen_ids a1) \<union> {(?rid, ty, i) |ty i. ty \<in> op_entity ` set full_operations \<and> i \<in> item_id ` set (remote ty)} \<and>
      (\<forall>ty \<in> op_entity ` set full_operations. item_id ` set (remote ty) \<subseteq> ids_of ty (source c))"
    using assms(3,5,6) a1 by (intro run_operations_synced [OF ops])
      (auto simp: run_operations_full fresh_cursor_def cursor_of_def full_operations_def operation_defs)
  obtain e where e: "reconcile ?rid c = Inr e" "d = drop_orphan_matches e"
    using rec by (auto simp: after_operations_def split: sum.splits)
  have "source_inv (source e) \<and> (\<forall>u \<in> set entity_types. ids_of u (source e) = {i \<in> ids_of u (source c). (?rid, u, i) \<in> set (seen_ids c)})"
    using reconcile_ok [of c "[''scene'', ''performer'', ''tag'', ''studio'']" ?rid] synced e(1)
    by (auto simp: reconcile_def entity_types_def)
  moreover have "source b = source d" using fin by (auto simp: finishRun_def update_run_def and_then_Inr_iff)
  moreover have "{i \<in> ids_of u (source c). (?rid, u, i) \<in> set (seen_ids c)} = item_id ` set (remote u)" if u: "u \<in> set entity_types" for u
  proof -
    have "item_id ` set (remote u) \<subseteq> ids_of u (source c)" using synced u unfolding ents by blast
    moreover have "(?rid, u, i) \<in> set (seen_ids c) \<longleftrightarrow> i \<in> item_id ` set (remote u)" for i
      using synced u assms(4) unfolding ents a1 by simp
    ultimately show ?thesis by auto
  qed
  ultimately show ?thesis unfolding e(2) by (simp add: drop_orphan_matches_def Let_def)
qed

section \<open>The loops end\<close>

lemma save_items_cursors:
  "fold_res (save_item sha rid ty r) es (ch, a) = Inr (ch', b) \<Longrightarrow> cursors b = cursors a"
proof (induction es arbitrary: ch a)
  case (Cons e es)
  then obtain ch1 a1 where a1: "save_item sha rid ty r e (ch, a) = Inr (ch1, a1)"
      "fold_res (save_item sha rid ty r) es (ch1, a1) = Inr (ch', b)"
    by (auto simp: and_then_Inr_iff)
  have "cursors a1 = cursors a"
    using a1(1) by (auto simp: save_item_def see_id_def and_then_Inr_iff with_refs_Inr Let_def split: if_splits)
  with Cons.IH [OF a1(2)] show ?case by simp
qed simp

lemma savePage_only:
  assumes "savePage sha ep rid ty es ms nextPage high now r a = Inr (ch, b)"
  shows "only_cursor ty a b"
proof -
  obtain a1 a2 c where a1: "write_matches ep ms a = Inr a1"
    and a2: "fold_res (save_item sha rid ty r) es ([], a1) = Inr (ch, a2)"
    and "cursor_of ty a2 = Some c"
    and b: "update_cursor (\<lambda>c. cur_entity c = ty \<and> cur_run c = Some rid)
      (\<lambda>c'. c'\<lparr>cur_page := Some (itoa nextPage),
        cur_pending := Some (higher_watermark high (text_or_empty (cur_pending c))), cur_updated_at_ms := now\<rparr>) a2 = Inr b"
    by (rule savePage_parts [OF assms])
  have "only_cursor ty a a2"
    using write_matches_ok [OF a1] save_items_cursors [OF a2] by (intro only_cursor_same) auto
  moreover have "only_cursor ty a2 b" using b by (rule update_cursor_only) auto
  ultimately show ?thesis by (rule only_cursor_trans)
qed

lemma sync_pages_only:
  "sync_pages sv rid op full baseline fuel page processed ids a = Some (b, Inr r) \<Longrightarrow> only_cursor (op_entity op) a b"
proof (induction fuel arbitrary: page processed ids a)
  case (Suc fuel)
  from Suc.prems obtain items tot ch d where fetch: "fetch_page sv op full baseline page = Inr (items, tot)"
    and d: "store_page sv rid op full page items a = Inr (ch, d)"
    by (auto split: sum.splits)
  have one: "only_cursor (op_entity op) a d"
    using d unfolding store_page_def Let_def by (rule savePage_only)
  show ?case
  proof (cases "reached_watermark full baseline (page_timestamps op (adapt_items op items)) \<or> page_exhausted sv (adapt_items op items) page tot")
    case True
    with Suc.prems obtain u where "finish_entity sv rid op full baseline d = (b, Inr u)"
      unfolding sync_pages_step [OF fetch d] by (auto split: prod.splits sum.splits)
    from finish_entity_ok [OF this] one show ?thesis using only_cursor_trans by blast
  next
    case False
    with Suc.prems have "sync_pages sv rid op full baseline fuel (wrap64 (page + 1)) (processed + int (length (adapt_items op items)))
        (ids @ ch) d = Some (b, Inr r)"
      unfolding sync_pages_step [OF fetch d] by simp
    from Suc.IH [OF this] one show ?thesis using only_cursor_trans by blast
  qed
qed simp

lemma prepareEntity_only:
  assumes "prepareEntity rid ty now a = (b, Inr (page, active))"
  shows "only_cursor ty a b \<and> (active \<longrightarrow> page = 1 \<or>
    (\<exists>c p. cursor_of ty a = Some c \<and> cur_page c = Some p \<and> parseInt64 p = Some page))"
proof (cases "begin_entity rid ty now a = (b, Inr (page, active))")
  case True
  from begin_entity_ok [OF this] show ?thesis by simp
next
  case False
  with assms obtain c where c: "cursor_of ty a = Some c" "cur_run c = Some rid"
    by (auto simp: prepareEntity_def cursor_of_def split: option.splits if_splits)
  show ?thesis
  proof (cases "cur_state c = ''complete''")
    case True
    with assms c show ?thesis by (auto simp: prepareEntity_def cursor_of_def only_cursor_def)
  next
    case False
    with assms c have up: "update_cursor (\<lambda>c. cur_entity c = ty) (\<lambda>c. c\<lparr>cur_state := ''running'', cur_updated_at_ms := now\<rparr>) a = Inr b"
      and page: "page = (case cur_page c of None \<Rightarrow> 1 | Some p \<Rightarrow> (case parseInt64 p of None \<Rightarrow> 1 | Some n \<Rightarrow> n))"
      by (auto simp: prepareEntity_def cursor_of_def split: sum.splits)
    have "only_cursor ty a b" using up by (rule update_cursor_only) auto
    with c(1) page show ?thesis by (auto split: option.splits)
  qed
qed

lemma syncEntity_only:
  assumes "syncEntity sv fuel rid op full a = Some (b, Inr r)"
  shows "only_cursor (op_entity op) a b"
proof -
  obtain d page active where d: "prepareEntity rid (op_entity op) (sv_clock sv ''prepare'' (op_entity op) 0) a = (d, Inr (page, active))"
    using assms by (auto simp: syncEntity_def split: prod.splits sum.splits)
  note one = prepareEntity_only [OF d]
  show ?thesis
  proof (cases active)
    case True
    with assms d have "sync_pages sv rid op full (fst (cursorWatermarks (op_entity op) d)) fuel page 0 [] d = Some (b, Inr r)"
      by (simp add: syncEntity_def)
    from sync_pages_only [OF this] one show ?thesis using only_cursor_trans by blast
  next
    case False
    with assms d have "b = d" by (simp add: syncEntity_def)
    with one show ?thesis by simp
  qed
qed

text \<open>From page \<open>m + 1\<close> on Stash has no items for an operation, whatever the run asks for.\<close>

definition pages_end :: "syncService \<Rightarrow> nat \<Rightarrow> syncOperation \<Rightarrow> bool" where
  "pages_end sv m op \<longleftrightarrow>
     (\<forall>full baseline page items tot. int m < page \<longrightarrow> fetch_page sv op full baseline page = Inr (items, tot) \<longrightarrow> items = []) \<and>
     (\<forall>name page data. op_ids op = Some name \<longrightarrow> int m < page \<longrightarrow> ids_query sv name page sweep_page_size = Inr data \<longrightarrow>
        arr_of (jget (jget data (op_root op)) (op_items op)) = [])"

lemma sync_pages_returns:
  assumes "pages_end sv m op" and "m < 2 ^ 62"
  shows "0 < page \<Longrightarrow> int m < page + int fuel \<Longrightarrow> \<exists>r. sync_pages sv rid op full baseline (Suc fuel) page processed ids a = Some r"
proof (induction fuel arbitrary: page processed ids a)
  case 0
  then have "items = []" if "fetch_page sv op full baseline page = Inr (items, tot)" for items tot
    using assms(1) that unfolding pages_end_def by (metis add.right_neutral of_nat_0)
  then show ?case
    by (fastforce simp: adapt_items_def map_filter_simps page_exhausted_def Let_def split: sum.splits prod.splits)
next
  case (Suc fuel)
  show ?case
  proof (cases "int m < page")
    case True
    then have "items = []" if "fetch_page sv op full baseline page = Inr (items, tot)" for items tot
      using assms(1) that unfolding pages_end_def by metis
    then show ?thesis
      by (subst sync_pages.simps) (fastforce simp: adapt_items_def map_filter_simps page_exhausted_def Let_def simp del: sync_pages.simps split: sum.splits prod.splits)
  next
    case False
    have "int m < int (2 ^ 62)" using assms(2) by (simp only: of_nat_less_iff)
    then have "wrap64 (page + 1) = page + 1" using False Suc.prems(1) by (intro wrap64_small) simp_all
    moreover have "\<exists>r. sync_pages sv rid op full baseline (Suc fuel) (page + 1) processed' ids' d = Some r" for processed' ids' d
      using Suc.prems by (intro Suc.IH) simp_all
    ultimately show ?thesis
      by (subst sync_pages.simps) (simp add: Let_def del: sync_pages.simps split: sum.splits prod.splits)
  qed
qed

definition start_page_ok :: "sync_db \<Rightarrow> string \<Rightarrow> bool" where
  "start_page_ok db ty \<longleftrightarrow> (\<forall>c p n. cursor_of ty db = Some c \<longrightarrow> cur_page c = Some p \<longrightarrow> parseInt64 p = Some n \<longrightarrow> 0 < n)"

lemma syncEntity_returns:
  assumes "pages_end sv m op" and "m < 2 ^ 62" and "start_page_ok a (op_entity op)"
  shows "\<exists>r. syncEntity sv (Suc m) rid op full a = Some r"
proof -
  obtain d r where d: "prepareEntity rid (op_entity op) (sv_clock sv ''prepare'' (op_entity op) 0) a = (d, r)" by (metis surj_pair)
  show ?thesis
  proof (cases r)
    case (Inl e)
    then show ?thesis by (simp add: syncEntity_def d)
  next
    case (Inr v)
    obtain page active where v: "v = (page, active)" by (metis surj_pair)
    show ?thesis
    proof (cases active)
      case True
      with prepareEntity_only [OF d [unfolded Inr v]] assms(3) have "0 < page"
        by (auto simp: start_page_ok_def)
      then show ?thesis
        using sync_pages_returns [OF assms(1,2), of page m] True by (simp add: syncEntity_def d Inr v)
    next
      case False
      then show ?thesis by (simp add: syncEntity_def d Inr v)
    qed
  qed
qed

lemma run_operations_returns:
  "m < 2 ^ 62 \<Longrightarrow> distinct (map op_entity ops) \<Longrightarrow> \<forall>op \<in> set ops. pages_end sv m op \<and> start_page_ok a (op_entity op) \<Longrightarrow>
   \<exists>r. run_operations sv (Suc m) rid full ops t a = Some r"
proof (induction ops arbitrary: t a)
  case (Cons op ops)
  obtain d r where d: "syncEntity sv (Suc m) rid op full a = Some (d, r)"
    using syncEntity_returns [of sv m op a rid full] Cons.prems by (metis list.set_intros(1) surj_pair)
  show ?case
  proof (cases r)
    case (Inl e)
    then show ?thesis by (simp add: d)
  next
    case (Inr v)
    obtain n ids where v: "v = (n, ids)" by (metis surj_pair)
    have "start_page_ok d (op_entity x)" if "x \<in> set ops" for x
    proof -
      have "op_entity op \<notin> op_entity ` set ops" using Cons.prems(2) by simp
      with that have "op_entity x \<noteq> op_entity op" by (metis image_eqI)
      then have "cursor_of (op_entity x) d = cursor_of (op_entity x) a"
        using syncEntity_only [OF d [unfolded Inr v]] by (simp add: only_cursor_def)
      then show ?thesis using Cons.prems(3) that by (simp add: start_page_ok_def)
    qed
    with Cons show ?thesis by (simp add: d Inr v)
  qed
qed simp

lemma sweep_ids_returns:
  assumes "pages_end sv m op" and "op_ids op = Some name"
  shows "0 < page \<Longrightarrow> int m < page + int fuel \<Longrightarrow> \<exists>r. sweep_ids sv op name (Suc fuel) page found = Some r"
proof (induction fuel arbitrary: page found)
  case 0
  then have "arr_of (jget (jget data (op_root op)) (op_items op)) = []" if "ids_query sv name page sweep_page_size = Inr data" for data
    using assms that unfolding pages_end_def by (metis add.right_neutral of_nat_0)
  then show ?case by (auto simp: Let_def split: sum.splits)
next
  case (Suc fuel)
  have "\<exists>r. sweep_ids sv op name (Suc fuel) (page + 1) found' = Some r" for found'
    using Suc.prems by (intro Suc.IH) simp_all
  then show ?case
    by (subst sweep_ids.simps) (simp add: Let_def del: sweep_ids.simps split: sum.splits)
qed

lemma pruneDeleted_returns: "pages_end sv m op \<Longrightarrow> \<exists>r. pruneDeleted sv (Suc m) op a = Some r"
proof (cases "op_ids op")
  case (Some name)
  assume "pages_end sv m op"
  from sweep_ids_returns [OF this Some, of 1 m "[]"] obtain r where "sweep_ids sv op name (Suc m) 1 [] = Some r" by auto
  then show ?thesis by (auto simp: pruneDeleted_def Some simp del: sweep_ids.simps split: sum.splits)
qed (simp add: pruneDeleted_def)

lemma prune_operations_returns:
  "\<forall>op \<in> set ops. pages_end sv m op \<Longrightarrow> \<exists>r. prune_operations sv (Suc m) ops t a = Some r"
proof (induction ops arbitrary: t a)
  case (Cons op ops)
  obtain d r where "pruneDeleted sv (Suc m) op a = Some (d, r)"
    using pruneDeleted_returns [of sv m op a] Cons.prems by (metis list.set_intros(1) surj_pair)
  with Cons show ?case by (cases r) auto
qed simp

lemma run_operations_of_subset: "set (run_operations_of full playsOnly) \<subseteq> set syncOperations"
  "distinct (map op_entity (run_operations_of full playsOnly))"
  by (cases full; cases playsOnly; simp add: run_operations_of_def syncOperations_def operation_defs)+

lemma open_run_cursors: "open_run sv mode version a = Inr (rid, resumed, b) \<Longrightarrow> cursors b = cursors a"
  by (auto simp: open_run_def startRun_def resumeRun_def update_run_def and_then_Inr_iff split: option.splits)

text \<open>
  C32. A sync always returns: when Stash has no items beyond page \<open>m\<close> of any query,
  every loop of a run in any mode ends after at most \<open>m + 1\<close> pages, from wherever the
  cursors of an interrupted run resume.
\<close>

theorem sync_returns:
  assumes "\<forall>op \<in> set syncOperations. pages_end sv m op \<and> start_page_ok a (op_entity op)" and "m < 2 ^ 62"
  shows "\<exists>b r. sync sv (Suc m) full playsOnly a = Some (b, r)"
proof -
  let ?ops = "run_operations_of full playsOnly"
  have body: "\<exists>r. sync_body sv (Suc m) rid full playsOnly ?ops d = Some r" if "cursors d = cursors a" for rid d
  proof -
    have "start_page_ok d ty = start_page_ok a ty" for ty using that by (simp add: start_page_ok_def cursor_of_def)
    then have ok: "\<forall>op \<in> set ?ops. pages_end sv m op \<and> start_page_ok d (op_entity op)"
      using assms(1) run_operations_of_subset(1) [of full playsOnly] by blast
    obtain e r where e: "run_operations sv (Suc m) rid full ?ops
        \<lparr>tot_counts = [], tot_changed = [], tot_scenes = [], tot_deleted = []\<rparr> d = Some (e, r)"
      using run_operations_returns [OF assms(2) run_operations_of_subset(2) ok] by (metis surj_pair)
    have after: "\<exists>r. after_operations sv (Suc m) rid full playsOnly ?ops t e = Some r" for t
    proof -
      obtain r where "prune_operations sv (Suc m) ?ops t e = Some r"
        using prune_operations_returns [of ?ops sv m t e] ok by blast
      then show ?thesis by (auto simp: after_operations_def split: sum.splits)
    qed
    show ?thesis
    proof (cases r)
      case (Inl x)
      then show ?thesis by (simp add: sync_body_def e)
    next
      case (Inr t)
      obtain y z where "after_operations sv (Suc m) rid full playsOnly ?ops t e = Some (y, z)" using after by (metis surj_pair)
      then show ?thesis by (cases z) (auto simp: sync_body_def e Inr split: sum.splits)
    qed
  qed
  show ?thesis
  proof (cases "full \<and> playsOnly")
    case False
    show ?thesis
    proof (cases "probeSyncCapabilities (sv_gql sv)")
      case (Inr version)
      show ?thesis
      proof (cases "open_run sv (if full then ''full'' else ''incremental'') version a")
        case (Inr v)
        obtain rid resumed d where v: "v = (rid, resumed, d)" by (metis surj_pair)
        obtain e r where e: "sync_body sv (Suc m) rid full playsOnly ?ops d = Some (e, r)"
          using body [OF open_run_cursors [OF Inr [unfolded v]]] by (metis surj_pair)
        show ?thesis
          using False \<open>probeSyncCapabilities (sv_gql sv) = Inr version\<close>
          by (cases r) (auto simp: sync_def Let_def Inr v e split: prod.splits sum.splits)
      qed (use False Inr in \<open>simp add: sync_def Let_def\<close>)
    qed (use False in \<open>simp add: sync_def Let_def\<close>)
  qed (simp add: sync_def)
qed

section \<open>Witnesses\<close>

text \<open>A Stash with one tag.\<close>

definition sample_names :: "string list \<Rightarrow> jVal" where
  "sample_names ns = JArr (map (\<lambda>n. JObj [(''name'', JStr n)]) ns)"

definition sample_capabilities :: jVal where
  "sample_capabilities = JObj ((''version'', JObj [(''version'', JStr ''v0.28'')]) #
     map (\<lambda>(key, ns). (key, JObj [(''fields'', sample_names ns)])) probe_requirements @
     [(''sceneFilterType'', JObj [(''inputFields'', sample_names [''play_count'', ''last_played_at''])])])"

definition sample_gql :: graphql where
  "sample_gql name vars =
     (if name = ''CuratorCapabilities'' then Inr sample_capabilities
      else if name = ''CuratorTags'' then Inr (JObj [(''findTags'', JObj [(''count'', jvInt 1),
        (''tags'', JArr (if jget vars ''page'' = jvInt 1 then [JObj [(''id'', JStr ''7'')]] else []))])])
      else Inr (JObj []))"

definition sample_service :: syncService where
  "sample_service = \<lparr>sv_gql = sample_gql, sv_sha = (\<lambda>x. x), sv_endpoint = ''e'', sv_page_size = 1,
     sv_clock = (\<lambda>_ _ _. 5), sv_id = ''r''\<rparr>"

definition sample_db :: sync_db where
  "sample_db = \<lparr>source = empty_source\<lparr>tags := [\<lparr>st_id = ''9'', st_name = None, st_updated_at = None, st_hash = ''h''\<rparr>]\<rparr>,
     sync_runs = [], cursors = [], seen_ids = [], changes = [], matches_ready = None\<rparr>"

lemma sample_probe: "probeSyncCapabilities sample_gql = Inr ''v0.28''"
  by (simp add: probeSyncCapabilities_def sample_gql_def sample_capabilities_def probe_requirements_def sample_names_def
      require_fields_def missing_fields_def field_names_def jget_JObj Let_def)

lemma jvInt_eq [simp]: "jvInt m = jvInt n \<longleftrightarrow> m = n"
  by (auto simp: jvInt_def dest: itoa_inj)

lemma page_variables_page:
  "\<not> op_incremental op \<Longrightarrow> jget (page_variables sv op full baseline page) ''page'' = jvInt page"
  by (simp add: page_variables_def Let_def jset_def jget_def)

lemma sample_fetch:
  "fetch_page sample_service syncTagOperation True baseline page =
    Inr (if page = 1 then [JObj [(''id'', JStr ''7'')]] else [], 1)"
  "op \<in> {syncStudioOperation, syncPerformerOperation, syncSceneOperation} \<Longrightarrow>
    fetch_page sample_service op True baseline page = Inr ([], 0)"
proof -
  have "jget (page_variables sample_service syncTagOperation True baseline page) ''page'' = jvInt page"
    by (rule page_variables_page) (simp add: syncTagOperation_def)
  then have "sv_gql sample_service (op_name syncTagOperation) (page_variables sample_service syncTagOperation True baseline page) =
    Inr (JObj [(''findTags'', JObj [(''count'', jvInt 1),
        (''tags'', JArr (if page = 1 then [JObj [(''id'', JStr ''7'')]] else []))])])"
    by (simp add: sample_service_def sample_gql_def syncTagOperation_def)
  then show "fetch_page sample_service syncTagOperation True baseline page =
    Inr (if page = 1 then [JObj [(''id'', JStr ''7'')]] else [], 1)"
    by (simp add: fetch_page_def Let_def syncTagOperation_def jget_JObj pythonInt_jvInt min_int64_def max_int64_def)
next
  assume "op \<in> {syncStudioOperation, syncPerformerOperation, syncSceneOperation}"
  then have "sv_gql sample_service (op_name op) vars = Inr (JObj [])" for vars
    by (auto simp: sample_service_def sample_gql_def operation_defs)
  then show "fetch_page sample_service op True baseline page = Inr ([], 0)"
    by (simp add: fetch_page_def Let_def jget_JObj pythonInt_def)
qed

lemma sample_size: "sv_page_size sample_service = 1"
  by (simp add: sample_service_def)

lemma sample_fetch_page: "fetch_page sample_service syncTagOperation True [] (int k + 1) =
    Inr (take (nat 1) (drop (k * nat 1) [JObj [(''id'', JStr ''7'')]]), int (length [JObj [(''id'', JStr ''7'')]]))"
  unfolding sample_fetch(1) by (cases k) simp_all

lemma sample_serves_tags: "serves sample_service syncTagOperation [JObj [(''id'', JStr ''7'')]]"
proof -
  have "length [JObj [(''id'', JStr ''7'')]] + nat 1 < 2 ^ 63" by simp
  then show ?thesis unfolding serves_def Let_def sample_size using sample_fetch_page by auto
qed

lemma sample_serves_rest:
  assumes "op \<in> {syncStudioOperation, syncPerformerOperation, syncSceneOperation}"
  shows "serves sample_service op []"
proof -
  have "length ([] :: jVal list) + nat 1 < 2 ^ 63" by simp
  then show ?thesis unfolding serves_def Let_def sample_size sample_fetch(2) [OF assms] by simp
qed

definition sample_remote :: "string \<Rightarrow> jVal list" where
  "sample_remote ty = (if ty = ''tag'' then [JObj [(''id'', JStr ''7'')]] else [])"

lemma sample_serves: "\<forall>op \<in> set (run_operations_of True False). serves sample_service op (sample_remote (op_entity op))"
proof
  fix op
  assume "op \<in> set (run_operations_of True False)"
  then consider "op = syncTagOperation" | "op \<in> {syncStudioOperation, syncPerformerOperation, syncSceneOperation}"
    by (auto simp: run_operations_full full_operations_def)
  then show "serves sample_service op (sample_remote (op_entity op))"
  proof cases
    case 1
    then show ?thesis using sample_serves_tags by (simp add: sample_remote_def)
  next
    case 2
    then have "op_entity op \<noteq> ''tag''" by (auto simp: operation_defs)
    with sample_serves_rest [OF 2] show ?thesis by (simp add: sample_remote_def)
  qed
qed

text \<open>The run on \<open>sample_db\<close>, entity type by entity type.\<close>

definition sample_running :: "source_tag list \<Rightarrow> sync_cursor list \<Rightarrow> (string \<times> string \<times> string) list \<Rightarrow> string option \<Rightarrow> sync_db" where
  "sample_running ts cs seen ready = \<lparr>source = empty_source\<lparr>tags := ts\<rparr>,
     sync_runs = [\<lparr>run_id = ''r'', run_mode = ''full'', run_state = ''running'', run_server = Some ''v0.28'',
       run_started_at_ms = 5, run_completed_at_ms = None, run_error = None\<rparr>],
     cursors = cs, seen_ids = seen, changes = [], matches_ready = ready\<rparr>"

lemmas run_simps = lookup_row_def upsert_checked_def upsert_row_def update_checked_def update_where_def
  insert_row_def insert_or_ignore_def with_refs_def run_ids_def cursor_check_def run_check_def

definition sample_cursor :: "string \<Rightarrow> sync_cursor" where
  "sample_cursor ty = \<lparr>cur_entity = ty, cur_watermark = Some [], cur_page = None, cur_state = ''complete'',
     cur_updated_at_ms = 5, cur_run = Some ''r'', cur_baseline = None, cur_pending = Some []\<rparr>"

lemma sample_prepare:
  assumes "ty \<notin> cur_entity ` set cs"
  shows "prepareEntity ''r'' ty 5 (sample_running ts cs seen ready) = (sample_running ts (cs @ [\<lparr>cur_entity = ty, cur_watermark = None,
     cur_page = Some ''1'', cur_state = ''running'', cur_updated_at_ms = 5, cur_run = Some ''r'', cur_baseline = None,
     cur_pending = None\<rparr>]) seen ready, Inr (1, True))"
proof -
  have none: "lookup_row cur_entity ty cs = None" using assms by (simp add: lookup_row_None)
  moreover have "update_where (\<lambda>c. cur_entity c = ty \<and> cur_baseline c = None) (\<lambda>c. c\<lparr>cur_baseline := cur_watermark c\<rparr>) cs = cs"
    using assms unfolding update_where_def by (intro map_idI) auto
  moreover have "filter (\<lambda>c. cur_entity c = ty \<and> cur_baseline c = None) cs = []" "list_all (\<lambda>x. cur_entity x \<noteq> ty) cs"
    using assms by (auto simp: filter_empty_conv list_all_iff)
  ultimately show ?thesis using assms
    by (simp add: prepareEntity_def begin_entity_def take_cursor_def set_baseline_def update_cursor_def with_refs_def
        run_ids_def sample_running_def upsert_checked_def cursor_check_def upsert_row_def update_checked_def
        list_all_iff) (simp add: update_where_def)
qed

lemma update_snoc:
  assumes "ty \<notin> cur_entity ` set cs" and "\<And>x. p x \<Longrightarrow> cur_entity x = ty" and "p c" and "cursor_check (f c)"
  shows "update_cursor p f (sample_running ts (cs @ [c]) seen ready) = Inr (sample_running ts (cs @ [f c]) seen ready)"
proof -
  have none: "\<not> p x" if "x \<in> set cs" for x using that assms(1,2) by force
  then have "filter p cs = []" "map (\<lambda>r. if p r then f r else r) cs = cs"
    by (auto simp: filter_empty_conv intro!: map_idI)
  with assms(3,4) show ?thesis
    by (simp add: update_cursor_def sample_running_def update_checked_def update_where_def)
qed

lemma lookup_snoc:
  "cur_entity c \<notin> cur_entity ` set cs \<Longrightarrow> lookup_row cur_entity (cur_entity c) (cs @ [c]) = Some c"
  by (induction cs) (auto simp: lookup_row_def)

lemma sample_mark: "\<exists>ready'. mark_index op full b (sample_running ts cs seen ready) = sample_running ts cs seen ready'"
  by (auto simp: mark_index_def sample_running_def)

lemma sample_clock: "sv_clock sample_service x y z = 5"
  by (simp add: sample_service_def)

lemma sample_finish:
  assumes "op_entity op \<notin> cur_entity ` set cs" and "cur_entity c = op_entity op" and "cur_run c = Some ''r''"
  shows "\<exists>ready'. finish_entity sample_service ''r'' op full b (sample_running ts (cs @ [c]) seen ready) =
    (sample_running ts (cs @ [c\<lparr>cur_watermark := coalesce (cur_pending c) (cur_watermark c), cur_page := None,
        cur_state := ''complete'', cur_updated_at_ms := 5\<rparr>]) seen ready', Inr ())"
proof -
  obtain r where r: "mark_index op full b (sample_running ts (cs @ [c]) seen ready) = sample_running ts (cs @ [c]) seen r"
    using sample_mark by blast
  have "completeEntity ''r'' (op_entity op) 5 (sample_running ts (cs @ [c]) seen r) =
    Inr (sample_running ts (cs @ [c\<lparr>cur_watermark := coalesce (cur_pending c) (cur_watermark c), cur_page := None,
        cur_state := ''complete'', cur_updated_at_ms := 5\<rparr>]) seen r)"
    unfolding completeEntity_def using assms by (intro update_snoc [where ty = "op_entity op"]) (simp_all add: cursor_check_def)
  then show ?thesis by (auto simp: finish_entity_def r sample_clock)
qed

lemma sample_store_nothing:
  assumes "op_entity op \<notin> cur_entity ` set cs" and "cur_entity c = op_entity op" and "cur_run c = Some ''r''" and "cur_pending c = None"
    and "cur_state c = ''running''"
  shows "store_page sample_service ''r'' op full 1 [] (sample_running ts (cs @ [c]) seen ready) =
    Inr ([], sample_running ts (cs @ [c\<lparr>cur_page := Some (itoa 2), cur_pending := Some [], cur_updated_at_ms := 5\<rparr>]) seen ready)"
proof -
  let ?db = "sample_running ts (cs @ [c]) seen ready"
  have "write_matches e [] ?db = Inr ?db" for e by (simp add: write_matches_def)
  moreover have "lookup_row cur_entity (op_entity op) (cursors ?db) = Some c"
    using lookup_snoc [of c cs] assms(1,2) by (simp add: sample_running_def)
  moreover have "update_cursor (\<lambda>x. cur_entity x = op_entity op \<and> cur_run x = Some ''r'')
      (\<lambda>x. x\<lparr>cur_page := Some (itoa 2), cur_pending := Some [], cur_updated_at_ms := 5\<rparr>) ?db =
    Inr (sample_running ts (cs @ [c\<lparr>cur_page := Some (itoa 2), cur_pending := Some [], cur_updated_at_ms := 5\<rparr>]) seen ready)"
    using assms by (intro update_snoc [where ty = "op_entity op"]) (simp_all add: cursor_check_def)
  moreover have "wrap64 (1 + 1) = 2" by (simp add: wrap64_def)
  ultimately show ?thesis using assms(4)
    by (simp add: store_page_def savePage_def adapt_items_def map_filter_simps page_timestamps_def first_max_def
        text_or_empty_def higher_watermark_def sample_clock)
qed

definition starts_with :: "syncOperation \<Rightarrow> sync_cursor" where
  "starts_with op = \<lparr>cur_entity = op_entity op, cur_watermark = None, cur_page = Some ''1'', cur_state = ''running'',
     cur_updated_at_ms = 5, cur_run = Some ''r'', cur_baseline = None, cur_pending = None\<rparr>"

lemma sample_entity:
  assumes "op_entity op \<notin> cur_entity ` set cs"
    and "\<And>b. fetch_page sample_service op True b 1 = Inr (items, tot)" and "page_exhausted sample_service (adapt_items op items) 1 tot"
    and "store_page sample_service ''r'' op True 1 items (sample_running ts (cs @ [starts_with op]) seen ready) =
      Inr (ch, sample_running ts' (cs @ [c]) seen' ready)"
    and "cur_entity c = op_entity op" and "cur_run c = Some ''r''"
  shows "\<exists>c' ready'. cur_entity c' = op_entity op \<and> syncEntity sample_service 1 ''r'' op True (sample_running ts cs seen ready) =
    Some (sample_running ts' (cs @ [c']) seen' ready', Inr (int (length (adapt_items op items)), ch))"
proof -
  let ?b = "fst (cursorWatermarks (op_entity op) (sample_running ts (cs @ [starts_with op]) seen ready))"
  obtain ready' where fin: "finish_entity sample_service ''r'' op True ?b (sample_running ts' (cs @ [c]) seen' ready) =
    (sample_running ts' (cs @ [c\<lparr>cur_watermark := coalesce (cur_pending c) (cur_watermark c), cur_page := None,
        cur_state := ''complete'', cur_updated_at_ms := 5\<rparr>]) seen' ready', Inr ())"
    using sample_finish [OF assms(1,5,6)] by blast
  have "sync_pages sample_service ''r'' op True ?b (Suc 0) 1 0 [] (sample_running ts (cs @ [starts_with op]) seen ready) =
    Some (sample_running ts' (cs @ [c\<lparr>cur_watermark := coalesce (cur_pending c) (cur_watermark c), cur_page := None,
        cur_state := ''complete'', cur_updated_at_ms := 5\<rparr>]) seen' ready', Inr (int (length (adapt_items op items)), ch))"
    unfolding sync_pages_step [OF assms(2,4)] using assms(3) by (simp add: fin)
  then have "syncEntity sample_service 1 ''r'' op True (sample_running ts cs seen ready) =
    Some (sample_running ts' (cs @ [c\<lparr>cur_watermark := coalesce (cur_pending c) (cur_watermark c), cur_page := None,
        cur_state := ''complete'', cur_updated_at_ms := 5\<rparr>]) seen' ready', Inr (int (length (adapt_items op items)), ch))"
    using sample_prepare [OF assms(1)] by (simp add: syncEntity_def sample_clock starts_with_def)
  then show ?thesis using assms(5) by (intro exI [of _ "c\<lparr>cur_watermark := coalesce (cur_pending c) (cur_watermark c), cur_page := None,
        cur_state := ''complete'', cur_updated_at_ms := 5\<rparr>"]) auto
qed

lemma sample_empty_entity:
  assumes "op \<in> {syncStudioOperation, syncPerformerOperation, syncSceneOperation}" and "op_entity op \<notin> cur_entity ` set cs"
  shows "\<exists>c' ready'. cur_entity c' = op_entity op \<and> syncEntity sample_service 1 ''r'' op True (sample_running ts cs seen ready) =
    Some (sample_running ts (cs @ [c']) seen ready', Inr (0, []))"
  using sample_entity [OF assms(2) sample_fetch(2) [OF assms(1)] _ sample_store_nothing [OF assms(2)]]
  by (simp add: starts_with_def page_exhausted_def adapt_items_def map_filter_simps)

lemma sample_tag_entity:
  "\<exists>c' ready'. cur_entity c' = ''tag'' \<and> syncEntity sample_service 1 ''r'' syncTagOperation True (sample_running ts [] [] ready) =
    Some (sample_running (upsert_row st_id (\<lambda>old new. new) (tag_row (\<lambda>x. x) (SyncTag ''7'' None None [] [])) ts) [c'] [(''r'', ''tag'', ''7'')] ready',
      Inr (1, [''7'']))" if "ts = [\<lparr>st_id = ''9'', st_name = None, st_updated_at = None, st_hash = ''h''\<rparr>]"
proof -
  have items: "adapt_items syncTagOperation [JObj [(''id'', JStr ''7'')]] = [Tag_Entity (SyncTag ''7'' None None [] [])]"
    by (simp add: adapt_items_def syncTagOperation_def map_filter_simps adaptSyncEntity_def adaptSyncTag_def adapt_tag_def jget_JObj
        optionalStringPtr_def adaptSyncStashIDs_def)
  have "store_page sample_service ''r'' syncTagOperation True 1 [JObj [(''id'', JStr ''7'')]]
      (sample_running ts ([] @ [starts_with syncTagOperation]) [] ready) =
    Inr ([''7''], sample_running (upsert_row st_id (\<lambda>old new. new) (tag_row (\<lambda>x. x) (SyncTag ''7'' None None [] [])) ts)
      ([] @ [(starts_with syncTagOperation)\<lparr>cur_page := Some (itoa (wrap64 2)), cur_pending := Some []\<rparr>]) [(''r'', ''tag'', ''7'')] ready)"
    unfolding store_page_def Let_def items that
    by (simp add: savePage_def write_matches_def save_item_def see_id_def syncUpsert_def syncUpsertTag_def run_statements_Cons
        run_statements_Nil statement_defs sample_running_def starts_with_def syncTagOperation_def empty_source_def
        lookup_row_def tag_row_def upsert_row_def with_refs_def run_ids_def insert_or_ignore_def sample_clock delete_where_def
        update_cursor_def update_checked_def update_where_def cursor_check_def page_timestamps_def map_filter_simps
        syncOperationWatermark_def first_max_def text_or_empty_def higher_watermark_def sample_service_def)
  moreover have "page_exhausted sample_service [Tag_Entity (SyncTag ''7'' None None [] [])] 1 1"
    by (simp add: page_exhausted_def sample_size wrap64_def)
  moreover have "fetch_page sample_service syncTagOperation True b 1 = Inr ([JObj [(''id'', JStr ''7'')]], 1)" for b
    by (simp add: sample_fetch(1))
  moreover have "op_entity syncTagOperation = ''tag''" by (simp add: syncTagOperation_def)
  ultimately show ?thesis
    using sample_entity [of syncTagOperation "[]" "[JObj [(''id'', JStr ''7'')]]" 1 ts "[]" ready "[''7'']"]
    unfolding items by (auto simp: starts_with_def)
qed

definition old_tag :: source_tag where
  "old_tag = \<lparr>st_id = ''9'', st_name = None, st_updated_at = None, st_hash = ''h''\<rparr>"

lemma sample_operations: "\<exists>ts cs ready' t'. run_operations sample_service 1 ''r'' True full_operations t (sample_running [old_tag] [] [] ready) =
    Some (sample_running ts cs [(''r'', ''tag'', ''7'')] ready', Inr t')"
proof -
  obtain c1 r1 ts where 1: "cur_entity c1 = ''tag''" "syncEntity sample_service 1 ''r'' syncTagOperation True (sample_running [old_tag] [] [] ready) =
      Some (sample_running ts [c1] [(''r'', ''tag'', ''7'')] r1, Inr (1, [''7'']))"
    using sample_tag_entity [of "[old_tag]" ready] unfolding old_tag_def by blast
  obtain c2 r2 where 2: "cur_entity c2 = ''studio''" "syncEntity sample_service 1 ''r'' syncStudioOperation True
      (sample_running ts [c1] [(''r'', ''tag'', ''7'')] r1) = Some (sample_running ts [c1, c2] [(''r'', ''tag'', ''7'')] r2, Inr (0, []))"
    using sample_empty_entity [of syncStudioOperation "[c1]" ts "[(''r'', ''tag'', ''7'')]" r1] 1(1) by auto
  obtain c3 r3 where 3: "cur_entity c3 = ''performer''" "syncEntity sample_service 1 ''r'' syncPerformerOperation True
      (sample_running ts [c1, c2] [(''r'', ''tag'', ''7'')] r2) = Some (sample_running ts [c1, c2, c3] [(''r'', ''tag'', ''7'')] r3, Inr (0, []))"
    using sample_empty_entity [of syncPerformerOperation "[c1, c2]" ts "[(''r'', ''tag'', ''7'')]" r2] 1(1) 2(1) by auto
  obtain c4 r4 where 4: "syncEntity sample_service 1 ''r'' syncSceneOperation True
      (sample_running ts [c1, c2, c3] [(''r'', ''tag'', ''7'')] r3) = Some (sample_running ts [c1, c2, c3, c4] [(''r'', ''tag'', ''7'')] r4, Inr (0, []))"
    using sample_empty_entity [of syncSceneOperation "[c1, c2, c3]" ts "[(''r'', ''tag'', ''7'')]" r3] 1(1) 2(1) 3(1) by auto
  show ?thesis by (simp add: full_operations_def 1(2) 2(2) 3(2) 4 del: One_nat_def) blast
qed

lemma sample_sync: "\<exists>b res. sync sample_service 1 True False (sample_db) = Some (b, Inr res)"
proof -
  obtain ts cs r t where ops: "run_operations sample_service 1 ''r'' True full_operations
      \<lparr>tot_counts = [], tot_changed = [], tot_scenes = [], tot_deleted = []\<rparr> (sample_running [old_tag] [] [] None) =
    Some (sample_running ts cs [(''r'', ''tag'', ''7'')] r, Inr t)"
    using sample_operations by blast
  have inv: "source_inv (source (sample_running [old_tag] [] [] None))"
    by (simp add: sample_running_def empty_source_def source_inv_def keys_ok_def refs_ok_def unique_key_def id_sets)
  have "source_inv (source (sample_running ts cs [(''r'', ''tag'', ''7'')] r))"
    using run_operations_synced [OF ops inv, of sample_remote] sample_serves
    by (auto simp: run_operations_full full_operations_def operation_defs fresh_cursor_def cursor_of_def sample_running_def lookup_row_def)
  from reconcile_ok [OF this, of "[''scene'', ''performer'', ''tag'', ''studio'']" "''r''"] obtain d where
    d: "reconcile ''r'' (sample_running ts cs [(''r'', ''tag'', ''7'')] r) = Inr d"
    by (auto simp: reconcile_def entity_types_def)
  have runs: "sync_runs d = sync_runs (sample_running ts cs [(''r'', ''tag'', ''7'')] r)"
    using d unfolding reconcile_def
    by (rule fold_res_invariant [where P = "\<lambda>x. sync_runs x = sync_runs (sample_running ts cs [(''r'', ''tag'', ''7'')] r)"])
      (auto simp: reconcile_type_def on_source_def and_then_Inr_iff)
  then obtain b where "finishRun ''r'' 5 (drop_orphan_matches d) = Inr b"
    by (auto simp: finishRun_def update_run_def update_checked_def drop_orphan_matches_def Let_def sample_running_def run_check_def)
  moreover have "startRun ''r'' ''full'' ''v0.28'' 5 sample_db = Inr (sample_running [old_tag] [] [] None)"
    by (simp add: startRun_def sample_db_def sample_running_def insert_row_def run_check_def old_tag_def)
  moreover have "sv_id sample_service = ''r''" "sv_gql sample_service = sample_gql" by (simp_all add: sample_service_def)
  moreover have "resumableRun ''full'' sample_db = None" by (simp add: resumableRun_def sample_db_def)
  ultimately show ?thesis
    by (simp add: sync_def sample_probe open_run_def sample_clock run_operations_full sync_body_def ops after_operations_def d
        del: One_nat_def)
qed

theorem full_sync_mirrors_remote_witness:
  "\<exists>b res. sync sample_service 1 True False sample_db = Some (b, Inr res) \<and> ids_of ''tag'' (source b) = {''7''}"
proof -
  obtain b res where run: "sync sample_service 1 True False sample_db = Some (b, Inr res)" using sample_sync by blast
  have "source_inv (source b) \<and> (\<forall>ty \<in> set entity_types. ids_of ty (source b) = item_id ` set (sample_remote ty))"
    by (rule full_sync_mirrors_remote [OF run])
      (simp_all add: sample_serves sample_db_def resumableRun_def fresh_cursor_def cursor_of_def lookup_row_def
        empty_source_def source_inv_def keys_ok_def refs_ok_def unique_key_def id_sets)
  then have "ids_of ''tag'' (source b) = {''7''}" by (simp add: entity_types_def sample_remote_def item_id_def jget_JObj)
  with run show ?thesis by blast
qed

lemma sample_pages_end: "op \<in> set syncOperations \<Longrightarrow> pages_end sample_service 1 op"
proof -
  assume op: "op \<in> set syncOperations"
  have "items = []" if "1 < page" "fetch_page sample_service op full baseline page = Inr (items, tot)" for full baseline page items tot
  proof (cases "op = syncTagOperation")
    case True
    have "jget (page_variables sample_service op full baseline page) ''page'' = jvInt page"
      by (rule page_variables_page) (simp add: True syncTagOperation_def)
    with that True show ?thesis
      by (auto simp: fetch_page_def Let_def sample_service_def sample_gql_def syncTagOperation_def jget_JObj)
  next
    case False
    with op have "op \<in> {syncStudioOperation, syncPerformerOperation, syncSceneOperation, syncScenePlaysOperation}"
      by (simp add: syncOperations_def)
    then have "op_name op \<noteq> ''CuratorTags''" "op_name op \<noteq> ''CuratorCapabilities''"
      by (auto simp: operation_defs)
    then have "sv_gql sample_service (op_name op) vars = Inr (JObj [])" for vars
      by (simp add: sample_service_def sample_gql_def)
    then have "fetch_page sample_service op full baseline page = Inr ([], pythonInt JNull)"
      by (simp only: fetch_page_def and_then.simps Let_def jget_JObj map_of.simps option.case arr_of.simps) simp
    with that(2) show ?thesis by simp
  qed
  moreover have "arr_of (jget (jget data (op_root op)) (op_items op)) = []"
    if "op_ids op = Some name" "ids_query sample_service name page sweep_page_size = Inr data" for name page data
  proof -
    have "name \<noteq> ''CuratorTags''" "name \<noteq> ''CuratorCapabilities''"
      using op that(1) unfolding syncOperations_def by (auto simp: operation_defs)
    then have "data = JObj []" using that(2) by (simp add: ids_query_def sample_service_def sample_gql_def)
    then show ?thesis by (simp add: jget_JObj)
  qed
  ultimately show ?thesis unfolding pages_end_def by (metis of_nat_1)
qed

theorem sync_returns_witness: "\<exists>b r. sync sample_service 2 False False sample_db = Some (b, r)"
proof -
  have "start_page_ok sample_db ty" for ty by (simp add: start_page_ok_def cursor_of_def sample_db_def lookup_row_def)
  moreover have "(1 :: nat) < 2 ^ 62" by simp
  ultimately have "\<exists>b r. sync sample_service (Suc 1) False False sample_db = Some (b, r)"
    using sample_pages_end by (intro sync_returns) blast+
  then show ?thesis by (simp only: Suc_1)
qed

end
