(* ===== verification/Sync_Watermarks.thy ===== *)
theory Sync_Watermarks
  imports Sync_Runs
begin

text \<open>
  The watermarks of an incremental run: what a run without news leaves behind, and that a run
  reads everything newer than the watermark it starts from.
\<close>


section \<open>A run without news\<close>

lemma adapt_no_items: "adapt_items op [] = []"
  by (simp add: adapt_items_def map_filter_simps)

lemma finish_entity_cursor:
  assumes "finish_entity sv rid op full baseline a = (b, Inr u)" and "cursor_of (op_entity op) a = Some c" and "cur_run c = Some rid"
  shows "\<exists>c'. cursor_of (op_entity op) b = Some c' \<and> cur_watermark c' = coalesce (cur_pending c) (cur_watermark c) \<and> cur_run c' = Some rid"
proof -
  have b: "completeEntity rid (op_entity op) (sv_clock sv ''complete'' (op_entity op) 0) (mark_index op full baseline a) = Inr b"
    using assms(1) by (simp add: finish_entity_def Let_def split: sum.splits)
  have "cursor_of (op_entity op) (mark_index op full baseline a) = Some c"
    using assms(2) by (auto simp: mark_index_def cursor_of_def)
  moreover have "cur_entity c = op_entity op" using assms(2) by (auto simp: cursor_of_def dest: lookup_row_Some)
  ultimately show ?thesis
    using assms(3) update_cursor_of [OF b [unfolded completeEntity_def], of "op_entity op"] by simp
qed

lemma store_nothing_cursor:
  assumes "store_page sv rid op full page [] a = Inr (ch, b)" and "cursor_of (op_entity op) a = Some c" and "cur_run c = Some rid"
  shows "ch = [] \<and> cursor_of (op_entity op) b = Some (c\<lparr>cur_page := Some (itoa (wrap64 (page + 1))),
    cur_pending := Some (text_or_empty (cur_pending c)), cur_updated_at_ms := sv_clock sv ''page'' (op_entity op) page\<rparr>)"
proof -
  let ?ty = "op_entity op"
  obtain d1 d2 c2 where d1: "write_matches (sv_endpoint sv) [] a = Inr d1"
    and d2: "fold_res (save_item (sv_sha sv) rid ?ty full) [] ([], d1) = Inr (ch, d2)"
    and c2: "cursor_of ?ty d2 = Some c2"
    and up: "update_cursor (\<lambda>c. cur_entity c = ?ty \<and> cur_run c = Some rid)
      (\<lambda>c'. c'\<lparr>cur_page := Some (itoa (wrap64 (page + 1))),
        cur_pending := Some (higher_watermark (text_or_empty (first_max (page_timestamps op [])))
          (text_or_empty (cur_pending c2))), cur_updated_at_ms := sv_clock sv ''page'' ?ty page\<rparr>) d2 = Inr b"
    using savePage_parts [OF assms(1) [unfolded store_page_def Let_def adapt_no_items if_cancel]] by blast
  have same: "d1 = a" "d2 = d1" "ch = []" using d1 d2 by (simp_all add: write_matches_def)
  with c2 assms(2) have "c2 = c" by simp
  moreover have "cur_entity c = ?ty" using assms(2) by (auto simp: cursor_of_def dest: lookup_row_Some)
  ultimately show ?thesis
    using update_cursor_of [OF up, of ?ty] assms(2,3) same
    by (simp add: page_timestamps_def map_filter_simps first_max_def text_or_empty_def higher_watermark_def)
qed

text \<open>
  C33. A sync that finds nothing new forgets how far it had read: the page without
  timestamps leaves an empty pending watermark, which completing the entity type puts in place of
  the old one, so the run after it starts without a watermark and reads everything again.
\<close>

theorem quiet_sync_forgets_watermark:
  assumes "syncEntity sv fuel rid op full a = Some (b, Inr r)"
    and "cursor_of (op_entity op) a = Some c" and "cur_run c \<noteq> Some rid"
    and "fetch_page sv op full (text_or_empty (cur_watermark c)) 1 = Inr ([], tot)"
  shows "r = (0, []) \<and> (\<exists>c'. cursor_of (op_entity op) b = Some c' \<and> cur_watermark c' = Some []) \<and>
    (\<forall>rid' now d. rid' \<noteq> rid \<longrightarrow> prepareEntity rid' (op_entity op) now b = (d, Inr (1, True)) \<longrightarrow>
       fst (cursorWatermarks (op_entity op) d) = [])"
proof -
  let ?ty = "op_entity op"
  have fresh: "fresh_cursor rid ?ty a" using assms(2,3) by (simp add: fresh_cursor_def)
  obtain d page active where d: "prepareEntity rid ?ty (sv_clock sv ''prepare'' ?ty 0) a = (d, Inr (page, active))"
    using assms(1) by (auto simp: syncEntity_def split: prod.splits sum.splits)
  note begun = begin_entity_ok [OF prepareEntity_fresh [OF d fresh]]
  define c1 where "c1 = c\<lparr>cur_page := Some ''1'', cur_state := ''running'', cur_updated_at_ms := sv_clock sv ''prepare'' ?ty 0,
        cur_run := Some rid, cur_baseline := cur_watermark c, cur_pending := None\<rparr>"
  have c1: "cursor_of ?ty d = Some c1" using begun assms(2) by (simp add: c1_def)
  then have marks: "cursorWatermarks ?ty d = (text_or_empty (cur_watermark c), [])"
    by (simp add: cursorWatermarks_def cursor_of_def c1_def text_or_empty_def)
  from assms(1) have run: "sync_pages sv rid op full (text_or_empty (cur_watermark c)) fuel 1 0 [] d = Some (b, Inr r)"
    using begun by (simp add: syncEntity_def d marks)
  then obtain fuel' where fuel: "fuel = Suc fuel'" by (cases fuel) auto
  obtain ch e where e: "store_page sv rid op full 1 [] d = Inr (ch, e)"
    using run by (auto simp: fuel assms(4) split: sum.splits)
  from store_nothing_cursor [OF e c1] have "ch = []" and e_cursor: "cursor_of ?ty e = Some (c1\<lparr>cur_page := Some (itoa (wrap64 (1 + 1))),
      cur_pending := Some [], cur_updated_at_ms := sv_clock sv ''page'' ?ty 1\<rparr>)"
    by (simp_all add: c1_def text_or_empty_def)
  have fin: "\<exists>u. finish_entity sv rid op full (text_or_empty (cur_watermark c)) e = (b, Inr u)" and r: "r = (0, [])"
    using run unfolding fuel sync_pages_step [OF assms(4) e]
    by (auto simp: page_exhausted_def adapt_no_items \<open>ch = []\<close> split: prod.splits sum.splits)
  from fin obtain u where "finish_entity sv rid op full (text_or_empty (cur_watermark c)) e = (b, Inr u)" ..
  from finish_entity_cursor [OF this e_cursor] obtain c' where c': "cursor_of ?ty b = Some c'"
    "cur_watermark c' = Some []" "cur_run c' = Some rid"
    by (auto simp: c1_def coalesce_def)
  have "fst (cursorWatermarks ?ty x) = []" if other: "rid' \<noteq> rid" "prepareEntity rid' ?ty now b = (x, Inr (1, True))" for rid' now x
  proof -
    have "fresh_cursor rid' ?ty b" using c' other(1) by (simp add: fresh_cursor_def)
    from begin_entity_ok [OF prepareEntity_fresh [OF other(2) this]] c' show ?thesis
      by (auto simp: cursorWatermarks_def cursor_of_def text_or_empty_def)
  qed
  with r c' show ?thesis by blast
qed

lemma unbounded_plays_query: "syncPlayedSince [] = JObj [(''sceneFilter'', JObj [(''play_count'',
    JObj [(''value'', jvInt 0), (''modifier'', JStr ''GREATER_THAN'')])])]"
  by (simp add: syncPlayedSince_def)

definition plays_cursor :: sync_cursor where
  "plays_cursor = \<lparr>cur_entity = ''scene_play'', cur_watermark = Some ''2024-05-01T00:00:00Z'', cur_page = None,
     cur_state = ''complete'', cur_updated_at_ms = 3, cur_run = Some ''q'', cur_baseline = None, cur_pending = None\<rparr>"

lemma sample_plays: "fetch_page sample_service syncScenePlaysOperation full b page = Inr ([], 0)"
proof -
  have "sv_gql sample_service (op_name syncScenePlaysOperation) vars = Inr (JObj [])" for vars
    by (simp add: sample_service_def sample_gql_def syncScenePlaysOperation_def)
  then show ?thesis by (simp add: fetch_page_def Let_def jget_JObj pythonInt_def)
qed

lemma sample_quiet_run:
  "\<exists>b. syncEntity sample_service 1 ''r'' syncScenePlaysOperation False (sample_running [] [plays_cursor] [] None) = Some (b, Inr (0, []))"
proof -
  have "prepareEntity ''r'' ''scene_play'' 5 (sample_running [] [plays_cursor] [] None) =
      (sample_running [] [plays_cursor\<lparr>cur_page := Some ''1'', cur_state := ''running'', cur_updated_at_ms := 5, cur_run := Some ''r'',
        cur_baseline := cur_watermark plays_cursor\<rparr>] [] None, Inr (1, True))"
    by (simp add: prepareEntity_def begin_entity_def take_cursor_def set_baseline_def update_cursor_def sample_running_def
        plays_cursor_def run_simps)
  moreover define c1 where "c1 = plays_cursor\<lparr>cur_page := Some ''1'', cur_state := ''running'', cur_updated_at_ms := 5,
    cur_run := Some ''r'', cur_baseline := cur_watermark plays_cursor\<rparr>"
  moreover define c2 where "c2 = c1\<lparr>cur_page := Some (itoa 2), cur_pending := Some [], cur_updated_at_ms := 5\<rparr>"
  moreover have "store_page sample_service ''r'' syncScenePlaysOperation False 1 [] (sample_running [] ([] @ [c1]) [] None) =
      Inr ([], sample_running [] ([] @ [c2]) [] None)"
    unfolding c2_def by (rule sample_store_nothing) (simp_all add: c1_def plays_cursor_def)
  moreover obtain d where "finish_entity sample_service ''r'' syncScenePlaysOperation False
      (text_or_empty (cur_watermark plays_cursor)) (sample_running [] ([] @ [c2]) [] None) = (d, Inr ())"
    using sample_finish [of syncScenePlaysOperation "[]" c2 False "text_or_empty (cur_watermark plays_cursor)" "[]" "[]" None]
    by (auto simp: c2_def c1_def plays_cursor_def)
  moreover have "fst (cursorWatermarks ''scene_play'' (sample_running [] [c1] [] None)) = text_or_empty (cur_watermark plays_cursor)"
    by (simp add: cursorWatermarks_def sample_running_def lookup_row_def c1_def plays_cursor_def)
  ultimately show ?thesis
    by (simp add: syncEntity_def sample_clock sample_plays page_exhausted_def adapt_no_items)
qed

theorem quiet_sync_forgets_watermark_witness:
  "\<exists>b c'. syncEntity sample_service 1 ''r'' syncScenePlaysOperation False (sample_running [] [plays_cursor] [] None) = Some (b, Inr (0, [])) \<and>
    cursor_of ''scene_play'' b = Some c' \<and> cur_watermark c' = Some []"
proof -
  obtain b where run: "syncEntity sample_service 1 ''r'' syncScenePlaysOperation False (sample_running [] [plays_cursor] [] None) =
      Some (b, Inr (0, []))"
    using sample_quiet_run by blast
  from quiet_sync_forgets_watermark [OF this, of plays_cursor] run show ?thesis
    by (simp add: cursor_of_def sample_running_def lookup_row_def plays_cursor_def sample_plays)
qed

end
