(* ===== verification/Scheduler.thy ===== *)
theory Scheduler
  imports Job_Queue Settings Play_Events
begin

text \<open>
  The auto-scheduler of the daemon (\<open>core/autotasks.go\<close>): the durable schedule rows, the
  next run of interval and of wall-clock schedules, the pass that enqueues what is due,
  and the test that keeps the daemon resident. Times are epoch milliseconds; the local
  time zone is the function \<open>zone\<close> from an instant to its offset, \<open>uuid\<close> answers the job
  id drawn for a task of a mode in the pass, and \<open>parse\<close> reads the stored configuration.
\<close>

section \<open>State\<close>

record scheduled_task =
  task_type :: string
  next_run_at_ms :: "int option"
  last_run_at_ms :: "int option"

definition task_check :: "scheduled_task \<Rightarrow> bool" where
  "task_check r \<longleftrightarrow>
     (case next_run_at_ms r of None \<Rightarrow> True | Some n \<Rightarrow> 0 \<le> n) \<and>
     (case last_run_at_ms r of None \<Rightarrow> True | Some n \<Rightarrow> 0 \<le> n)"

text \<open>What a pass reads and writes.\<close>

record scheduler_db = sidecar +
  scheduled_tasks :: "scheduled_task list"
  daemon_config :: config_table
  daemon_sessions :: "play_session list"

definition autoPlayQuietMs :: int where "autoPlayQuietMs = 60000"

definition day_ms :: int where "day_ms = 86400000"

text \<open>\<open>autoPayloadFromState\<close>: the stored connection, when it parses to an object.\<close>

definition autoPayloadFromState :: "(string \<Rightarrow> jVal res) \<Rightarrow> string \<Rightarrow> jVal" where
  "autoPayloadFromState parse connection =
     JObj [(''server_connection'',
            if connection = [] then JObj []
            else case parse connection of Inr v \<Rightarrow> if is_obj v then v else JObj [] | Inl _ \<Rightarrow> JObj []),
           (''args'', JObj [])]"

section \<open>New plays\<close>

record playWatermark =
  unsynced :: bool
  lastEndedAt :: int

definition latest :: "int list \<Rightarrow> int option" where
  "latest ts = first_by (>) ts"

definition last_plays_sync :: "job list \<Rightarrow> int option" where
  "last_plays_sync js =
     latest (List.map_filter finished_at_ms
       (filter (\<lambda>j. job_type j = ''sync-plays'' \<and> job_state j = Complete) js))"

definition playWatermarkFn :: "job list \<Rightarrow> play_session list \<Rightarrow> playWatermark" where
  "playWatermarkFn js plays =
     (case latest (map ps_ended_at_ms plays) of
        None \<Rightarrow> \<lparr>unsynced = False, lastEndedAt = 0\<rparr>
      | Some lastPlay \<Rightarrow>
          \<lparr>unsynced = (case last_plays_sync js of None \<Rightarrow> True | Some lastSync \<Rightarrow> lastPlay > lastSync),
           lastEndedAt = lastPlay\<rparr>)"

section \<open>Schedules\<close>

record scheduleSpec =
  spec_mode :: string
  spec_enabled :: bool
  intervalHours :: float64
  atHour :: int

definition configHour :: "jVal \<Rightarrow> string \<Rightarrow> int" where
  "configHour config key = (let v = jget config key in if v = JNull then -1 else pythonInt v)"

definition schedule_of :: "jVal \<Rightarrow> string \<Rightarrow> string \<Rightarrow> scheduleSpec" where
  "schedule_of config mode key =
     \<lparr>spec_mode = mode, spec_enabled = truthy (jget config (''schedule_'' @ key @ ''_enabled'')),
      intervalHours = pythonFloatOr (jget config (''schedule_'' @ key @ ''_interval_hours'')) (Fin False 24),
      atHour = configHour config (''schedule_'' @ key @ ''_at_hour'')\<rparr>"

definition scheduleSpecs :: "jVal \<Rightarrow> scheduleSpec list" where
  "scheduleSpecs config =
     [schedule_of config ''backup'' ''backup'', schedule_of config ''sync-build'' ''sync_build'',
      schedule_of config ''expand-refresh'' ''expand_refresh'']"

definition anyScheduleEnabled :: "jVal \<Rightarrow> bool" where
  "anyScheduleEnabled config \<longleftrightarrow> list_ex spec_enabled (scheduleSpecs config)"

text \<open>
  The clock on the wall, as milliseconds, and \<open>time.Date\<close> back to an instant: the offset
  is looked up at the local reading taken as an instant, then once more at the instant
  it gives.
\<close>

definition to_local :: "(int \<Rightarrow> int) \<Rightarrow> int \<Rightarrow> int" where
  "to_local zone t = t + zone t"

definition from_local :: "(int \<Rightarrow> int) \<Rightarrow> int \<Rightarrow> int" where
  "from_local zone l = l - zone (l - zone l)"

definition nextOccurrenceOfHour :: "(int \<Rightarrow> int) \<Rightarrow> int \<Rightarrow> int \<Rightarrow> int" where
  "nextOccurrenceOfHour zone nowMs hour =
     (let today = to_local zone nowMs div day_ms * day_ms;
          nxt = from_local zone (today + hour * 3600000)
      in if nxt \<le> nowMs then nxt + day_ms else nxt)"

text \<open>The loop over the slots of a day; the code enters it with a positive step only.\<close>

function first_slot :: "int \<Rightarrow> int \<Rightarrow> int \<Rightarrow> int \<Rightarrow> int" where
  "first_slot step nowMs base slot =
     (if slot < base \<and> 0 < step
      then if slot > nowMs then slot else first_slot step nowMs base (slot + step)
      else base)"
  by auto
termination by (relation "measure (\<lambda>(step, nowMs, base, slot). nat (base - slot))") auto

declare first_slot.simps [simp del]

definition nextAnchoredRun :: "(int \<Rightarrow> int) \<Rightarrow> int \<Rightarrow> int \<Rightarrow> float64 \<Rightarrow> int" where
  "nextAnchoredRun zone nowMs hour hours =
     (let base = nextOccurrenceOfHour zone nowMs hour;
          step = pyRound (float_mult hours (Fin False 3600000))
      in if step > 0 \<and> float_less hours (Fin False 24)
         then first_slot step nowMs base (from_local zone (to_local zone base - day_ms) + step)
         else let days = float_to_int64 (float_div hours (Fin False 24));
                  days = (if days < 1 then 1 else days)
              in wrap64 (base + wrap64 (wrap64 ((days - 1) * 24) * 3600000)))"

definition anchored :: "scheduleSpec \<Rightarrow> bool" where
  "anchored spec \<longleftrightarrow> 0 \<le> atHour spec \<and> atHour spec \<le> 23"

definition nextRunFor :: "(int \<Rightarrow> int) \<Rightarrow> scheduleSpec \<Rightarrow> int \<Rightarrow> int \<Rightarrow> int" where
  "nextRunFor zone spec nowMs intervalMs =
     (if anchored spec then nextAnchoredRun zone nowMs (atHour spec) (intervalHours spec)
      else wrap64 (nowMs + intervalMs))"

definition interval_ms :: "scheduleSpec \<Rightarrow> int" where
  "interval_ms spec =
     (let ms = pyRound (float_mult (intervalHours spec) (Fin False 3600000)) in
      if ms \<le> 0 then 24 * 3600000 else ms)"

section \<open>A pass over the schedules\<close>

definition set_task :: "string \<Rightarrow> (scheduled_task \<Rightarrow> scheduled_task) \<Rightarrow> scheduled_task list \<Rightarrow> scheduled_task list res" where
  "set_task mode f rows = update_checked task_check (\<lambda>r. task_type r = mode) f rows"

text \<open>A schedule without a row is seeded and not run.\<close>

definition seed_schedule :: "(int \<Rightarrow> int) \<Rightarrow> scheduleSpec \<Rightarrow> int \<Rightarrow> scheduled_task list \<Rightarrow> scheduled_task list res" where
  "seed_schedule zone spec now rows =
     insert_row task_type task_check
       \<lparr>task_type = spec_mode spec, next_run_at_ms = Some (nextRunFor zone spec now (interval_ms spec)),
        last_run_at_ms = None\<rparr> rows"

text \<open>A row is due once its time has passed.\<close>

definition due :: "int \<Rightarrow> int option \<Rightarrow> bool" where
  "due now nxt = (case nxt of None \<Rightarrow> False | Some n \<Rightarrow> n \<le> now)"

text \<open>
  A wall-clock schedule that is not due is moved to the next occurrence; the answer is
  the time that counts from here on.
\<close>

definition rephase ::
    "(int \<Rightarrow> int) \<Rightarrow> scheduleSpec \<Rightarrow> int \<Rightarrow> int option \<Rightarrow> scheduled_task list
       \<Rightarrow> (int option \<times> scheduled_task list) res" where
  "rephase zone spec now nxt rows =
     (if anchored spec \<and> \<not> due now nxt then
        let expected = nextAnchoredRun zone now (atHour spec) (intervalHours spec) in
        if nxt \<noteq> Some expected then
          and_then (set_task (spec_mode spec) (\<lambda>r. r\<lparr>next_run_at_ms := Some expected\<rparr>) rows)
            (\<lambda>rows'. Inr (Some expected, rows'))
        else Inr (nxt, rows)
      else Inr (nxt, rows))"

text \<open>
  One schedule of the loop: the database, the modes enqueued so far, and the error that
  ends the pass.
\<close>

definition run_schedule ::
    "(int \<Rightarrow> int) \<Rightarrow> (string \<Rightarrow> string) \<Rightarrow> jVal \<Rightarrow> int \<Rightarrow> scheduleSpec
       \<Rightarrow> scheduler_db \<times> string list \<Rightarrow> scheduler_db \<times> string list \<times> go_error option" where
  "run_schedule zone uuid payload now spec = (\<lambda>(db, enqueued).
     if \<not> spec_enabled spec then (db, enqueued, None)
     else case lookup_row task_type (spec_mode spec) (scheduled_tasks db) of
       None \<Rightarrow>
         (case seed_schedule zone spec now (scheduled_tasks db) of
            Inl e \<Rightarrow> (db, enqueued, Some e)
          | Inr rows \<Rightarrow> (db\<lparr>scheduled_tasks := rows\<rparr>, enqueued, None))
     | Some row \<Rightarrow>
         (case rephase zone spec now (next_run_at_ms row) (scheduled_tasks db) of
            Inl e \<Rightarrow> (db, enqueued, Some e)
          | Inr (nxt, rows) \<Rightarrow>
              let db = db\<lparr>scheduled_tasks := rows\<rparr> in
              if \<not> due now nxt then (db, enqueued, None)
              else (case enqueueAutoTask (uuid (spec_mode spec)) (spec_mode spec) payload now (jobs db) of
                 Inl e \<Rightarrow> (db, enqueued, Some e)
               | Inr (isNew, js) \<Rightarrow>
                   let db = db\<lparr>jobs := js\<rparr>;
                       enqueued = (if isNew then enqueued @ [spec_mode spec] else enqueued)
                   in (case set_task (spec_mode spec) (\<lambda>r. r\<lparr>
                             next_run_at_ms := Some (nextRunFor zone spec now (interval_ms spec)),
                             last_run_at_ms := Some now\<rparr>) (scheduled_tasks db) of
                         Inl e \<Rightarrow> (db, enqueued, Some e)
                       | Inr rows \<Rightarrow> (db\<lparr>scheduled_tasks := rows\<rparr>, enqueued, None)))))"

fun run_schedules ::
    "(int \<Rightarrow> int) \<Rightarrow> (string \<Rightarrow> string) \<Rightarrow> jVal \<Rightarrow> int \<Rightarrow> scheduleSpec list
       \<Rightarrow> scheduler_db \<times> string list \<Rightarrow> scheduler_db \<times> string list \<times> go_error option" where
  "run_schedules zone uuid payload now [] (db, enqueued) = (db, enqueued, None)"
| "run_schedules zone uuid payload now (spec # specs) (db, enqueued) =
     (case run_schedule zone uuid payload now spec (db, enqueued) of
        (db', enqueued', Some e) \<Rightarrow> (db', enqueued', Some e)
      | (db', enqueued', None) \<Rightarrow> run_schedules zone uuid payload now specs (db', enqueued'))"

definition runDueSchedules ::
    "(int \<Rightarrow> int) \<Rightarrow> (string \<Rightarrow> string) \<Rightarrow> jVal \<Rightarrow> jVal \<Rightarrow> int \<Rightarrow> scheduler_db
       \<Rightarrow> scheduler_db \<times> string list \<times> go_error option" where
  "runDueSchedules zone uuid payload config now db =
     run_schedules zone uuid payload now (scheduleSpecs config) (db, [])"

section \<open>The tick\<close>

text \<open>The enqueue of one automatic task and what it adds to the modes enqueued.\<close>

definition auto_enqueue ::
    "(string \<Rightarrow> string) \<Rightarrow> jVal \<Rightarrow> int \<Rightarrow> string \<Rightarrow> scheduler_db \<times> string list
       \<Rightarrow> scheduler_db \<times> string list \<times> go_error option" where
  "auto_enqueue uuid payload now mode = (\<lambda>(db, enqueued).
     case enqueueAutoTask (uuid mode) mode payload now (jobs db) of
       Inl e \<Rightarrow> (db, enqueued, Some e)
     | Inr (isNew, js) \<Rightarrow> (db\<lparr>jobs := js\<rparr>, if isNew then enqueued @ [mode] else enqueued, None))"

definition update_ready :: "jVal \<Rightarrow> int \<Rightarrow> scheduler_db \<Rightarrow> bool" where
  "update_ready config now db =
     modelUpdateReady (model_updates db) now
       (pythonInt (jget config ''model_update_event_threshold''))
       (pyRound (float_mult (pythonFloatOr (jget config ''model_update_max_wait_minutes'') (Fin False 0)) (Fin False 60000)))
       (pyRound (float_mult (pythonFloatOr (jget config ''model_update_min_interval_minutes'') (Fin False 0)) (Fin False 60000)))"

definition play_task ::
    "(string \<Rightarrow> string) \<Rightarrow> jVal \<Rightarrow> int \<Rightarrow> scheduler_db \<times> string list
       \<Rightarrow> scheduler_db \<times> string list \<times> go_error option" where
  "play_task uuid payload now = (\<lambda>(db, enqueued).
     let w = playWatermarkFn (jobs db) (daemon_sessions db) in
     if unsynced w \<and> now - lastEndedAt w \<ge> autoPlayQuietMs
     then auto_enqueue uuid payload now ''sync-plays'' (db, enqueued)
     else (db, enqueued, None))"

definition schedulerTick ::
    "(string \<Rightarrow> jVal res) \<Rightarrow> (int \<Rightarrow> int) \<Rightarrow> (string \<Rightarrow> string) \<Rightarrow> jVal \<Rightarrow> int \<Rightarrow> scheduler_db
       \<Rightarrow> scheduler_db \<times> string list \<times> go_error option" where
  "schedulerTick parse zone uuid payload now db =
     (case sidecarConfig parse (daemon_config db) of
        Inl e \<Rightarrow> (db, [], Some e)
      | Inr cfg \<Rightarrow>
          let config = jget cfg ''config'' in
          (case runDueSchedules zone uuid payload config now db of
             (db1, scheduled, Some e) \<Rightarrow> (db1, [], Some e)
           | (db1, scheduled, None) \<Rightarrow>
               if \<not> truthy (jget config ''auto_tasks_enabled'') then (db1, scheduled, None)
               else if update_ready config now db1 \<and> \<not> modelRebuilding now (jobs db1)
               then (case auto_enqueue uuid payload now ''update-model'' (db1, scheduled) of
                  (db2, enqueued, Some e) \<Rightarrow> (db2, enqueued, Some e)
                | (db2, enqueued, None) \<Rightarrow> play_task uuid payload now (db2, enqueued))
               else play_task uuid payload now (db1, scheduled)))"

definition schedulerStayAlive :: "(string \<Rightarrow> jVal res) \<Rightarrow> scheduler_db \<Rightarrow> bool res" where
  "schedulerStayAlive parse db =
     and_then (sidecarConfig parse (daemon_config db)) (\<lambda>cfg.
       let config = jget cfg ''config'' in
       Inr (anyScheduleEnabled config \<or>
            (truthy (jget config ''auto_tasks_enabled'') \<and>
             (pending (model_updates db) \<or> unsynced (playWatermarkFn (jobs db) (daemon_sessions db))))))"

section \<open>One schedule\<close>

text \<open>An active job of the last six hours holds back another of its type.\<close>

definition busy :: "string \<Rightarrow> int \<Rightarrow> job list \<Rightarrow> bool" where
  "busy mode now js \<longleftrightarrow> list_ex (\<lambda>j. active j \<and> job_type j = mode \<and> started_at_ms j > now - 6 * 3600000) js"

abbreviation task_row :: "string \<Rightarrow> scheduler_db \<Rightarrow> scheduled_task option" where
  "task_row mode db \<equiv> lookup_row task_type mode (scheduled_tasks db)"

abbreviation due_row :: "string \<Rightarrow> int \<Rightarrow> scheduler_db \<Rightarrow> bool" where
  "due_row mode now db \<equiv> (\<exists>r. task_row mode db = Some r \<and> due now (next_run_at_ms r))"

lemma enqueueAutoTask_busy:
  assumes "enqueueAutoTask jid mode payload now js = Inr (isNew, js')"
  shows "isNew \<longleftrightarrow> \<not> busy mode now js" and "other \<noteq> mode \<Longrightarrow> busy other t js' \<longleftrightarrow> busy other t js"
  using assms by (auto simp: enqueueAutoTask_def Let_def busy_def and_then_Inr_iff insert_row_Inr new_job_def
      split: if_splits)

lemma lookup_set_task:
  assumes "set_task mode f rows = Inr rows'" and "\<And>r. task_type (f r) = task_type r"
  shows "lookup_row task_type k rows' =
    (if k = mode then map_option f (lookup_row task_type k rows) else lookup_row task_type k rows)"
proof -
  have "rows' = update_where (\<lambda>r. task_type r = mode) f rows"
    using assms(1) by (simp add: set_task_def update_checked_Inr)
  then have "lookup_row task_type k rows' =
      map_option (\<lambda>r. if task_type r = mode then f r else r) (lookup_row task_type k rows)"
    using assms(2) by (simp add: lookup_update_where)
  then show ?thesis by (cases "lookup_row task_type k rows") (auto dest: lookup_row_Some)
qed

lemma lookup_seed:
  assumes "seed_schedule zone spec now rows = Inr rows'"
  shows "lookup_row task_type k rows' =
    (if k = spec_mode spec
     then Some \<lparr>task_type = spec_mode spec, next_run_at_ms = Some (nextRunFor zone spec now (interval_ms spec)),
            last_run_at_ms = None\<rparr>
     else lookup_row task_type k rows)"
proof -
  have rows: "rows' = rows @ [\<lparr>task_type = spec_mode spec,
      next_run_at_ms = Some (nextRunFor zone spec now (interval_ms spec)), last_run_at_ms = None\<rparr>]"
    and fresh: "spec_mode spec \<notin> task_type ` set rows"
    using assms by (simp_all add: seed_schedule_def insert_row_Inr)
  have "find P (xs @ [x]) = (case find P xs of None \<Rightarrow> if P x then Some x else None | Some y \<Rightarrow> Some y)"
    for P and xs :: "scheduled_task list" and x by (induction xs) auto
  moreover have "lookup_row task_type (spec_mode spec) rows = None"
    using fresh by (simp add: lookup_row_None)
  ultimately show ?thesis by (auto simp: rows lookup_row_def split: option.splits)
qed

lemma lookup_rephase:
  assumes "rephase zone spec now nxt rows = Inr (nxt', rows')"
  shows "lookup_row task_type k rows' =
    (if k = spec_mode spec \<and> nxt' \<noteq> nxt
     then map_option (\<lambda>r. r\<lparr>next_run_at_ms := nxt'\<rparr>) (lookup_row task_type k rows)
     else lookup_row task_type k rows)"
  using assms unfolding rephase_def Let_def
  by (auto simp: and_then_Inr_iff lookup_set_task split: if_splits)

text \<open>A schedule touches its own row and its own jobs only.\<close>

lemma run_schedule_other:
  assumes run: "run_schedule zone uuid payload now spec (db, enq) = (db', enq', None)"
    and other: "mode \<noteq> spec_mode spec"
  shows "task_row mode db' = task_row mode db \<and> (mode \<in> set enq' \<longleftrightarrow> mode \<in> set enq) \<and>
    (busy mode t (jobs db') \<longleftrightarrow> busy mode t (jobs db))"
proof (cases "spec_enabled spec")
  case True
  show ?thesis
  proof (cases "task_row (spec_mode spec) db")
    case None
    with True run other show ?thesis
      by (auto simp: run_schedule_def lookup_seed split: sum.splits)
  next
    case (Some row)
    with True run obtain nxt rows where
      re: "rephase zone spec now (next_run_at_ms row) (scheduled_tasks db) = Inr (nxt, rows)"
      by (cases "rephase zone spec now (next_run_at_ms row) (scheduled_tasks db)")
        (auto simp: run_schedule_def)
    have rows: "lookup_row task_type mode rows = task_row mode db"
      using lookup_rephase [OF re, of mode] other by simp
    from True Some re run other rows show ?thesis
      by (auto simp: run_schedule_def Let_def lookup_set_task enqueueAutoTask_busy
          split: sum.splits if_splits prod.splits)
  qed
qed (use run in \<open>simp add: run_schedule_def\<close>)

text \<open>
  A wall-clock schedule always leaves its row at the next occurrence, and runs when the
  row was due.
\<close>

lemma run_schedule_anchored:
  fixes zone spec now
  defines "e \<equiv> nextAnchoredRun zone now (atHour spec) (intervalHours spec)"
  assumes run: "run_schedule zone uuid payload now spec (db, enq) = (db', enq', None)"
    and spec: "spec_enabled spec" "anchored spec" and later: "now < e" and new: "spec_mode spec \<notin> set enq"
  shows "map_option next_run_at_ms (task_row (spec_mode spec) db') = Some (Some e) \<and>
    (spec_mode spec \<in> set enq' \<longleftrightarrow> due_row (spec_mode spec) now db \<and> \<not> busy (spec_mode spec) now (jobs db))"
proof (cases "task_row (spec_mode spec) db")
  case None
  with spec run new show ?thesis
    by (auto simp: run_schedule_def lookup_seed nextRunFor_def e_def split: sum.splits)
next
  case (Some row)
  with spec run obtain nxt rows where
    re: "rephase zone spec now (next_run_at_ms row) (scheduled_tasks db) = Inr (nxt, rows)"
    by (cases "rephase zone spec now (next_run_at_ms row) (scheduled_tasks db)") (auto simp: run_schedule_def)
  show ?thesis
  proof (cases "due now (next_run_at_ms row)")
    case True
    then have rows: "nxt = next_run_at_ms row" "rows = scheduled_tasks db"
      using re by (simp_all add: rephase_def)
    from True Some re rows spec run new show ?thesis
      by (auto simp: run_schedule_def Let_def lookup_set_task nextRunFor_def e_def
          dest: enqueueAutoTask_busy(1) split: sum.splits if_splits prod.splits)
  next
    case False
    then have nxt: "nxt = Some e"
      using re spec by (auto simp: rephase_def Let_def e_def and_then_Inr_iff split: if_splits)
    then have "\<not> due now nxt" using later by (simp add: due_def)
    then have res: "db' = db\<lparr>scheduled_tasks := rows\<rparr>" "enq' = enq"
      using Some re spec run by (simp_all add: run_schedule_def)
    have "map_option next_run_at_ms (lookup_row task_type (spec_mode spec) rows) = Some nxt"
      using lookup_rephase [OF re, of "spec_mode spec"] Some by auto
    with res nxt False Some new show ?thesis by simp
  qed
qed

lemma run_schedules_focus:
  assumes "run_schedules zone uuid payload now specs (db, enq) = (db', enq', None)"
    and "spec \<in> set specs" and "distinct (map spec_mode specs)" and "mode = spec_mode spec"
  shows "\<exists>d e d' e'. run_schedule zone uuid payload now spec (d, e) = (d', e', None) \<and>
    task_row mode d = task_row mode db \<and> task_row mode db' = task_row mode d' \<and>
    (mode \<in> set e \<longleftrightarrow> mode \<in> set enq) \<and> (mode \<in> set enq' \<longleftrightarrow> mode \<in> set e') \<and>
    (\<forall>t. busy mode t (jobs d) \<longleftrightarrow> busy mode t (jobs db))"
  using assms
proof (induction specs arbitrary: db enq)
  case (Cons s specs)
  then obtain d1 e1 where one: "run_schedule zone uuid payload now s (db, enq) = (d1, e1, None)"
    and rest: "run_schedules zone uuid payload now specs (d1, e1) = (db', enq', None)"
    by (auto split: prod.splits option.splits)
  show ?case
  proof (cases "spec = s")
    case True
    then have "mode \<notin> spec_mode ` set specs" using Cons.prems by auto
    with rest have "task_row mode db' = task_row mode d1 \<and> (mode \<in> set enq' \<longleftrightarrow> mode \<in> set e1)"
    proof (induction specs arbitrary: d1 e1)
      case (Cons s specs)
      then obtain d2 e2 where two: "run_schedule zone uuid payload now s (d1, e1) = (d2, e2, None)"
        and "run_schedules zone uuid payload now specs (d2, e2) = (db', enq', None)"
        by (auto split: prod.splits option.splits)
      with Cons show ?case using run_schedule_other [OF two, of mode] by auto
    qed simp
    with one True show ?thesis by blast
  next
    case False
    then have "spec \<in> set specs" using Cons.prems(2) by simp
    have "spec_mode s \<notin> spec_mode ` set specs" and rest': "distinct (map spec_mode specs)"
      using Cons.prems(3) by simp_all
    with \<open>spec \<in> set specs\<close> have "spec_mode spec \<noteq> spec_mode s" by (metis imageI)
    then have "mode \<noteq> spec_mode s" using Cons.prems(4) by simp
    with Cons.IH [OF rest \<open>spec \<in> set specs\<close> rest' Cons.prems(4)] run_schedule_other [OF one] show ?thesis
      by simp
  qed
qed simp

lemma spec_modes: "distinct (map spec_mode (scheduleSpecs config))"
  by (simp add: scheduleSpecs_def schedule_of_def)

text \<open>One pass, for a wall-clock schedule.\<close>

lemma anchored_tick:
  assumes run: "runDueSchedules zone uuid payload config now db = (db', fired, None)"
    and spec: "spec \<in> set (scheduleSpecs config)" "spec_enabled spec" "anchored spec"
    and later: "now < nextAnchoredRun zone now (atHour spec) (intervalHours spec)"
  shows "map_option next_run_at_ms (task_row (spec_mode spec) db') =
      Some (Some (nextAnchoredRun zone now (atHour spec) (intervalHours spec)))"
    and "spec_mode spec \<in> set fired \<longleftrightarrow>
      due_row (spec_mode spec) now db \<and> \<not> busy (spec_mode spec) now (jobs db)"
proof -
  obtain d e d' e' where one: "run_schedule zone uuid payload now spec (d, e) = (d', e', None)"
    and eqs: "task_row (spec_mode spec) d = task_row (spec_mode spec) db"
      "task_row (spec_mode spec) db' = task_row (spec_mode spec) d'"
      "spec_mode spec \<notin> set e" "spec_mode spec \<in> set fired \<longleftrightarrow> spec_mode spec \<in> set e'"
      "\<forall>t. busy (spec_mode spec) t (jobs d) \<longleftrightarrow> busy (spec_mode spec) t (jobs db)"
    using run_schedules_focus [OF run [unfolded runDueSchedules_def] spec(1) spec_modes refl] by auto
  from run_schedule_anchored [OF one spec(2,3) later eqs(3)] eqs
  show "map_option next_run_at_ms (task_row (spec_mode spec) db') =
      Some (Some (nextAnchoredRun zone now (atHour spec) (intervalHours spec)))"
    and "spec_mode spec \<in> set fired \<longleftrightarrow>
      due_row (spec_mode spec) now db \<and> \<not> busy (spec_mode spec) now (jobs db)"
    by simp_all
qed

section \<open>Wall-clock hours in a zone without daylight saving\<close>

lemma next_hour:
  fixes now tz h :: int
  assumes zone: "zone = (\<lambda>_. tz)" and h: "0 \<le> h" "h \<le> 23"
  defines "base \<equiv> nextOccurrenceOfHour zone now h"
  shows "now < base" and "base \<le> now + day_ms" and "(base + tz) mod day_ms = h * 3600000"
proof -
  define q where "q = (now + tz) div day_ms"
  have base: "base = (if q * day_ms + h * 3600000 - tz \<le> now then q * day_ms + h * 3600000 - tz + day_ms
      else q * day_ms + h * 3600000 - tz)"
    by (simp add: base_def nextOccurrenceOfHour_def to_local_def from_local_def zone q_def Let_def)
  have "q * day_ms \<le> now + tz" "now + tz < q * day_ms + day_ms"
    by (simp_all add: q_def day_ms_def)
  with h show "now < base" "base \<le> now + day_ms" by (auto simp: base day_ms_def)
  have "(h * 3600000) mod day_ms = h * 3600000" using h by (simp add: day_ms_def)
  moreover have "base + tz = h * 3600000 + day_ms * (if q * day_ms + h * 3600000 - tz \<le> now then q + 1 else q)"
    by (simp add: base algebra_simps)
  ultimately show "(base + tz) mod day_ms = h * 3600000" by simp
qed


section \<open>Runs of the scheduler\<close>

text \<open>
  The passes of the daemon: each at its time and over the jobs that the workers have left
  by then.
\<close>

fun daemon_ticks ::
    "(int \<Rightarrow> int) \<Rightarrow> (string \<Rightarrow> string) \<Rightarrow> jVal \<Rightarrow> jVal \<Rightarrow> (int \<times> job list) list \<Rightarrow> scheduler_db
       \<Rightarrow> (string list \<times> go_error option) list" where
  "daemon_ticks zone uuid payload config [] db = []"
| "daemon_ticks zone uuid payload config ((now, js) # ticks) db =
     (case runDueSchedules zone uuid payload config now (db\<lparr>jobs := js\<rparr>) of
        (db', fired, err) \<Rightarrow> (fired, err) # daemon_ticks zone uuid payload config ticks db')"

lemma length_daemon_ticks [simp]: "length (daemon_ticks zone uuid payload config ticks db) = length ticks"
  by (induction ticks arbitrary: db) (auto split: prod.splits)

text \<open>
  Between two passes a wall-clock schedule keeps the occurrence after the first one, so
  the second pass runs it exactly when that occurrence has come.
\<close>

lemma anchored_ticks:
  assumes spec: "spec \<in> set (scheduleSpecs config)" "spec_enabled spec" "anchored spec"
    and later: "\<And>now js. (now, js) \<in> set ticks \<Longrightarrow>
      now < nextAnchoredRun zone now (atHour spec) (intervalHours spec)"
    and ok: "list_all (\<lambda>(fired, err). err = None) (daemon_ticks zone uuid payload config ticks db)"
    and i: "Suc i < length ticks" "ticks ! i = (s, js')" "ticks ! Suc i = (now, js)"
  shows "spec_mode spec \<in> set (fst (daemon_ticks zone uuid payload config ticks db ! Suc i)) \<longleftrightarrow>
    nextAnchoredRun zone s (atHour spec) (intervalHours spec) \<le> now \<and> \<not> busy (spec_mode spec) now js"
  using later ok i
proof (induction ticks arbitrary: db i)
  case (Cons tick ticks)
  obtain t js1 where tick: "tick = (t, js1)" by fastforce
  obtain db1 fired where one: "runDueSchedules zone uuid payload config t (db\<lparr>jobs := js1\<rparr>) = (db1, fired, None)"
    using Cons.prems(2) tick by (auto split: prod.splits)
  show ?case
  proof (cases i)
    case (Suc j)
    with Cons.IH [of db1 j] Cons.prems one tick show ?thesis by auto
  next
    case 0
    then obtain rest where ticks: "t = s" "ticks = (now, js) # rest"
      using Cons.prems tick by (cases ticks) auto
    obtain db2 fired2 where two: "runDueSchedules zone uuid payload config now (db1\<lparr>jobs := js\<rparr>) = (db2, fired2, None)"
      using Cons.prems(2) tick ticks one by (auto split: prod.splits)
    have "map_option next_run_at_ms (task_row (spec_mode spec) db1) =
        Some (Some (nextAnchoredRun zone s (atHour spec) (intervalHours spec)))"
      using anchored_tick(1) [OF one spec] Cons.prems(1) tick ticks by auto
    then have "due_row (spec_mode spec) now db1 \<longleftrightarrow> nextAnchoredRun zone s (atHour spec) (intervalHours spec) \<le> now"
      by (auto simp: due_def)
    moreover have "spec_mode spec \<in> set fired2 \<longleftrightarrow> due_row (spec_mode spec) now (db1\<lparr>jobs := js\<rparr>) \<and>
        \<not> busy (spec_mode spec) now js"
      using anchored_tick(2) [OF two spec] Cons.prems(1) ticks by auto
    ultimately show ?thesis using 0 tick ticks one two by simp
  qed
qed simp

text \<open>The first pass runs a schedule only when its row was due before.\<close>

lemma anchored_first:
  assumes spec: "spec \<in> set (scheduleSpecs config)" "spec_enabled spec" "anchored spec"
    and "now < nextAnchoredRun zone now (atHour spec) (intervalHours spec)"
    and "list_all (\<lambda>(fired, err). err = None) (daemon_ticks zone uuid payload config ((now, js) # ticks) db)"
    and "\<not> due_row (spec_mode spec) now db"
  shows "spec_mode spec \<notin> set (fst (daemon_ticks zone uuid payload config ((now, js) # ticks) db ! 0))"
proof -
  obtain db1 fired where one: "runDueSchedules zone uuid payload config now (db\<lparr>jobs := js\<rparr>) = (db1, fired, None)"
    using assms(5) by (auto split: prod.splits)
  with anchored_tick(2) [OF one spec assms(4)] assms(6) show ?thesis by simp
qed

section \<open>Properties\<close>



lemma slow_run:
  fixes now tz h :: int
  assumes zone: "zone = (\<lambda>_. tz)" and h: "0 \<le> h" "h \<le> 23" and now: "0 \<le> now" "now \<le> 2 ^ 62"
    and hours: "\<not> float_less hours (Fin False 24)"
    and days: "2 \<le> float_to_int64 (float_div hours (Fin False 24))" "float_to_int64 (float_div hours (Fin False 24)) \<le> 10 ^ 6"
  shows "now + day_ms < nextAnchoredRun zone now h hours"
proof -
  define d where "d = float_to_int64 (float_div hours (Fin False 24))"
  note base = next_hour(1,2) [OF zone h, of now]
  have d: "2 \<le> d" "d \<le> 1000000" using days by (simp_all add: d_def)
  have w: "wrap64 ((d - 1) * 24) = (d - 1) * 24" "wrap64 ((d - 1) * 24 * 3600000) = (d - 1) * 24 * 3600000"
    using d by (intro wrap64_small; simp)+
  have sum: "wrap64 (nextOccurrenceOfHour zone now h + (d - 1) * 24 * 3600000) =
      nextOccurrenceOfHour zone now h + (d - 1) * 24 * 3600000"
    using base now d by (intro wrap64_small) (simp_all add: day_ms_def)
  have "nextAnchoredRun zone now h hours =
      wrap64 (nextOccurrenceOfHour zone now h + wrap64 (wrap64 ((d - 1) * 24) * 3600000))"
    using hours d by (simp add: nextAnchoredRun_def Let_def d_def)
  also have "\<dots> = nextOccurrenceOfHour zone now h + (d - 1) * 24 * 3600000" by (simp only: w sum)
  finally have "nextAnchoredRun zone now h hours = nextOccurrenceOfHour zone now h + (d - 1) * 24 * 3600000" .
  then show ?thesis using base d by (simp add: day_ms_def)
qed

text \<open>
  C35. A wall-clock schedule of two days or more never runs: each pass moves its row, which
  is not due yet, to the occurrence that many days after itself, so no row comes due as
  long as passes are at most a day apart (the daemon makes one every thirty seconds).
\<close>

theorem slow_anchor_never_runs:
  assumes zone: "zone = (\<lambda>_. tz)"
    and spec: "spec \<in> set (scheduleSpecs config)" "spec_enabled spec" "anchored spec"
    and hours: "\<not> float_less (intervalHours spec) (Fin False 24)"
      "2 \<le> float_to_int64 (float_div (intervalHours spec) (Fin False 24))"
      "float_to_int64 (float_div (intervalHours spec) (Fin False 24)) \<le> 10 ^ 6"
    and times: "\<forall>(now, js) \<in> set ticks. 0 \<le> now \<and> now \<le> 2 ^ 62"
    and gaps: "\<forall>i. Suc i < length ticks \<longrightarrow> fst (ticks ! Suc i) \<le> fst (ticks ! i) + 86400000"
    and ok: "list_all (\<lambda>(fired, err). err = None) (daemon_ticks zone uuid payload config ticks db)"
    and start: "ticks = [] \<or> \<not> due_row (spec_mode spec) (fst (hd ticks)) db"
  shows "\<forall>(fired, err) \<in> set (daemon_ticks zone uuid payload config ticks db). spec_mode spec \<notin> set fired"
proof -
  have h: "0 \<le> atHour spec" "atHour spec \<le> 23" using spec(3) by (simp_all add: anchored_def)
  have slow: "t + day_ms < nextAnchoredRun zone t (atHour spec) (intervalHours spec)"
    if "(t, js) \<in> set ticks" for t js
    using slow_run [OF zone h _ _ hours] times that by auto
  then have later: "t < nextAnchoredRun zone t (atHour spec) (intervalHours spec)"
    if "(t, js) \<in> set ticks" for t js
    using that by (fastforce simp: day_ms_def)
  have "spec_mode spec \<notin> set (fst (daemon_ticks zone uuid payload config ticks db ! i))" if i: "i < length ticks" for i
  proof (cases i)
    case 0
    with i obtain t js rest where ticks: "ticks = (t, js) # rest" by (cases ticks) auto
    with start have "\<not> due_row (spec_mode spec) t db" by simp
    then have "spec_mode spec \<notin> set (fst (daemon_ticks zone uuid payload config ((t, js) # rest) db ! 0))"
      using later ok ticks by (intro anchored_first [OF spec]) (auto simp del: daemon_ticks.simps)
    with 0 ticks show ?thesis by simp
  next
    case (Suc j)
    with i have j: "Suc j < length ticks" by simp
    obtain s js' now js where at: "ticks ! j = (s, js')" "ticks ! Suc j = (now, js)" by fastforce
    have "(s, js') \<in> set ticks" using at(1) j by (metis Suc_lessD nth_mem)
    moreover have "now \<le> s + day_ms" using gaps j at by (fastforce simp: day_ms_def)
    ultimately have "\<not> nextAnchoredRun zone s (atHour spec) (intervalHours spec) \<le> now" using slow by fastforce
    with Suc anchored_ticks [OF spec later ok j at] show ?thesis by simp
  qed
  then show ?thesis by (simp add: all_set_conv_all_nth case_prod_beta)
qed

text \<open>
  C36. The daemon may retire when it says so: with every schedule off and, when automatic
  tasks are on, no pending model update and no unsynced play, a tick at whatever time
  enqueues nothing, fails on nothing and leaves the sidecar as it is.
\<close>

theorem retired_daemon_misses_nothing:
  assumes "schedulerStayAlive parse db = Inr False"
  shows "schedulerTick parse zone uuid payload now db = (db, [], None)"
proof -
  obtain cfg where cfg: "sidecarConfig parse (daemon_config db) = Inr cfg"
    and off: "\<not> anyScheduleEnabled (jget cfg ''config'')"
    and auto: "truthy (jget (jget cfg ''config'') ''auto_tasks_enabled'') \<Longrightarrow>
      \<not> pending (model_updates db) \<and> \<not> unsynced (playWatermarkFn (jobs db) (daemon_sessions db))"
    using assms by (auto simp: schedulerStayAlive_def and_then_Inr_iff Let_def)
  have "list_all (\<lambda>s. \<not> spec_enabled s) specs \<Longrightarrow> run_schedules zone uuid payload now specs (db, []) = (db, [], None)"
    for specs by (induction specs) (simp_all add: run_schedule_def)
  then have "runDueSchedules zone uuid payload (jget cfg ''config'') now db = (db, [], None)"
    using off by (simp add: runDueSchedules_def anyScheduleEnabled_def list_ex_iff list_all_iff)
  with cfg auto show ?thesis
    by (simp add: schedulerTick_def Let_def update_ready_def modelUpdateReady_def play_task_def)
qed

section \<open>Witnesses\<close>

definition backup_config :: "string \<Rightarrow> jVal" where
  "backup_config hours = JObj [(''schedule_backup_enabled'', JBool True),
     (''schedule_backup_interval_hours'', JNum hours), (''schedule_backup_at_hour'', JNum ''4'')]"

definition new_daemon :: scheduler_db where
  "new_daemon = \<lparr>jobs = [], model_updates = initial_update_state, scheduled_tasks = [],
     daemon_config = Some \<lparr>config_json = ''{}'', updated_at_ms = 0\<rparr>, daemon_sessions = []\<rparr>"

lemma backup_spec:
  "schedule_of (backup_config hours) ''backup'' ''backup'' \<in> set (scheduleSpecs (backup_config hours))"
  by (simp add: scheduleSpecs_def)


lemma backup_slow:
  "schedule_of (backup_config ''48'') ''backup'' ''backup'' =
     \<lparr>spec_mode = ''backup'', spec_enabled = True, intervalHours = Fin False 48, atHour = 4\<rparr>"
  by code_simp

lemma backup_pass:
  "runDueSchedules zone uuid payload (backup_config hours) now db =
     run_schedule zone uuid payload now (schedule_of (backup_config hours) ''backup'' ''backup'') (db, [])"
proof -
  have "\<not> spec_enabled (schedule_of (backup_config hours) ''sync-build'' ''sync_build'')"
    "\<not> spec_enabled (schedule_of (backup_config hours) ''expand-refresh'' ''expand_refresh'')"
    by (simp_all add: schedule_of_def backup_config_def jget_def)
  then show ?thesis
    by (auto simp: runDueSchedules_def scheduleSpecs_def run_schedule_def [of _ _ _ _ "schedule_of _ ''sync-build'' _"]
        run_schedule_def [of _ _ _ _ "schedule_of _ ''expand-refresh'' _"] split: prod.splits option.splits)
qed

lemma first_pass:
  "run_schedule (\<lambda>_. 3600000) uuid payload 0
     \<lparr>spec_mode = ''backup'', spec_enabled = True, intervalHours = hours, atHour = 4\<rparr> (new_daemon\<lparr>jobs := []\<rparr>, []) =
   (new_daemon\<lparr>scheduled_tasks := [\<lparr>task_type = ''backup'',
      next_run_at_ms = Some (nextAnchoredRun (\<lambda>_. 3600000) 0 4 hours), last_run_at_ms = None\<rparr>]\<rparr>, [], None)"
  if "0 \<le> nextAnchoredRun (\<lambda>_. 3600000) 0 4 hours"
  using that
  by (simp add: run_schedule_def new_daemon_def lookup_row_def seed_schedule_def insert_row_def task_check_def
      nextRunFor_def anchored_def)

text \<open>Every later pass over that row succeeds.\<close>

definition only_backup :: "scheduler_db \<Rightarrow> bool" where
  "only_backup db \<longleftrightarrow> (\<exists>row. scheduled_tasks db = [row] \<and> task_type row = ''backup'' \<and> task_check row)"

lemma later_pass:
  assumes "only_backup db" and "0 \<le> now" and "0 \<le> nextAnchoredRun (\<lambda>_. 3600000) now 4 hours"
  shows "\<exists>db' fired. run_schedule (\<lambda>_. 3600000) uuid payload now
      \<lparr>spec_mode = ''backup'', spec_enabled = True, intervalHours = hours, atHour = 4\<rparr> (db\<lparr>jobs := []\<rparr>, []) =
    (db', fired, None) \<and> only_backup db'"
proof -
  obtain row where row: "scheduled_tasks db = [row]" "task_type row = ''backup''" "task_check row"
    using assms(1) by (auto simp: only_backup_def)
  show ?thesis
  proof (cases "due now (next_run_at_ms row)")
    case True
    with row assms show ?thesis
      by (simp add: run_schedule_def lookup_row_def rephase_def enqueueAutoTask_def insert_row_def job_check_def
          new_job_def set_task_def update_checked_def update_where_def task_check_def nextRunFor_def anchored_def
          only_backup_def Let_def split: option.splits)
  next
    case False
    then have "\<not> due now (Some (nextAnchoredRun (\<lambda>_. 3600000) now 4 hours)) \<or>
        due now (Some (nextAnchoredRun (\<lambda>_. 3600000) now 4 hours))" by blast
    with row assms False show ?thesis
      by (auto simp: run_schedule_def lookup_row_def rephase_def enqueueAutoTask_def insert_row_def job_check_def
          new_job_def set_task_def update_checked_def update_where_def task_check_def nextRunFor_def anchored_def
          only_backup_def Let_def split: option.splits)
  qed
qed

lemma backup_ticks_ok:
  assumes spec: "schedule_of (backup_config h) ''backup'' ''backup'' =
      \<lparr>spec_mode = ''backup'', spec_enabled = True, intervalHours = hours, atHour = 4\<rparr>"
    and "\<forall>(now, js) \<in> set ticks. js = [] \<and> 0 \<le> now \<and> 0 \<le> nextAnchoredRun (\<lambda>_. 3600000) now 4 hours"
    and "only_backup db"
  shows "list_all (\<lambda>(fired, err). err = None)
    (daemon_ticks (\<lambda>_. 3600000) (\<lambda>m. m) (JObj []) (backup_config h) ticks db)"
  using assms(2,3)
proof (induction ticks arbitrary: db)
  case (Cons tick ticks)
  obtain now where tick: "tick = (now, [])" "0 \<le> now" "0 \<le> nextAnchoredRun (\<lambda>_. 3600000) now 4 hours"
    using Cons.prems(1) by (cases tick) auto
  obtain db' fired where pass: "run_schedule (\<lambda>_. 3600000) (\<lambda>m. m) (JObj []) now
      \<lparr>spec_mode = ''backup'', spec_enabled = True, intervalHours = hours, atHour = 4\<rparr> (db\<lparr>jobs := []\<rparr>, []) =
    (db', fired, None)" and "only_backup db'"
    using later_pass [OF Cons.prems(2) tick(2,3)] by blast
  with Cons.IH [of db'] Cons.prems tick(1) show ?case by (simp add: backup_pass spec)
qed simp

lemma first_tick_ok:
  assumes spec: "schedule_of (backup_config h) ''backup'' ''backup'' =
      \<lparr>spec_mode = ''backup'', spec_enabled = True, intervalHours = hours, atHour = 4\<rparr>"
    and "0 \<le> nextAnchoredRun (\<lambda>_. 3600000) 0 4 hours"
    and "\<forall>(now, js) \<in> set ticks. js = [] \<and> 0 \<le> now \<and> 0 \<le> nextAnchoredRun (\<lambda>_. 3600000) now 4 hours"
  shows "list_all (\<lambda>(fired, err). err = None)
    (daemon_ticks (\<lambda>_. 3600000) (\<lambda>m. m) (JObj []) (backup_config h) ((0, []) # ticks) new_daemon)"
  using backup_ticks_ok [OF spec assms(3)] assms(2)
  by (simp add: backup_pass spec first_pass only_backup_def task_check_def)



lemma slow_anchor_at: "0 \<le> now \<Longrightarrow> now \<le> 2 ^ 62 \<Longrightarrow> 0 \<le> nextAnchoredRun (\<lambda>_. 3600000) now 4 (Fin False 48)"
  "\<not> float_less (Fin False 48) (Fin False 24)" "float_to_int64 (float_div (Fin False 48) (Fin False 24)) = 2"
proof -
  show less: "\<not> float_less (Fin False 48) (Fin False 24)" by code_simp
  show two: "float_to_int64 (float_div (Fin False 48) (Fin False 24)) = 2" by code_simp
  show "0 \<le> nextAnchoredRun (\<lambda>_. 3600000) now 4 (Fin False 48)" if "0 \<le> now" "now \<le> 2 ^ 62"
    using slow_run [OF refl, of 4 now "Fin False 48" 3600000] less two that by (simp add: day_ms_def)
qed

theorem slow_anchor_never_runs_witness:
  "list_all (\<lambda>(fired, err). ''backup'' \<notin> set fired) (daemon_ticks (\<lambda>_. 3600000) (\<lambda>m. m) (JObj [])
     (backup_config ''48'') [(0, []), (80000000, []), (160000000, []), (240000000, [])] new_daemon)"
proof -
  let ?ticks = "[(0, []), (80000000, []), (160000000, []), (240000000, [])] :: (int \<times> job list) list"
  have "list_all (\<lambda>(fired, err). err = None) (daemon_ticks (\<lambda>_. 3600000) (\<lambda>m. m) (JObj [])
      (backup_config ''48'') ?ticks new_daemon)"
    using slow_anchor_at(1) by (intro first_tick_ok [OF backup_slow]) simp_all
  moreover have "\<forall>i. Suc i < length ?ticks \<longrightarrow> fst (?ticks ! Suc i) \<le> fst (?ticks ! i) + 86400000"
    by (auto simp: less_Suc_eq nth_Cons split: nat.splits)
  moreover have "task_row ''backup'' new_daemon = None" by (simp add: new_daemon_def lookup_row_def)
  ultimately have "\<forall>x \<in> set (daemon_ticks (\<lambda>_. 3600000) (\<lambda>m. m) (JObj []) (backup_config ''48'') ?ticks new_daemon).
      case x of (fired, err) \<Rightarrow> ''backup'' \<notin> set fired"
    using slow_anchor_never_runs [OF refl backup_spec [of "''48''", unfolded backup_slow], of
        ?ticks 3600000 "\<lambda>m. m" "JObj []" new_daemon] slow_anchor_at(2,3)
    by (simp del: daemon_ticks.simps float_div.simps float_less.simps float_to_int64.simps add: anchored_def)
  then show ?thesis unfolding list_all_iff .
qed

text \<open>A new daemon without settings may retire.\<close>

lemma default_config_off:
  "mergeObjects defaultPluginConfig (JObj []) = defaultPluginConfig"
  "\<not> anyScheduleEnabled defaultPluginConfig" 
  "\<not> truthy (jget defaultPluginConfig ''auto_tasks_enabled'')"
  by (code_simp, simp add: anyScheduleEnabled_def scheduleSpecs_def schedule_of_def defaultPluginConfig_def jget_JObj,
      code_simp)

theorem retired_daemon_misses_nothing_witness:
  "schedulerTick (\<lambda>s. Inr (JObj [])) (\<lambda>_. 0) (\<lambda>m. m) (JObj []) 99 new_daemon = (new_daemon, [], None)"
proof -
  have "schedulerStayAlive (\<lambda>s. Inr (JObj [])) new_daemon = Inr False"
    using default_config_off
    by (simp add: schedulerStayAlive_def sidecarConfig_def new_daemon_def jget_JObj Let_def playWatermarkFn_def
        latest_def pending_def initial_update_state_def)
  then show ?thesis by (rule retired_daemon_misses_nothing)
qed

end
