(* ===== verification/Entity_Hooks.thy ===== *)
theory Entity_Hooks
  imports Sync_Runs Model_Updates
begin

text \<open>
  Stash's entity hooks (\<open>core/entity_hook.go\<close>), which record a changed entity and request a
  model update, the targeted sync of one entity (\<open>upsertEntity\<close> and \<open>deleteEntity\<close> of
  \<open>core/syncclient.go\<close>), and the drain that applies the recorded changes before a model
  build (\<open>drainPendingEntityChanges\<close> of \<open>core/tasks.go\<close>). Other processes record hooks
  while the drain fetches: those are an argument.
\<close>

section \<open>State\<close>

record hook_db =
  hk_sync :: sync_db
  hk_pending :: "(string \<times> string) list"
  hk_update :: model_update_state

definition change_check :: "entity_change \<Rightarrow> bool" where
  "change_check c \<longleftrightarrow> ec_type c \<in> {''tag'', ''studio'', ''performer'', ''scene''} \<and>
     ec_operation c \<in> {''upsert'', ''delete''} \<and> 0 \<le> ec_created_at_ms c"

section \<open>The hook\<close>

definition hookEntityTypes :: "(string \<times> string) list" where
  "hookEntityTypes =
    [(''Scene.Create.Post'', ''scene''), (''Scene.Update.Post'', ''scene''), (''Scene.Destroy.Post'', ''scene''),
     (''Performer.Create.Post'', ''performer''), (''Performer.Update.Post'', ''performer''),
     (''Performer.Destroy.Post'', ''performer''),
     (''Studio.Create.Post'', ''studio''), (''Studio.Update.Post'', ''studio''), (''Studio.Destroy.Post'', ''studio''),
     (''Tag.Create.Post'', ''tag''), (''Tag.Update.Post'', ''tag''), (''Tag.Destroy.Post'', ''tag'')]"

text \<open>What a hook records: the change, and the fresh revision of a queued scene.\<close>

record entity_hook =
  hook_change :: entity_change
  hook_revision :: string

text \<open>The index of scene matches shares its rows with the mirror; a hook touches its queue only.\<close>

definition queue_match :: "string \<Rightarrow> string \<Rightarrow> hook_db \<Rightarrow> hook_db" where
  "queue_match sid revision db =
     db\<lparr>hk_pending := match_pending (queueLocalSceneMatch sid revision
       \<lparr>match_rows = local_matches (source (hk_sync db)), match_pending = hk_pending db,
        match_ready = matches_ready (hk_sync db)\<rparr>)\<rparr>"

definition record_hook :: "entity_hook \<Rightarrow> hook_db \<Rightarrow> hook_db res" where
  "record_hook h db =
     (let c = hook_change h in
      and_then (upsert_checked change_key change_check
          (\<lambda>old new. old\<lparr>ec_operation := ec_operation new, ec_created_at_ms := ec_created_at_ms new\<rparr>)
          c (changes (hk_sync db))) (\<lambda>rows.
        let db1 = db\<lparr>hk_sync := (hk_sync db)\<lparr>changes := rows\<rparr>\<rparr>;
            db2 = (if ec_type c = ''scene'' then queue_match (ec_id c) (hook_revision h) db1 else db1)
        in and_then (coordinatorRequest ''entity_hook'' (ec_created_at_ms c) (hk_update db2))
             (\<lambda>u. Inr (db2\<lparr>hk_update := u\<rparr>))))"

definition neutralHookResult :: "string \<Rightarrow> jVal" where
  "neutralHookResult message = JObj [(''handled'', JBool False), (''reason'', JStr (take 500 message))]"

text \<open>The hook that a context stands for, or the answer to a context that stands for none.\<close>

definition hook_of :: "jVal \<Rightarrow> int \<Rightarrow> string \<Rightarrow> jVal + entity_hook" where
  "hook_of payload now revision =
     (let hookContext = jget (jget payload ''args'') ''hookContext'' in
      if \<not> is_obj hookContext
      then Inl (JObj [(''handled'', JBool False), (''reason'', JStr ''missing hookContext'')])
      else let hookType = pythonStrOrEmpty (jget hookContext ''type'') in
        case map_of hookEntityTypes hookType of
          None \<Rightarrow> Inl (JObj [(''handled'', JBool False), (''hook_type'', JStr hookType)])
        | Some ty \<Rightarrow>
            let i = pythonStrOrEmpty (jget hookContext ''id'') in
            if i = [] then Inl (JObj [(''handled'', JBool False), (''hook_type'', JStr hookType),
                                      (''reason'', JStr ''missing entity id'')])
            else Inr \<lparr>hook_change = \<lparr>ec_type = ty, ec_id = i,
                   ec_operation = (if has_suffix hookType ''.Destroy.Post'' then ''delete'' else ''upsert''),
                   ec_created_at_ms = now\<rparr>,
                 hook_revision = revision\<rparr>)"

text \<open>\<open>opened\<close> is the error of opening the sidecar, if any.\<close>

definition runEntityHook :: "string option \<Rightarrow> jVal \<Rightarrow> int \<Rightarrow> string \<Rightarrow> hook_db \<Rightarrow> hook_db \<times> jVal" where
  "runEntityHook opened payload now revision db =
     (case hook_of payload now revision of
        Inl answer \<Rightarrow> (db, answer)
      | Inr h \<Rightarrow>
          (case opened of
             Some e \<Rightarrow> (db, neutralHookResult e)
           | None \<Rightarrow>
               (case record_hook h db of
                  Inl e \<Rightarrow> (db, neutralHookResult (error_text e))
                | Inr db' \<Rightarrow> (db', JObj [(''handled'', JBool True),
                    (''hook_type'', JStr (pythonStrOrEmpty (jget (jget (jget payload ''args'') ''hookContext'') ''type''))),
                    (''entity_type'', JStr (ec_type (hook_change h))), (''entity_id'', JStr (ec_id (hook_change h))),
                    (''enqueued'', JBool True)]))))"

section \<open>The targeted sync\<close>

text \<open>The query and the root field of an entity type.\<close>

definition syncFindDocuments :: "(string \<times> string) list" where
  "syncFindDocuments = [(''tag'', ''CuratorFindTag''), (''studio'', ''CuratorFindStudio''),
     (''performer'', ''CuratorFindPerformer''), (''scene'', ''CuratorFindScene'')]"

definition syncFindRoots :: "(string \<times> string) list" where
  "syncFindRoots = [(''tag'', ''findTag''), (''studio'', ''findStudio''), (''performer'', ''findPerformer''),
     (''scene'', ''findScene'')]"

definition find_root :: "string \<Rightarrow> string" where
  "find_root ty = (case map_of syncFindRoots ty of Some r \<Rightarrow> r | None \<Rightarrow> [])"

definition syncEntityItemsKey :: "string \<Rightarrow> string" where
  "syncEntityItemsKey ty =
     (if ty = ''tag'' then ''tags'' else if ty = ''studio'' then ''studios''
      else if ty = ''performer'' then ''performers'' else if ty = ''scene'' then ''scenes'' else [])"

definition upsertEntity :: "syncService \<Rightarrow> string \<Rightarrow> string \<Rightarrow> sync_db \<Rightarrow> sync_db \<times> bool res" where
  "upsertEntity sv ty i db =
     (case map_of syncFindDocuments ty of
        None \<Rightarrow> (db, Inl (Msg (''unsupported entity type: '' @ ty)))
      | Some document \<Rightarrow>
          (case sv_gql sv document (JObj [(''id'', JStr i)]) of
             Inl e \<Rightarrow> (db, Inl e)
           | Inr data \<Rightarrow>
               let root = jget data (find_root ty) in
               if \<not> is_obj root then (db, Inl (Msg (''Stash did not return '' @ find_root ty)))
               else (case adaptSyncEntity (syncEntityItemsKey ty) root of
                  None \<Rightarrow> (db, Inl (Panic ''nil entity''))
                | Some entity \<Rightarrow>
                    (case upsert_entity (sv_sha sv) entity db of
                       Inl e \<Rightarrow> (db, Inl e)
                     | Inr (changed, db1) \<Rightarrow>
                         if ty = ''scene'' then
                           (case write_matches (sv_endpoint sv) [root] db1 of
                              Inl e \<Rightarrow> (db1, Inl e)
                            | Inr db2 \<Rightarrow> (db2, Inr changed))
                         else (db1, Inr changed)))))"

definition deleteEntity :: "string \<Rightarrow> string \<Rightarrow> sync_db \<Rightarrow> sync_db res" where
  "deleteEntity ty i db =
     (if map_of syncFindDocuments ty = None then Inl (Msg (''unsupported entity type: '' @ ty))
      else deleteEntities ty [i] db)"

section \<open>The drain\<close>

definition apply_change :: "syncService \<Rightarrow> entity_change \<Rightarrow> sync_db \<Rightarrow> sync_db \<times> go_error option" where
  "apply_change sv c db =
     (if ec_operation c = ''delete''
      then (case deleteEntity (ec_type c) (ec_id c) db of Inl e \<Rightarrow> (db, Some e) | Inr db' \<Rightarrow> (db', None))
      else (case upsertEntity sv (ec_type c) (ec_id c) db of (db', Inl e) \<Rightarrow> (db', Some e) | (db', Inr _) \<Rightarrow> (db', None)))"

definition vanished :: "go_error \<Rightarrow> bool" where
  "vanished e \<longleftrightarrow> str_contains (error_text e) ''did not return''"

text \<open>A hook that fails records nothing.\<close>

definition late_hooks :: "entity_hook list \<Rightarrow> hook_db \<Rightarrow> hook_db" where
  "late_hooks hs db = fold (\<lambda>h db. case record_hook h db of Inr db' \<Rightarrow> db' | Inl e \<Rightarrow> db) hs db"

text \<open>
  The loop over the changes read at the start; \<open>late\<close> lists the hooks that come before
  each change is applied, and then those before the transaction that drops the applied ones.
\<close>

fun drain_changes ::
    "syncService \<Rightarrow> entity_hook list list \<Rightarrow> entity_change list \<Rightarrow> hook_db \<times> entity_change list \<times> int
       \<Rightarrow> hook_db \<times> entity_change list \<times> int" where
  "drain_changes sv late [] (db, dropped, drained) = (late_hooks (concat late) db, dropped, drained)"
| "drain_changes sv late (c # cs) (db, dropped, drained) =
     (let db1 = late_hooks (case late of [] \<Rightarrow> [] | h # hs \<Rightarrow> h) db;
          (s, err) = apply_change sv c (hk_sync db1); db2 = db1\<lparr>hk_sync := s\<rparr>
      in drain_changes sv (drop 1 late) cs
           (case err of
              None \<Rightarrow> (db2, dropped @ [c], drained + 1)
            | Some e \<Rightarrow> (db2, if vanished e then dropped @ [c] else dropped, drained)))"

definition drop_changes :: "entity_change list \<Rightarrow> sync_db \<Rightarrow> sync_db" where
  "drop_changes dropped db = db\<lparr>changes := delete_where (\<lambda>c. change_key c \<in> change_key ` set dropped) (changes db)\<rparr>"

text \<open>
  The table has no row ids, so a scan goes by its key. The transaction that drops the rows
  is taken to succeed.
\<close>

definition drainPendingEntityChanges :: "syncService \<Rightarrow> entity_hook list list \<Rightarrow> hook_db \<Rightarrow> hook_db \<times> int" where
  "drainPendingEntityChanges sv late db =
     (let pending = sort_key ec_created_at_ms (sort_key change_key (changes (hk_sync db))) in
      if pending = [] then (db, 0)
      else (case drain_changes sv late pending (db, [], 0) of
         (db1, dropped, drained) \<Rightarrow> (db1\<lparr>hk_sync := drop_changes dropped (hk_sync db1)\<rparr>, drained)))"

section \<open>The queue of changes\<close>

lemma record_hook_effect:
  assumes "record_hook h db = Inr db'"
  shows "lookup_row change_key k (changes (hk_sync db')) =
      (if k = change_key (hook_change h) then Some (hook_change h) else lookup_row change_key k (changes (hk_sync db)))"
    and "unique_key change_key (changes (hk_sync db)) \<Longrightarrow> unique_key change_key (changes (hk_sync db'))"
    and "requested_generation (hk_update db') = requested_generation (hk_update db) + 1"
    and "source (hk_sync db') = source (hk_sync db)"
proof -
  let ?m = "\<lambda>old new. old\<lparr>ec_operation := ec_operation new, ec_created_at_ms := ec_created_at_ms new\<rparr>"
  let ?c = "hook_change h"
  have rows: "changes (hk_sync db') = upsert_row change_key ?m ?c (changes (hk_sync db))"
    and gen: "requested_generation (hk_update db') = requested_generation (hk_update db) + 1"
    and src: "source (hk_sync db') = source (hk_sync db)"
    using assms by (auto simp: record_hook_def Let_def and_then_Inr_iff upsert_checked_Inr coordinatorRequest_def
        queue_match_def split: if_splits)
  show "requested_generation (hk_update db') = requested_generation (hk_update db) + 1"
    and "source (hk_sync db') = source (hk_sync db)" by (fact gen) (fact src)
  have key: "change_key x = change_key ?c \<Longrightarrow> change_key (?m x ?c) = change_key ?c" for x
    by (simp add: change_key_def)
  have same: "change_key x = change_key ?c \<Longrightarrow> ?m x ?c = ?c" for x
    by (cases x; cases ?c) (simp add: change_key_def)
  show "lookup_row change_key k (changes (hk_sync db')) =
      (if k = change_key ?c then Some ?c else lookup_row change_key k (changes (hk_sync db)))"
    using lookup_upsert [of change_key ?c ?m k "changes (hk_sync db)", OF key] same
    by (auto simp: rows dest: lookup_row_Some split: option.splits)
  show "unique_key change_key (changes (hk_sync db))  \<Longrightarrow> unique_key change_key (changes (hk_sync db'))"
    using unique_key_upsert [of change_key "changes (hk_sync db)" ?c ?m, OF _ key] by (simp add: rows)
qed

text \<open>Hooks with the types that \<open>hookEntityTypes\<close> lists always succeed.\<close>

lemma record_hook_total:
  assumes "change_check (hook_change h)"
  shows "\<exists>db'. record_hook h db = Inr db'"
proof -
  have "change_check (x\<lparr>ec_operation := ec_operation (hook_change h), ec_created_at_ms := ec_created_at_ms (hook_change h)\<rparr>)"
    if "change_key x = change_key (hook_change h)" for x
    using assms that by (simp add: change_check_def change_key_def)
  then have "list_all (\<lambda>x. change_key x = change_key (hook_change h) \<longrightarrow> change_check
      (x\<lparr>ec_operation := ec_operation (hook_change h), ec_created_at_ms := ec_created_at_ms (hook_change h)\<rparr>))
      (changes (hk_sync db))"
    by (simp add: list_all_iff)
  with assms show ?thesis
    by (simp add: record_hook_def Let_def upsert_checked_def coordinatorRequest_def)
qed

lemma late_hooks_effect:
  assumes "\<forall>h \<in> set hs. change_check (hook_change h)"
  shows "lookup_row change_key k (changes (hk_sync (late_hooks hs db))) =
      (case find (\<lambda>h. change_key (hook_change h) = k) (rev hs) of
         Some h \<Rightarrow> Some (hook_change h) | None \<Rightarrow> lookup_row change_key k (changes (hk_sync db))) \<and>
    (unique_key change_key (changes (hk_sync db)) \<longrightarrow> unique_key change_key (changes (hk_sync (late_hooks hs db)))) \<and>
    requested_generation (hk_update (late_hooks hs db)) = requested_generation (hk_update db) + int (length hs) \<and>
    source (hk_sync (late_hooks hs db)) = source (hk_sync db)"
  using assms
proof (induction hs rule: rev_induct)
  case (snoc h hs)
  obtain db' where db': "record_hook h (late_hooks hs db) = Inr db'"
    using record_hook_total snoc.prems by fastforce
  then have "late_hooks (hs @ [h]) db = db'" by (simp add: late_hooks_def)
  with snoc record_hook_effect [OF db'] show ?case by (auto simp: late_hooks_def)
qed (simp add: late_hooks_def)

section \<open>Properties\<close>

text \<open>A sequence of hook processes, each with its payload, its clock and the revision it draws.\<close>

definition run_hooks :: "(jVal \<times> int \<times> string) list \<Rightarrow> hook_db \<Rightarrow> hook_db" where
  "run_hooks calls db = fold (\<lambda>(payload, now, revision) db. fst (runEntityHook None payload now revision db)) calls db"

definition hooks_of :: "(jVal \<times> int \<times> string) list \<Rightarrow> entity_hook list" where
  "hooks_of calls = List.map_filter (\<lambda>(payload, now, revision).
     case hook_of payload now revision of Inl _ \<Rightarrow> None | Inr h \<Rightarrow> Some h) calls"

lemma hook_types: "map_of hookEntityTypes t = Some ty \<Longrightarrow> ty \<in> {''tag'', ''studio'', ''performer'', ''scene''}"
  by (drule map_of_SomeD) (auto simp: hookEntityTypes_def)

lemma hook_of_check: "hook_of payload now revision = Inr h \<Longrightarrow> 0 \<le> now \<Longrightarrow> change_check (hook_change h)"
  by (auto simp: hook_of_def Let_def change_check_def dest: hook_types split: if_splits option.splits)

lemma run_hooks_late:
  assumes "\<forall>(payload, now, revision) \<in> set calls. 0 \<le> now"
  shows "run_hooks calls db = late_hooks (hooks_of calls) db \<and> (\<forall>h \<in> set (hooks_of calls). change_check (hook_change h))"
  using assms
proof (induction calls arbitrary: db)
  case Nil
  show ?case by (simp add: run_hooks_def hooks_of_def late_hooks_def map_filter_simps)
next
  case (Cons call calls)
  obtain payload now revision where call: "call = (payload, now, revision)" by (cases call)
  let ?db1 = "fst (runEntityHook None payload now revision db)"
  have IH: "run_hooks calls ?db1 = late_hooks (hooks_of calls) ?db1"
    "\<forall>h \<in> set (hooks_of calls). change_check (hook_change h)"
    using Cons by auto
  have run: "run_hooks (call # calls) db = run_hooks calls ?db1" by (simp add: run_hooks_def call)
  show ?case
  proof (cases "hook_of payload now revision")
    case (Inl answer)
    then have "hooks_of (call # calls) = hooks_of calls" "?db1 = db"
      by (simp_all add: hooks_of_def call map_filter_simps runEntityHook_def)
    with IH run show ?thesis by simp
  next
    case (Inr h)
    then have check: "change_check (hook_change h)" using hook_of_check Cons.prems call by auto
    obtain db1 where "record_hook h db = Inr db1" using record_hook_total [OF check] by blast
    with Inr have "?db1 = db1" "late_hooks (h # hs) db = late_hooks hs db1" for hs
      by (simp_all add: runEntityHook_def late_hooks_def)
    moreover have "hooks_of (call # calls) = h # hooks_of calls" using Inr by (simp add: hooks_of_def call map_filter_simps)
    ultimately show ?thesis using IH run check by simp
  qed
qed

text \<open>
  C37. Hooks leave one pending change for each entity they name, with the operation and the
  time of the last of them, keep every other pending change, and request one model update
  each, so that an update followed by a destroy is pending as a delete. The mirror is left
  alone.
\<close>

theorem hooks_keep_latest_change:
  assumes "\<forall>(payload, now, revision) \<in> set calls. 0 \<le> now" and "unique_key change_key (changes (hk_sync db))"
  shows "unique_key change_key (changes (hk_sync (run_hooks calls db))) \<and>
    lookup_row change_key k (changes (hk_sync (run_hooks calls db))) =
      (case find (\<lambda>h. change_key (hook_change h) = k) (rev (hooks_of calls)) of
         Some h \<Rightarrow> Some (hook_change h) | None \<Rightarrow> lookup_row change_key k (changes (hk_sync db))) \<and>
    requested_generation (hk_update (run_hooks calls db)) =
      requested_generation (hk_update db) + int (length (hooks_of calls)) \<and>
    source (hk_sync (run_hooks calls db)) = source (hk_sync db)"
proof -
  have late: "run_hooks calls db = late_hooks (hooks_of calls) db"
    and check: "\<forall>h \<in> set (hooks_of calls). change_check (hook_change h)"
    using run_hooks_late [OF assms(1)] by auto
  from late_hooks_effect [OF check, of k db, folded late] assms(2) show ?thesis by blast
qed

lemma apply_change_changes: "apply_change sv c db = (s, err) \<Longrightarrow> changes s = changes db"
  by (auto simp: apply_change_def upsertEntity_def deleteEntity_def deleteEntities_def on_source_def upsert_entity_def
      write_matches_def Let_def and_then_Inr_iff split: if_splits sum.splits option.splits prod.splits)

text \<open>
  C38. A hook that comes while the drain fetches its entity is lost: the drain drops the row
  by its key, newer hook or not, so nothing is pending afterwards, the mirror holds what was
  fetched before the hook, and the model update that the hook requested finds nothing to
  apply.
\<close>

theorem late_hook_lost:
  assumes "changes (hk_sync db) = [row]" and "apply_change sv row (hk_sync db) = (s, None)"
    and "change_key (hook_change h) = change_key row" and "change_check (hook_change h)"
  shows "\<exists>db'. drainPendingEntityChanges sv [[], [h]] db = (db', 1) \<and> changes (hk_sync db') = [] \<and>
    source (hk_sync db') = source s \<and> requested_generation (hk_update db') = requested_generation (hk_update db) + 1"
proof -
  obtain d where d: "record_hook h (db\<lparr>hk_sync := s\<rparr>) = Inr d" using record_hook_total [OF assms(4)] by blast
  have "changes s = [row]" using apply_change_changes [OF assms(2)] assms(1) by simp
  then have "changes (hk_sync d) = [row\<lparr>ec_operation := ec_operation (hook_change h),
      ec_created_at_ms := ec_created_at_ms (hook_change h)\<rparr>]"
    using d assms(3) by (auto simp: record_hook_def Let_def and_then_Inr_iff upsert_checked_Inr upsert_row_def
        update_where_def queue_match_def split: if_splits)
  moreover have "source (hk_sync d) = source s"
    "requested_generation (hk_update d) = requested_generation (hk_update db) + 1"
    using record_hook_effect(3,4) [OF d] by simp_all
  moreover have "drain_changes sv [[], [h]] [row] (db, [], 0) = (d, [row], 1)"
    using assms(2) d by (simp add: late_hooks_def)
  ultimately show ?thesis
    using assms(1) by (simp add: drainPendingEntityChanges_def drop_changes_def delete_where_def change_key_def)
qed

section \<open>Witnesses\<close>

definition tag_payload :: "string \<Rightarrow> jVal" where
  "tag_payload t = JObj [(''args'', JObj [(''hookContext'', JObj [(''type'', JStr t), (''id'', JStr ''7'')])])]"

definition tag_change :: "string \<Rightarrow> int \<Rightarrow> entity_change" where
  "tag_change operation now = \<lparr>ec_type = ''tag'', ec_id = ''7'', ec_operation = operation, ec_created_at_ms = now\<rparr>"

definition hooked :: "entity_change list \<Rightarrow> hook_db" where
  "hooked cs = \<lparr>hk_sync = sample_db\<lparr>changes := cs\<rparr>, hk_pending = [], hk_update = initial_update_state\<rparr>"

lemma tag_hooks:
  "hook_of (tag_payload ''Tag.Update.Post'') now rv = Inr \<lparr>hook_change = tag_change ''upsert'' now, hook_revision = rv\<rparr>"
  "hook_of (tag_payload ''Tag.Destroy.Post'') now rv = Inr \<lparr>hook_change = tag_change ''delete'' now, hook_revision = rv\<rparr>"
  by (simp_all add: hook_of_def tag_payload_def tag_change_def jget_JObj hookEntityTypes_def pythonStrOrEmpty_def
      has_suffix_def)

theorem hooks_keep_latest_change_witness:
  "lookup_row change_key (''tag'', ''7'') (changes (hk_sync (run_hooks
     [(tag_payload ''Tag.Update.Post'', 3, ''a''), (tag_payload ''Tag.Destroy.Post'', 5, ''b'')] (hooked [])))) =
   Some (tag_change ''delete'' 5)"
  using hooks_keep_latest_change [of
      "[(tag_payload ''Tag.Update.Post'', 3, ''a''), (tag_payload ''Tag.Destroy.Post'', 5, ''b'')]"
      "hooked []" "(''tag'', ''7'')"]
  by (simp add: hooks_of_def map_filter_simps tag_hooks hooked_def sample_db_def unique_key_def change_key_def tag_change_def)

text \<open>A tag is destroyed after the drain has fetched it: the delete is lost and the tag stays.\<close>

definition find_service :: syncService where
  "find_service = sample_service\<lparr>sv_gql := (\<lambda>name vars.
     if name = ''CuratorFindTag'' then Inr (JObj [(''findTag'', JObj [(''id'', JStr ''7'')])]) else Inr (JObj []))\<rparr>"

lemma sample_update:
  "apply_change find_service (tag_change ''upsert'' 3) (hk_sync (hooked [tag_change ''upsert'' 3])) =
    (sample_db\<lparr>changes := [tag_change ''upsert'' 3],
       source := empty_source\<lparr>tags := [old_tag, tag_row (\<lambda>x. x) (SyncTag ''7'' None None [] [])]\<rparr>\<rparr>, None)"
  by (simp add: apply_change_def tag_change_def upsertEntity_def syncFindDocuments_def find_service_def sample_service_def
      find_root_def syncFindRoots_def jget_JObj syncEntityItemsKey_def adaptSyncEntity_def adaptSyncTag_def adapt_tag_def
      optionalStringPtr_def adaptSyncStashIDs_def upsert_entity_def syncUpsert_def syncUpsertTag_def run_statements_Cons
      run_statements_Nil statement_defs hooked_def sample_db_def empty_source_def lookup_row_def tag_row_def upsert_row_def
      delete_where_def old_tag_def)

theorem late_hook_lost_witness:
  "\<exists>db'. drainPendingEntityChanges find_service
      [[], [\<lparr>hook_change = tag_change ''delete'' 5, hook_revision = ''b''\<rparr>]] (hooked [tag_change ''upsert'' 3]) = (db', 1) \<and>
    changes (hk_sync db') = [] \<and> map st_id (tags (source (hk_sync db'))) = [''9'', ''7'']"
proof -
  let ?row = "tag_change ''upsert'' 3"
  have "\<exists>db'. drainPendingEntityChanges find_service
      [[], [\<lparr>hook_change = tag_change ''delete'' 5, hook_revision = ''b''\<rparr>]] (hooked [?row]) = (db', 1) \<and>
    changes (hk_sync db') = [] \<and> source (hk_sync db') =
      empty_source\<lparr>tags := [old_tag, tag_row (\<lambda>x. x) (SyncTag ''7'' None None [] [])]\<rparr> \<and>
    requested_generation (hk_update db') = requested_generation (hk_update (hooked [?row])) + 1"
    using late_hook_lost [OF _ sample_update, of "\<lparr>hook_change = tag_change ''delete'' 5, hook_revision = ''b''\<rparr>"]
    by (simp add: hooked_def change_key_def change_check_def tag_change_def)
  then show ?thesis by (auto simp: old_tag_def tag_row_def)
qed

end
