(* ===== verification/Ranking.thy ===== *)
theory Ranking
  imports Go_Floats Json_Values
begin

text \<open>
  What the two ranking loops share: the candidates of the lanes, the rotation keys read off
  their qualifications, the lane pattern of the mixed page, and the constants
  (\<open>core/slate_greedy.go\<close>). A content vector is the list of its entries in the order of one
  iteration over the Go map; Go leaves that order open, and the sums over it can depend on
  it in the last place.
\<close>

section \<open>Constants\<close>

definition rankingPerformerRepeatPenalty :: float64 where "rankingPerformerRepeatPenalty = float_of_rat (6/100)"
definition rankingStudioPenalty :: float64 where "rankingStudioPenalty = float_of_rat (8/100)"
definition rankingContentPenalty :: float64 where "rankingContentPenalty = float_of_rat (14/100)"
definition rankingHistoryPerformerPenalty :: float64 where "rankingHistoryPerformerPenalty = float_of_rat (4/100)"
definition rankingHistoryStudioPenalty :: float64 where "rankingHistoryStudioPenalty = float_of_rat (3/100)"
definition rankingHistoryContentPenalty :: float64 where "rankingHistoryContentPenalty = float_of_rat (5/100)"
definition rankingUncoveredContentBonus :: float64 where "rankingUncoveredContentBonus = float_of_rat (3/100)"

text \<open>
  One card for each dimension, facet and entity: the three rotations use the same number.
\<close>

definition rankingRotation :: nat where "rankingRotation = 1"

definition forYouPattern :: "string list" where
  "forYouPattern =
    [''best_bets'', ''best_bets'', ''revisit'', ''best_bets'', ''stretch'',
     ''new_arrivals'', ''best_bets'', ''stretch'', ''best_bets'', ''revisit'',
     ''best_bets'', ''stretch'', ''best_bets'', ''best_bets'', ''revisit'',
     ''best_bets'', ''stretch'', ''best_bets'', ''blind_spots'', ''dormant'']"

definition familiarPattern :: "string list" where
  "familiarPattern =
    [''best_bets'', ''best_bets'', ''revisit'', ''best_bets'', ''stretch'',
     ''best_bets'', ''best_bets'', ''revisit'', ''best_bets'', ''best_bets'']"

definition adventurousPattern :: "string list" where
  "adventurousPattern =
    [''best_bets'', ''best_bets'', ''revisit'', ''stretch'', ''best_bets'',
     ''stretch'', ''blind_spots'', ''best_bets'', ''stretch'', ''blind_spots'']"

section \<open>Candidates\<close>

record greedyCandidate =
  cd_scene :: string
  cd_lane :: string
  cd_subtype :: string
  cd_value :: float64
  cd_qualification :: jVal
  cd_performers :: "string list"
  cd_studio :: string
  cd_content :: "(string \<times> float64) list"

definition stretchDimension :: "greedyCandidate \<Rightarrow> string" where
  "stretchDimension c =
     (let challenged = jget (cd_qualification c) ''challenged_feature'' in
      if \<not> is_obj challenged then [] else asString (jget challenged ''feature_id''))"

definition blindSpotFacet :: "greedyCandidate \<Rightarrow> string" where
  "blindSpotFacet c =
     (let facets = jget (cd_qualification c) ''dark_facets'' in
      if \<not> is_arr facets \<or> arr_of facets = [] then []
      else let top = hd (arr_of facets) in
        if \<not> is_obj top then [] else asString (jget top ''id''))"

definition dormantEntity :: "greedyCandidate \<Rightarrow> string" where
  "dormantEntity c =
     (let entity = jget (cd_qualification c) ''dormant_entity'' in
      if \<not> is_obj entity then [] else asString (jget entity ''id''))"

text \<open>The distinct keys that are present, sorted.\<close>

definition rotation_keys :: "(greedyCandidate \<Rightarrow> string) \<Rightarrow> greedyCandidate list \<Rightarrow> string list" where
  "rotation_keys key cs = sort (remdups (filter (\<lambda>k. k \<noteq> []) (map key cs)))"

definition stretchDimensions :: "string \<Rightarrow> greedyCandidate list \<Rightarrow> bool \<Rightarrow> string list" where
  "stretchDimensions lane cs enabled =
     (if lane \<noteq> ''stretch'' \<or> \<not> enabled then [] else rotation_keys stretchDimension cs)"

definition blindSpotFacets :: "string \<Rightarrow> greedyCandidate list \<Rightarrow> string list" where
  "blindSpotFacets lane cs = (if lane \<noteq> ''blind_spots'' then [] else rotation_keys blindSpotFacet cs)"

definition dormantEntities :: "string \<Rightarrow> greedyCandidate list \<Rightarrow> string list" where
  "dormantEntities lane cs = (if lane \<noteq> ''dormant'' then [] else rotation_keys dormantEntity cs)"

definition rotate :: "nat \<Rightarrow> string list \<Rightarrow> string" where
  "rotate position ks = ks ! ((position div max 1 rankingRotation) mod length ks)"

definition shares_performer :: "greedyCandidate \<Rightarrow> greedyCandidate \<Rightarrow> bool" where
  "shares_performer a b \<longleftrightarrow> list_ex (\<lambda>p. p \<in> set (cd_performers b)) (cd_performers a)"

section \<open>The lane of a position\<close>

text \<open>\<open>int(math.Round(f))\<close> of a finite float: halves away from zero.\<close>

fun float_round :: "float64 \<Rightarrow> int" where
  "float_round (Fin s m) = (let n = \<lfloor>m + 1/2\<rfloor> in if s then - n else n)"
| "float_round _ = min_int64"

definition float_abs :: "float64 \<Rightarrow> float64" where
  "float_abs x = (if float_less x (Fin False 0) then float_neg x else x)"

text \<open>An index out of range is a panic.\<close>

definition slateTarget :: "string \<Rightarrow> nat \<Rightarrow> float64 \<Rightarrow> string res" where
  "slateTarget lane position exploration =
     (if lane = ''for_you'' then
        let base = forYouPattern;
            alternative = (if float_less (Fin False 0) exploration then adventurousPattern else familiarPattern);
            mixedSlots = float_round (float_mult (float_abs exploration) (float_of_int (int (length base))));
            useAlternative = int ((position * 7) mod length base) < mixedSlots;
            pattern = (if useAlternative then alternative else base);
            i = position mod length base
        in if i < length pattern then Inr (pattern ! i) else Inl (Panic ''index out of range'')
      else Inr lane)"

lemma pattern_lengths [simp]: "length forYouPattern = 20" "length familiarPattern = 10" "length adventurousPattern = 10"
  by (simp_all add: forYouPattern_def familiarPattern_def adventurousPattern_def)

text \<open>Without exploration every position has its lane.\<close>

lemma twenty: "float_of_int 20 = Fin False 20"
  by code_simp

lemma no_mixed_slots: "float_round (float_mult (float_abs (Fin False 0)) (float_of_int 20)) = 0"
proof -
  have "round64 False 0 = Fin False 0"
    using pow2_pos [of 1024] by (simp add: round64_def round_mag_def flip: not_less)
  then show ?thesis unfolding twenty by (simp add: float_abs_def floor_eq_iff)
qed

lemma slateTarget_plain:
  "slateTarget lane position (Fin False 0) =
     Inr (if lane = ''for_you'' then forYouPattern ! (position mod 20) else lane)"
  using no_mixed_slots by (simp add: slateTarget_def Let_def)

end
