(* ===== verification/Lane_Order.thy ===== *)
theory Lane_Order
  imports Ranking
begin

text \<open>
  The published order of a lane (\<open>buildOrdering\<close> of \<open>core/materialize.go\<close>): a greedy
  selection whose utilities drop as performers, studios and content of the selected scenes
  repeat. The code finds the best candidate with heaps that are never cleaned: a changed
  candidate is pushed again under a new version and stale entries are skipped when they
  come up. A heap of package \<open>container/heap\<close> is the list of its entries, of which \<open>Pop\<close>
  takes a least one. Go maps with a default are functions; the sets of keys a loop ranges
  over are lists in some order.
\<close>

type_synonym ckey = "string \<times> string"

definition cd_key :: "greedyCandidate \<Rightarrow> ckey" where
  "cd_key c = (cd_scene c, cd_lane c)"

section \<open>Utilities\<close>

text \<open>\<open>byKey\<close>: the last candidate of a key stands; and its keys.\<close>

definition byKey :: "greedyCandidate list \<Rightarrow> ckey \<Rightarrow> greedyCandidate option" where
  "byKey cs k = map_of (rev (map (\<lambda>c. (cd_key c, c)) cs)) k"

definition order_keys :: "greedyCandidate list \<Rightarrow> ckey list" where
  "order_keys cs = remdups (map cd_key cs)"

definition cand :: "greedyCandidate list \<Rightarrow> ckey \<Rightarrow> greedyCandidate" where
  "cand cs k = the (byKey cs k)"

record penalties =
  utilities :: "ckey \<Rightarrow> float64"
  seenPerformers :: "string set"
  seenStudios :: "string set"
  coveredFeatures :: "string set"
  performerPenalized :: "ckey set"
  studioPenalized :: "ckey set"
  coveredShare :: "ckey \<Rightarrow> float64"

definition start_utility :: "bool \<Rightarrow> greedyCandidate \<Rightarrow> float64" where
  "start_utility varied c =
     (if varied \<and> cd_content c \<noteq> [] then float_add (cd_value c) rankingUncoveredContentBonus else cd_value c)"

definition start_penalties :: "greedyCandidate list \<Rightarrow> bool \<Rightarrow> penalties" where
  "start_penalties cs varied =
     \<lparr>utilities = (\<lambda>k. case byKey cs k of Some c \<Rightarrow> start_utility varied c | None \<Rightarrow> Fin False 0),
      seenPerformers = {}, seenStudios = {}, coveredFeatures = {}, performerPenalized = {}, studioPenalized = {},
      coveredShare = (\<lambda>k. Fin False 0)\<rparr>"

text \<open>The indexes: the keys with a performer, with a studio, and with a feature and its share.\<close>

definition performerIndex :: "greedyCandidate list \<Rightarrow> string \<Rightarrow> ckey list" where
  "performerIndex cs p = filter (\<lambda>k. p \<in> set (cd_performers (cand cs k))) (order_keys cs)"

definition studioIndex :: "greedyCandidate list \<Rightarrow> string \<Rightarrow> ckey list" where
  "studioIndex cs s = filter (\<lambda>k. cd_studio (cand cs k) = s) (order_keys cs)"

definition content_total :: "greedyCandidate \<Rightarrow> float64" where
  "content_total c = fold (\<lambda>(f, v) total. float_add total (float_abs v)) (cd_content c) (Fin False 0)"

definition feature_share :: "greedyCandidate \<Rightarrow> string \<Rightarrow> float64 option" where
  "feature_share c f =
     (if float_less (Fin False 0) (content_total c)
      then map_option (\<lambda>v. float_div (float_abs v) (content_total c)) (map_of (cd_content c) f) else None)"

definition featureIndex :: "greedyCandidate list \<Rightarrow> string \<Rightarrow> (ckey \<times> float64) list" where
  "featureIndex cs f = List.map_filter (\<lambda>k. map_option (\<lambda>share. (k, share)) (feature_share (cand cs k) f)) (order_keys cs)"

text \<open>\<open>(rankingContentPenalty + rankingUncoveredContentBonus) * share\<close>; the constants add exactly.\<close>

definition content_cost :: "float64 \<Rightarrow> float64" where
  "content_cost share = float_mult (float_of_rat (17/100)) share"

definition lower :: "ckey \<Rightarrow> float64 \<Rightarrow> penalties \<Rightarrow> penalties" where
  "lower k x ps = ps\<lparr>utilities := (utilities ps)(k := float_sub (utilities ps k) x)\<rparr>"

text \<open>Each step answers the keys whose utility it changed as well.\<close>

definition penalize_performer_of :: "ckey \<Rightarrow> penalties \<times> ckey list \<Rightarrow> penalties \<times> ckey list" where
  "penalize_performer_of k = (\<lambda>(ps, changed).
     if k \<in> performerPenalized ps then (ps, changed)
     else (lower k rankingPerformerRepeatPenalty (ps\<lparr>performerPenalized := insert k (performerPenalized ps)\<rparr>), k # changed))"

definition penalize_performer :: "greedyCandidate list \<Rightarrow> string \<Rightarrow> penalties \<times> ckey list \<Rightarrow> penalties \<times> ckey list" where
  "penalize_performer cs p = (\<lambda>(ps, changed).
     if p \<in> seenPerformers ps then (ps, changed)
     else fold penalize_performer_of (performerIndex cs p) (ps\<lparr>seenPerformers := insert p (seenPerformers ps)\<rparr>, changed))"

definition penalize_studio_of :: "ckey \<Rightarrow> penalties \<times> ckey list \<Rightarrow> penalties \<times> ckey list" where
  "penalize_studio_of k = (\<lambda>(ps, changed).
     if k \<in> studioPenalized ps then (ps, changed)
     else (lower k rankingStudioPenalty (ps\<lparr>studioPenalized := insert k (studioPenalized ps)\<rparr>), k # changed))"

definition penalize_studio :: "greedyCandidate list \<Rightarrow> string \<Rightarrow> penalties \<times> ckey list \<Rightarrow> penalties \<times> ckey list" where
  "penalize_studio cs s = (\<lambda>(ps, changed).
     if s = [] \<or> s \<in> seenStudios ps then (ps, changed)
     else fold penalize_studio_of (studioIndex cs s) (ps\<lparr>seenStudios := insert s (seenStudios ps)\<rparr>, changed))"

definition cover_feature_of :: "ckey \<times> float64 \<Rightarrow> penalties \<times> ckey list \<Rightarrow> penalties \<times> ckey list" where
  "cover_feature_of = (\<lambda>(k, share) (ps, changed).
     (lower k (content_cost share) (ps\<lparr>coveredShare := (coveredShare ps)(k := float_add (coveredShare ps k) share)\<rparr>), k # changed))"

definition cover_feature :: "greedyCandidate list \<Rightarrow> string \<Rightarrow> penalties \<times> ckey list \<Rightarrow> penalties \<times> ckey list" where
  "cover_feature cs f = (\<lambda>(ps, changed).
     if f \<in> coveredFeatures ps then (ps, changed)
     else fold cover_feature_of (featureIndex cs f) (ps\<lparr>coveredFeatures := insert f (coveredFeatures ps)\<rparr>, changed))"

definition performerSetKeys :: "string list \<Rightarrow> string list" where
  "performerSetKeys performers = sort (remdups performers)"

definition penalize :: "greedyCandidate list \<Rightarrow> greedyCandidate \<Rightarrow> penalties \<Rightarrow> penalties \<times> ckey list" where
  "penalize cs chosen ps =
     fold (cover_feature cs) (map fst (cd_content chosen))
       (penalize_studio cs (cd_studio chosen)
         (fold (penalize_performer cs) (performerSetKeys (cd_performers chosen)) (ps, [])))"

section \<open>Entries\<close>

record orderingEntry =
  oe_candidate :: greedyCandidate
  oe_utility :: float64
  oe_performer :: float64
  oe_studio :: float64
  oe_content :: float64
  oe_uncovered :: float64

text \<open>The penalties and the bonus of an entry; its history and cooldown penalties are zero.\<close>

definition order_entry :: "bool \<Rightarrow> penalties \<Rightarrow> greedyCandidate \<Rightarrow> orderingEntry" where
  "order_entry varied ps c =
     (let k = cd_key c in
      \<lparr>oe_candidate = c, oe_utility = utilities ps k,
       oe_performer = (if k \<in> performerPenalized ps then rankingPerformerRepeatPenalty else Fin False 0),
       oe_studio = (if k \<in> studioPenalized ps then rankingStudioPenalty else Fin False 0),
       oe_content = (if varied \<and> float_less (Fin False 0) (coveredShare ps k)
         then float_mult rankingContentPenalty (coveredShare ps k) else Fin False 0),
       oe_uncovered = (if varied \<and> cd_content c \<noteq> []
         then float_mult rankingUncoveredContentBonus (float_sub (Fin False 1) (coveredShare ps k)) else Fin False 0)\<rparr>)"

section \<open>Heaps\<close>

record heapEntry =
  he_neg :: float64
  he_scene :: string
  he_lane :: string
  he_version :: nat

definition he_key :: "heapEntry \<Rightarrow> ckey" where
  "he_key e = (he_scene e, he_lane e)"

definition heap_less :: "heapEntry \<Rightarrow> heapEntry \<Rightarrow> bool" where
  "heap_less a b \<longleftrightarrow>
     (if \<not> float_eq (he_neg a) (he_neg b) then float_less (he_neg a) (he_neg b)
      else if he_scene a \<noteq> he_scene b then he_scene a < he_scene b
      else he_lane a < he_lane b)"

definition heap_push :: "heapEntry \<Rightarrow> heapEntry list \<Rightarrow> heapEntry list" where
  "heap_push e q = e # q"

definition heap_pop :: "heapEntry list \<Rightarrow> (heapEntry \<times> heapEntry list) option" where
  "heap_pop q = (case first_by heap_less q of None \<Rightarrow> None | Some e \<Rightarrow> Some (e, remove1 e q))"

record order_heaps =
  heaps :: "ckey \<Rightarrow> heapEntry list"
  versions :: "ckey \<Rightarrow> nat"

text \<open>The selectors a candidate is found under; the rotation keys of its lane.\<close>

definition all_selector :: ckey where "all_selector = (''all'', [])"

definition selectorsOf :: "string \<Rightarrow> greedyCandidate \<Rightarrow> ckey list" where
  "selectorsOf lane c = all_selector #
     (if lane = ''for_you'' then [(''lane'', cd_lane c)]
      else if lane = ''stretch'' then (if stretchDimension c \<noteq> [] then [(''dimension'', stretchDimension c)] else [])
      else if lane = ''blind_spots'' then (if blindSpotFacet c \<noteq> [] then [(''facet'', blindSpotFacet c)] else [])
      else if lane = ''dormant'' then (if dormantEntity c \<noteq> [] then [(''entity'', dormantEntity c)] else [])
      else [])"

definition push :: "string \<Rightarrow> greedyCandidate list \<Rightarrow> penalties \<Rightarrow> ckey \<Rightarrow> order_heaps \<Rightarrow> order_heaps" where
  "push lane cs ps k hs =
     (let c = cand cs k;
          entry = \<lparr>he_neg = float_neg (utilities ps k), he_scene = cd_scene c, he_lane = cd_lane c, he_version = versions hs k\<rparr>
      in fold (\<lambda>s hs. hs\<lparr>heaps := (heaps hs)(s := heap_push entry (heaps hs s))\<rparr>) (selectorsOf lane c) hs)"

definition start_heaps :: "string \<Rightarrow> greedyCandidate list \<Rightarrow> penalties \<Rightarrow> order_heaps" where
  "start_heaps lane cs ps = fold (push lane cs ps) (order_keys cs) \<lparr>heaps = (\<lambda>s. []), versions = (\<lambda>k. 0)\<rparr>"

text \<open>
  \<open>pop\<close>: the entries of a queue in order, skipping the stale ones and putting aside those
  next to a scene with the same performer; what was put aside goes back.
\<close>

definition stale :: "greedyCandidate list \<Rightarrow> (ckey \<Rightarrow> nat) \<Rightarrow> string set \<Rightarrow> heapEntry \<Rightarrow> bool" where
  "stale cs vs selected e \<longleftrightarrow>
     (case byKey cs (he_key e) of None \<Rightarrow> True
      | Some c \<Rightarrow> he_version e \<noteq> vs (he_key e) \<or> cd_scene c \<in> selected)"

text \<open>Whether a candidate may not follow the previous one.\<close>

definition adjacent :: "bool \<Rightarrow> greedyCandidate option \<Rightarrow> bool \<Rightarrow> greedyCandidate \<Rightarrow> bool" where
  "adjacent varied previous allowAdjacent c \<longleftrightarrow>
     varied \<and> \<not> allowAdjacent \<and> (case previous of None \<Rightarrow> False | Some p \<Rightarrow> shares_performer c p)"

lemma first_by_remove: "first_by lt q = Some e \<Longrightarrow> length (remove1 e q) < length q"
  by (metis One_nat_def diff_less first_by_in length_pos_if_in_set length_remove1 zero_less_one)

function pop_loop ::
    "greedyCandidate list \<Rightarrow> bool \<Rightarrow> (ckey \<Rightarrow> nat) \<Rightarrow> string set \<Rightarrow> greedyCandidate option \<Rightarrow> bool \<Rightarrow> heapEntry list
       \<Rightarrow> heapEntry list \<Rightarrow> greedyCandidate option \<times> heapEntry list" where
  "pop_loop cs varied vs selected previous allowAdjacent queue deferred =
     (case heap_pop queue of
        None \<Rightarrow> (None, deferred)
      | Some (e, rest) \<Rightarrow>
          if stale cs vs selected e then pop_loop cs varied vs selected previous allowAdjacent rest deferred
          else if adjacent varied previous allowAdjacent (cand cs (he_key e))
          then pop_loop cs varied vs selected previous allowAdjacent rest (deferred @ [e])
          else (Some (cand cs (he_key e)), fold heap_push deferred rest))"
  by auto
termination
  by (relation "measure (\<lambda>(cs, varied, vs, selected, previous, allowAdjacent, queue, deferred). length queue)")
    (auto simp: heap_pop_def split: option.splits dest: first_by_remove)

declare pop_loop.simps [simp del]

definition pop :: "greedyCandidate list \<Rightarrow> bool \<Rightarrow> string set \<Rightarrow> ckey \<Rightarrow> greedyCandidate option \<Rightarrow> bool \<Rightarrow> order_heaps
    \<Rightarrow> greedyCandidate option \<times> order_heaps" where
  "pop cs varied selected selector previous allowAdjacent hs =
     (case pop_loop cs varied (versions hs) selected previous allowAdjacent (heaps hs selector) [] of
        (chosen, queue) \<Rightarrow> (chosen, hs\<lparr>heaps := (heaps hs)(selector := queue)\<rparr>))"

section \<open>The ordering\<close>

text \<open>The selector wanted at a position: the rotation of the lane, or the lane of the pattern.\<close>

definition wanted :: "string \<Rightarrow> greedyCandidate list \<Rightarrow> bool \<Rightarrow> nat \<Rightarrow> ckey" where
  "wanted lane cs varied position =
     (let dimensions = stretchDimensions lane cs varied; facets = blindSpotFacets lane cs; entities = dormantEntities lane cs in
      if lane = ''stretch'' \<and> dimensions \<noteq> [] then (''dimension'', rotate position dimensions)
      else if lane = ''blind_spots'' \<and> facets \<noteq> [] then (''facet'', rotate position facets)
      else if lane = ''dormant'' \<and> entities \<noteq> [] then (''entity'', rotate position entities)
      else if lane = ''for_you'' then
        (''lane'', case slateTarget lane position (Fin False 0) of Inr target \<Rightarrow> target | Inl _ \<Rightarrow> [])
      else all_selector)"

definition choose_next :: "string \<Rightarrow> greedyCandidate list \<Rightarrow> bool \<Rightarrow> string set \<Rightarrow> nat \<Rightarrow> greedyCandidate option \<Rightarrow> order_heaps
    \<Rightarrow> greedyCandidate option \<times> order_heaps" where
  "choose_next lane cs varied selected position previous hs =
     (case pop cs varied selected (wanted lane cs varied position) previous False hs of
        (Some c, hs1) \<Rightarrow> (Some c, hs1)
      | (None, hs1) \<Rightarrow>
          (case pop cs varied selected all_selector previous False hs1 of
             (Some c, hs2) \<Rightarrow> (Some c, hs2)
           | (None, hs2) \<Rightarrow> pop cs varied selected all_selector previous True hs2))"

text \<open>The changed candidates that are still open get a new version and a new entry.\<close>

definition repush :: "string \<Rightarrow> greedyCandidate list \<Rightarrow> string set \<Rightarrow> penalties \<Rightarrow> ckey list \<Rightarrow> order_heaps \<Rightarrow> order_heaps" where
  "repush lane cs selected ps changed hs =
     fold (\<lambda>k hs. if cd_scene (cand cs k) \<in> selected then hs
        else push lane cs ps k (hs\<lparr>versions := (versions hs)(k := versions hs k + 1)\<rparr>)) (remdups changed) hs"

definition selected_scenes :: "orderingEntry list \<Rightarrow> string set" where
  "selected_scenes ordered = (\<lambda>e. cd_scene (oe_candidate e)) ` set ordered"

definition last_candidate :: "orderingEntry list \<Rightarrow> greedyCandidate option" where
  "last_candidate ordered = (if ordered = [] then None else Some (oe_candidate (last ordered)))"

definition scene_count :: "greedyCandidate list \<Rightarrow> nat" where
  "scene_count cs = length (remdups (map cd_scene cs))"

text \<open>
  The loop; every pass selects one more scene, so as many passes as there are scenes are
  enough.
\<close>

fun order_loop :: "string \<Rightarrow> greedyCandidate list \<Rightarrow> bool \<Rightarrow> nat \<Rightarrow> penalties \<times> order_heaps \<times> orderingEntry list
    \<Rightarrow> orderingEntry list" where
  "order_loop lane cs varied 0 (ps, hs, ordered) = ordered"
| "order_loop lane cs varied (Suc fuel) (ps, hs, ordered) =
     (if card (selected_scenes ordered) < scene_count cs then
        (case choose_next lane cs varied (selected_scenes ordered) (length ordered) (last_candidate ordered) hs of
           (None, hs1) \<Rightarrow> ordered
         | (Some c, hs1) \<Rightarrow>
             let ordered' = ordered @ [order_entry varied ps c] in
             if \<not> varied then order_loop lane cs varied fuel (ps, hs1, ordered')
             else (case penalize cs c ps of (ps', changed) \<Rightarrow>
               order_loop lane cs varied fuel
                 (ps', repush lane cs (selected_scenes ordered') ps' changed hs1, ordered')))
      else ordered)"

definition buildOrdering :: "string \<Rightarrow> greedyCandidate list \<Rightarrow> bool \<Rightarrow> orderingEntry list" where
  "buildOrdering lane cs varied =
     (let ps = start_penalties cs varied in
      order_loop lane cs varied (scene_count cs) (ps, start_heaps lane cs ps, []))"

section \<open>Floats in order\<close>

text \<open>Away from NaN the comparisons of floats are a weak order.\<close>

lemma float_order:
  assumes "x \<noteq> NaN" "y \<noteq> NaN" "z \<noteq> NaN"
  shows "float_less x y \<Longrightarrow> \<not> float_less y x" and "float_less x y \<Longrightarrow> \<not> float_less z y \<Longrightarrow> float_less x z"
    and "float_eq x y \<longleftrightarrow> \<not> float_less x y \<and> \<not> float_less y x"
  using assms by (cases x; cases y; cases z; auto)+

lemma heap_less_order:
  assumes "he_neg a \<noteq> NaN" "he_neg b \<noteq> NaN" "he_neg c \<noteq> NaN"
  shows "heap_less a b \<Longrightarrow> \<not> heap_less b a" and "heap_less a b \<Longrightarrow> \<not> heap_less c b \<Longrightarrow> heap_less a c"
    and "he_key a \<noteq> he_key b \<Longrightarrow> heap_less a b \<or> heap_less b a"
proof -
  note o = float_order(1,2) and e = float_order(3)
  show "heap_less a b \<Longrightarrow> \<not> heap_less b a"
    using o [OF assms] e [OF assms(1,2,3)] e [OF assms(2,1,3)]
    by (auto simp: heap_less_def split: if_splits)
  show "he_key a \<noteq> he_key b \<Longrightarrow> heap_less a b \<or> heap_less b a"
    using e [OF assms(1,2,3)] e [OF assms(2,1,3)]
    by (auto simp: heap_less_def he_key_def neq_iff)
  have n: "x \<noteq> NaN" if "x \<in> {he_neg a, he_neg b, he_neg c}" for x using that assms by auto
  show "heap_less a b \<Longrightarrow> \<not> heap_less c b \<Longrightarrow> heap_less a c"
    using o(1) [OF n n n] o(2) [OF n n n] e [OF n n n]
    unfolding heap_less_def
    by (smt (verit) insertCI less_linear order.strict_trans)
qed

lemma first_by_cong:
  "(\<And>a b. a \<in> set q \<Longrightarrow> b \<in> set q \<Longrightarrow> lt a b \<longleftrightarrow> lt' a b) \<Longrightarrow> first_by lt q = first_by lt' q"
proof (induction q)
  case (Cons r q)
  then have "first_by lt q = first_by lt' q" by simp
  with Cons.prems show ?case by (auto split: option.splits dest: first_by_in)
qed simp

text \<open>The least element of a list on which the comparison is a weak order.\<close>

lemma first_by_least_on:
  assumes trans: "\<And>a b c. a \<in> S \<Longrightarrow> b \<in> S \<Longrightarrow> c \<in> S \<Longrightarrow> lt a b \<Longrightarrow> \<not> lt c b \<Longrightarrow> lt a c"
    and asym: "\<And>a b. a \<in> S \<Longrightarrow> b \<in> S \<Longrightarrow> lt a b \<Longrightarrow> \<not> lt b a"
    and "set q \<subseteq> S" and "first_by lt q = Some m" and "r \<in> set q"
  shows "\<not> lt r m"
proof -
  define lt' where "lt' a b \<longleftrightarrow> a \<in> S \<and> (b \<in> S \<longrightarrow> lt a b)" for a b
  have "first_by lt q = first_by lt' q"
    using assms(3) by (intro first_by_cong) (auto simp: lt'_def)
  then have "first_by lt' q = Some m" using assms(4) by simp
  moreover have "lt' a b \<Longrightarrow> \<not> lt' c b \<Longrightarrow> lt' a c" for a b c
    using trans [of a b c] unfolding lt'_def by blast
  moreover have "lt' a b \<Longrightarrow> \<not> lt' b a" for a b
    using asym [of a b] unfolding lt'_def by blast
  ultimately have "\<not> lt' r m" using first_by_least [of lt' q m r] assms(5) by blast
  then show ?thesis using assms(3-5) first_by_in by (auto simp: lt'_def)
qed

lemma heap_least:
  assumes "\<forall>e \<in> set q. he_neg e \<noteq> NaN" and "first_by heap_less q = Some m" and "r \<in> set q"
  shows "\<not> heap_less r m"
proof (rule first_by_least_on [of "{e. he_neg e \<noteq> NaN}" heap_less q m r])
  show "heap_less a c" if "a \<in> {e. he_neg e \<noteq> NaN}" "b \<in> {e. he_neg e \<noteq> NaN}" "c \<in> {e. he_neg e \<noteq> NaN}"
    "heap_less a b" "\<not> heap_less c b" for a b c
    using heap_less_order(2) [of a b c] that by simp
  show "\<not> heap_less b a" if "a \<in> {e. he_neg e \<noteq> NaN}" "b \<in> {e. he_neg e \<noteq> NaN}" "heap_less a b" for a b
    using heap_less_order(1) [of a b b] that by simp
qed (use assms in auto)

section \<open>The reference ordering\<close>

text \<open>
  The same selection without heaps: at each position the best of the open keys under the
  wanted selector, else of all open keys, else of all with the neighbour rule dropped.
\<close>

definition open_keys :: "greedyCandidate list \<Rightarrow> string set \<Rightarrow> ckey list" where
  "open_keys cs selected = filter (\<lambda>k. fst k \<notin> selected) (order_keys cs)"

definition key_entry :: "(ckey \<Rightarrow> float64) \<Rightarrow> nat \<Rightarrow> ckey \<Rightarrow> heapEntry" where
  "key_entry ut v k = \<lparr>he_neg = float_neg (ut k), he_scene = fst k, he_lane = snd k, he_version = v\<rparr>"

text \<open>A higher utility is better, then the smaller scene id, then the smaller lane.\<close>

definition better :: "(ckey \<Rightarrow> float64) \<Rightarrow> ckey \<Rightarrow> ckey \<Rightarrow> bool" where
  "better ut a b \<longleftrightarrow> heap_less (key_entry ut 0 a) (key_entry ut 0 b)"

definition pool_keys :: "string \<Rightarrow> greedyCandidate list \<Rightarrow> bool \<Rightarrow> string set \<Rightarrow> ckey \<Rightarrow> greedyCandidate option \<Rightarrow> bool
    \<Rightarrow> ckey list" where
  "pool_keys lane cs varied selected selector previous allowAdjacent =
     filter (\<lambda>k. selector \<in> set (selectorsOf lane (cand cs k)) \<and> \<not> adjacent varied previous allowAdjacent (cand cs k))
       (open_keys cs selected)"

definition best_key :: "string \<Rightarrow> greedyCandidate list \<Rightarrow> bool \<Rightarrow> (ckey \<Rightarrow> float64) \<Rightarrow> string set \<Rightarrow> ckey
    \<Rightarrow> greedyCandidate option \<Rightarrow> bool \<Rightarrow> ckey option" where
  "best_key lane cs varied ut selected selector previous allowAdjacent =
     first_by (better ut) (pool_keys lane cs varied selected selector previous allowAdjacent)"

definition naive_choice :: "string \<Rightarrow> greedyCandidate list \<Rightarrow> bool \<Rightarrow> (ckey \<Rightarrow> float64) \<Rightarrow> string set \<Rightarrow> nat
    \<Rightarrow> greedyCandidate option \<Rightarrow> ckey option" where
  "naive_choice lane cs varied ut selected position previous =
     (case best_key lane cs varied ut selected (wanted lane cs varied position) previous False of
        Some k \<Rightarrow> Some k
      | None \<Rightarrow>
          (case best_key lane cs varied ut selected all_selector previous False of
             Some k \<Rightarrow> Some k
           | None \<Rightarrow> best_key lane cs varied ut selected all_selector previous True))"

fun naive_loop :: "string \<Rightarrow> greedyCandidate list \<Rightarrow> bool \<Rightarrow> nat \<Rightarrow> penalties \<times> orderingEntry list \<Rightarrow> orderingEntry list" where
  "naive_loop lane cs varied 0 (ps, ordered) = ordered"
| "naive_loop lane cs varied (Suc fuel) (ps, ordered) =
     (case naive_choice lane cs varied (utilities ps) (selected_scenes ordered) (length ordered) (last_candidate ordered) of
        None \<Rightarrow> ordered
      | Some k \<Rightarrow> naive_loop lane cs varied fuel
          (if varied then fst (penalize cs (cand cs k) ps) else ps, ordered @ [order_entry varied ps (cand cs k)]))"

definition naive_ordering :: "string \<Rightarrow> greedyCandidate list \<Rightarrow> bool \<Rightarrow> orderingEntry list" where
  "naive_ordering lane cs varied = naive_loop lane cs varied (scene_count cs) (start_penalties cs varied, [])"

section \<open>Keys\<close>

lemma byKey_Some: "byKey cs k = Some c \<Longrightarrow> c \<in> set cs \<and> cd_key c = k"
  unfolding byKey_def by (drule map_of_SomeD) auto

lemma byKey_key: "k \<in> set (order_keys cs) \<longleftrightarrow> (\<exists>c. byKey cs k = Some c)"
proof -
  have "byKey cs k = None \<longleftrightarrow> k \<notin> cd_key ` set cs"
    by (simp add: byKey_def map_of_eq_None_iff image_image)
  then show ?thesis by (auto simp: order_keys_def)
qed

lemma cand_key: "k \<in> set (order_keys cs) \<Longrightarrow> cand cs k \<in> set cs \<and> cd_scene (cand cs k) = fst k \<and> cd_lane (cand cs k) = snd k"
proof -
  assume "k \<in> set (order_keys cs)"
  then obtain c where "byKey cs k = Some c" by (auto simp: byKey_key)
  with byKey_Some [OF this] show ?thesis by (auto simp: cand_def cd_key_def)
qed

lemma cand_inj: "k \<in> set (order_keys cs) \<Longrightarrow> k' \<in> set (order_keys cs) \<Longrightarrow> cand cs k = cand cs k' \<Longrightarrow> k = k'"
  using cand_key by (metis prod_eqI)

lemma all_selector_in [simp]: "all_selector \<in> set (selectorsOf lane c)"
  by (simp add: selectorsOf_def)

lemma key_entry_simps [simp]:
  "he_neg (key_entry ut v k) = float_neg (ut k)" "he_key (key_entry ut v k) = k" "he_version (key_entry ut v k) = v"
  by (simp_all add: key_entry_def he_key_def)

lemma float_neg_NaN [simp]: "float_neg x = NaN \<longleftrightarrow> x = NaN"
  by (cases x) auto

section \<open>The lazy heaps\<close>

text \<open>
  What the heaps guarantee: under every selector of an open candidate there is its current
  entry, and an entry of the current version shows the current utility. The keys of \<open>A\<close>
  are exempt while a pass updates them.
\<close>

definition heap_inv :: "string \<Rightarrow> greedyCandidate list \<Rightarrow> (ckey \<Rightarrow> float64) \<Rightarrow> string set \<Rightarrow> ckey set \<Rightarrow> order_heaps \<Rightarrow> bool" where
  "heap_inv lane cs ut selected A hs \<longleftrightarrow>
     (\<forall>k \<in> set (order_keys cs) - A. fst k \<notin> selected \<longrightarrow>
        (\<forall>s \<in> set (selectorsOf lane (cand cs k)). key_entry ut (versions hs k) k \<in> set (heaps hs s))) \<and>
     (\<forall>s. \<forall>e \<in> set (heaps hs s). he_key e \<in> set (order_keys cs) \<and> s \<in> set (selectorsOf lane (cand cs (he_key e))) \<and>
        he_neg e \<noteq> NaN \<and> he_version e \<le> versions hs (he_key e) \<and>
        (he_version e = versions hs (he_key e) \<longrightarrow> he_scene e \<notin> selected \<longrightarrow> he_key e \<notin> A \<longrightarrow>
           he_neg e = float_neg (ut (he_key e))))"

lemma heap_inv_entry: "heap_inv lane cs ut selected A hs \<Longrightarrow> k \<in> set (order_keys cs) \<Longrightarrow> k \<notin> A \<Longrightarrow> fst k \<notin> selected \<Longrightarrow>
    s \<in> set (selectorsOf lane (cand cs k)) \<Longrightarrow> key_entry ut (versions hs k) k \<in> set (heaps hs s)"
  by (simp add: heap_inv_def)

lemma heap_inv_heap:
  assumes "heap_inv lane cs ut selected A hs" and "e \<in> set (heaps hs s)"
  shows "he_key e \<in> set (order_keys cs)" and "s \<in> set (selectorsOf lane (cand cs (he_key e)))" and "he_neg e \<noteq> NaN"
    and "he_version e \<le> versions hs (he_key e)"
    and "he_version e = versions hs (he_key e) \<Longrightarrow> he_scene e \<notin> selected \<Longrightarrow> he_key e \<notin> A \<Longrightarrow>
      he_neg e = float_neg (ut (he_key e))"
  using assms unfolding heap_inv_def by blast+

text \<open>\<open>r\<close> is a least element of the queue among those that may be taken, or there is none.\<close>

definition picks :: "greedyCandidate list \<Rightarrow> (heapEntry \<Rightarrow> bool) \<Rightarrow> heapEntry set \<Rightarrow> greedyCandidate option \<Rightarrow> bool" where
  "picks cs takes Q r \<longleftrightarrow>
     (case r of
        None \<Rightarrow> \<forall>e \<in> Q. \<not> takes e
      | Some c \<Rightarrow> \<exists>e \<in> Q. c = cand cs (he_key e) \<and> takes e \<and> (\<forall>e' \<in> Q. takes e' \<longrightarrow> \<not> heap_less e' e))"

lemma picks_skip: "Q \<subseteq> insert e R \<Longrightarrow> R \<subseteq> Q \<Longrightarrow> \<not> takes e \<Longrightarrow> picks cs takes R r \<Longrightarrow> picks cs takes Q r"
  unfolding picks_def by (cases r; simp; blast)

definition takeable :: "greedyCandidate list \<Rightarrow> bool \<Rightarrow> (ckey \<Rightarrow> nat) \<Rightarrow> string set \<Rightarrow> greedyCandidate option \<Rightarrow> bool
    \<Rightarrow> heapEntry \<Rightarrow> bool" where
  "takeable cs varied vs selected previous allow e \<longleftrightarrow>
     \<not> stale cs vs selected e \<and> \<not> adjacent varied previous allow (cand cs (he_key e))"

lemma pop_loop_spec:
  assumes "pop_loop cs varied vs selected previous allow queue deferred = (r, queue')"
    and "\<forall>e \<in> set queue. he_neg e \<noteq> NaN"
  shows "picks cs (takeable cs varied vs selected previous allow) (set queue) r \<and>
    set queue' \<subseteq> set queue \<union> set deferred \<and>
    (\<forall>e \<in> set queue \<union> set deferred. \<not> stale cs vs selected e \<longrightarrow> e \<in> set queue' \<or> r = Some (cand cs (he_key e)))"
  using assms
proof (induction cs varied vs selected previous allow queue deferred rule: pop_loop.induct)
  case (1 cs varied vs selected previous allow queue deferred)
  let ?takes = "takeable cs varied vs selected previous allow"
  have push_all: "set (fold heap_push xs q) = set xs \<union> set q" for xs q
    by (induction xs arbitrary: q) (auto simp: heap_push_def)
  show ?case
  proof (cases "heap_pop queue")
    case None
    then have "queue = []" by (simp add: heap_pop_def first_by_None split: option.splits)
    moreover have "r = None \<and> queue' = deferred"
      using 1(3) None by (simp add: pop_loop.simps [of cs varied vs selected previous allow queue deferred])
    ultimately show ?thesis by (simp add: picks_def)
  next
    case (Some er)
    then obtain e rest where er: "er = (e, rest)" "first_by heap_less queue = Some e" "rest = remove1 e queue"
      by (auto simp: heap_pop_def split: option.splits)
    have e: "e \<in> set queue" by (rule first_by_in [OF er(2)])
    have rest: "set queue \<subseteq> insert e (set rest)" "set rest \<subseteq> set queue"
      using er(3) set_remove1_subset [of e queue] by (metis in_set_remove1 insertCI subsetI, simp)
    have nan: "\<forall>e \<in> set rest. he_neg e \<noteq> NaN" using 1(4) rest by auto
    have least: "\<not> heap_less e' e" if "e' \<in> set queue" for e'
      by (rule heap_least [OF 1(4) er(2) that])
    note unfold = 1(3) [unfolded pop_loop.simps [of cs varied vs selected previous allow queue deferred]]
    consider "stale cs vs selected e"
      | "\<not> stale cs vs selected e" "adjacent varied previous allow (cand cs (he_key e))"
      | "\<not> stale cs vs selected e" "\<not> adjacent varied previous allow (cand cs (he_key e))" by blast
    then show ?thesis
    proof cases
      case 1
      with unfold Some er have "pop_loop cs varied vs selected previous allow rest deferred = (r, queue')" by simp
      note IH = "1.IH"(1) [OF Some er(1) [symmetric] 1 this nan]
      have "\<not> ?takes e" using 1 by (simp add: takeable_def)
      with IH have "picks cs ?takes (set queue) r" using picks_skip [OF rest, of ?takes] by blast
      with IH 1 rest show ?thesis by blast
    next
      case 2
      with unfold Some er have "pop_loop cs varied vs selected previous allow rest (deferred @ [e]) = (r, queue')" by simp
      note IH = "1.IH"(2) [OF Some er(1) [symmetric] 2 this nan]
      have "\<not> ?takes e" using 2 by (simp add: takeable_def)
      with IH have "picks cs ?takes (set queue) r" using picks_skip [OF rest, of ?takes] by blast
      with IH rest e show ?thesis by auto
    next
      case 3
      with unfold Some er have r: "r = Some (cand cs (he_key e))" "queue' = fold heap_push deferred rest" by auto
      have "picks cs ?takes (set queue) r" using 3 e least by (auto simp: picks_def r takeable_def)
      with r rest push_all show ?thesis by auto
    qed
  qed
qed

text \<open>A pop answers the best open key of its pool, and keeps the guarantee for what stays open.\<close>

lemma open_entry:
  assumes "heap_inv lane cs ut selected {} hs" and "e \<in> set (heaps hs s)" and "\<not> stale cs (versions hs) selected e"
  shows "he_key e \<in> set (open_keys cs selected)" and "s \<in> set (selectorsOf lane (cand cs (he_key e)))"
    and "e = key_entry ut (versions hs (he_key e)) (he_key e)"
proof -
  note inv = heap_inv_heap [OF assms(1,2)]
  have v: "he_version e = versions hs (he_key e)" and sel: "cd_scene (cand cs (he_key e)) \<notin> selected"
    using assms(3) inv(1) by (auto simp: stale_def byKey_key cand_def)
  have "he_scene e \<notin> selected" using sel cand_key [OF inv(1)] by (simp add: he_key_def)
  with inv v show "e = key_entry ut (versions hs (he_key e)) (he_key e)"
    by (cases e) (simp add: key_entry_def he_key_def)
  show "he_key e \<in> set (open_keys cs selected)" using inv(1) \<open>he_scene e \<notin> selected\<close>
    by (simp add: open_keys_def he_key_def)
  show "s \<in> set (selectorsOf lane (cand cs (he_key e)))" by (rule inv(2))
qed

lemma entry_not_stale:
  assumes "k \<in> set (open_keys cs selected)"
  shows "\<not> stale cs vs selected (key_entry ut (vs k) k)"
proof -
  have k: "k \<in> set (order_keys cs)" "fst k \<notin> selected" using assms by (auto simp: open_keys_def)
  then obtain c where "byKey cs k = Some c" by (auto simp: byKey_key)
  with cand_key [OF k(1)] k show ?thesis by (simp add: stale_def cand_def)
qed

lemma better_order:
  assumes "\<And>k. k \<in> set ks \<Longrightarrow> ut k \<noteq> NaN" and "first_by (better ut) ks = Some m" and "k \<in> set ks" and "k \<noteq> m"
  shows "better ut m k" and "\<not> better ut k m"
proof -
  have m: "m \<in> set ks" by (rule first_by_in [OF assms(2)])
  note o = heap_less_order [of "key_entry ut 0 a" "key_entry ut 0 b" "key_entry ut 0 c" for a b c, folded better_def]
  show nless: "\<not> better ut k m"
  proof (rule first_by_least_on [of "set ks" "better ut" ks m k])
    show "better ut a c" if "a \<in> set ks" "b \<in> set ks" "c \<in> set ks" "better ut a b" "\<not> better ut c b" for a b c
      using o(2) [of a b c] that assms(1) by simp
    show "\<not> better ut b a" if "a \<in> set ks" "b \<in> set ks" "better ut a b" for a b
      using o(1) [of a b b] that assms(1) by simp
  qed (use assms in auto)
  show "better ut m k"
    using o(3) [of m k k] nless m assms(1,3,4) by auto
qed

lemma pop_spec:
  assumes inv: "heap_inv lane cs ut selected {} hs" and nan: "\<And>k. ut k \<noteq> NaN"
    and pop: "pop cs varied selected s previous allow hs = (r, hs')"
  shows "r = map_option (cand cs) (best_key lane cs varied ut selected s previous allow)"
    and "case best_key lane cs varied ut selected s previous allow of
        None \<Rightarrow> heap_inv lane cs ut selected {} hs'
      | Some k \<Rightarrow> k \<in> set (open_keys cs selected) \<and> heap_inv lane cs ut (insert (fst k) selected) {} hs'"
proof -
  let ?pool = "pool_keys lane cs varied selected s previous allow"
  obtain queue where loop: "pop_loop cs varied (versions hs) selected previous allow (heaps hs s) [] = (r, queue)"
    and hs': "hs' = hs\<lparr>heaps := (heaps hs)(s := queue)\<rparr>"
    using pop by (auto simp: pop_def split: prod.splits)
  have "\<forall>e \<in> set (heaps hs s). he_neg e \<noteq> NaN" using heap_inv_heap(3) [OF inv] by blast
  note spec = pop_loop_spec [OF loop this]
  let ?takes = "takeable cs varied (versions hs) selected previous allow"
  have into: "he_key e \<in> set ?pool" "e = key_entry ut (versions hs (he_key e)) (he_key e)"
    if "e \<in> set (heaps hs s)" "?takes e" for e
    using open_entry [OF inv that(1)] that(2) by (simp_all add: pool_keys_def takeable_def)
  have out: "key_entry ut (versions hs k) k \<in> set (heaps hs s) \<and> ?takes (key_entry ut (versions hs k) k)"
    if "k \<in> set ?pool" for k
    using that heap_inv_entry [OF inv] entry_not_stale [of k cs selected "versions hs" ut]
    by (auto simp: pool_keys_def open_keys_def takeable_def)
  have r: "r = map_option (cand cs) (best_key lane cs varied ut selected s previous allow)"
  proof (cases r)
    case None
    with spec have "\<forall>e \<in> set (heaps hs s). \<not> ?takes e" by (simp add: picks_def)
    then have "k \<notin> set ?pool" for k using out [of k] by blast
    then have "?pool = []" by (metis list.set_intros(1) neq_Nil_conv)
    with None show ?thesis by (simp add: best_key_def first_by_None)
  next
    case (Some c)
    with spec obtain e where e: "e \<in> set (heaps hs s)" "c = cand cs (he_key e)" "?takes e"
      and least: "\<And>e'. e' \<in> set (heaps hs s) \<Longrightarrow> ?takes e' \<Longrightarrow> \<not> heap_less e' e" by (auto simp: picks_def)
    have k: "he_key e \<in> set ?pool" using into e by blast
    then obtain m where m: "first_by (better ut) ?pool = Some m"
      by (cases "first_by (better ut) ?pool") (auto simp: first_by_None)
    have "he_key e = m"
    proof (rule ccontr)
      assume "he_key e \<noteq> m"
      then have "better ut m (he_key e)" using better_order(1) [OF _ m k] nan by blast
      moreover have "e = key_entry ut (versions hs (he_key e)) (he_key e)" by (rule into(2) [OF e(1,3)])
      ultimately have "heap_less (key_entry ut (versions hs m) m) e"
        by (metis (no_types, lifting) better_def heap_less_def heapEntry.simps(1-3) key_entry_def)
      moreover have "m \<in> set ?pool" by (rule first_by_in [OF m])
      ultimately show False using out [of m] least [of "key_entry ut (versions hs m) m"] by simp
    qed
    with m e(2) Some show ?thesis by (simp add: best_key_def)
  qed
  then show "r = map_option (cand cs) (best_key lane cs varied ut selected s previous allow)" .
  have sub: "set queue \<subseteq> set (heaps hs s)" using spec by simp
  have keep: "e \<in> set queue" if "e \<in> set (heaps hs s)" "\<not> stale cs (versions hs) selected e" "r \<noteq> Some (cand cs (he_key e))" for e
    using spec that by auto
  have step: "heap_inv lane cs ut selected' {} hs'" if "selected \<subseteq> selected'"
    and new: "\<And>k. k \<in> set (open_keys cs selected') \<Longrightarrow> r \<noteq> Some (cand cs k)" for selected'
    unfolding heap_inv_def
  proof (intro conjI allI ballI impI)
    fix k u assume k: "k \<in> set (order_keys cs) - {}" "fst k \<notin> selected'" and u: "u \<in> set (selectorsOf lane (cand cs k))"
    have "k \<in> set (open_keys cs selected)" using k that(1) by (auto simp: open_keys_def)
    then have "\<not> stale cs (versions hs) selected (key_entry ut (versions hs k) k)" by (rule entry_not_stale)
    moreover have "key_entry ut (versions hs k) k \<in> set (heaps hs u)"
      using heap_inv_entry [OF inv _ _ _ u] k that(1) by blast
    moreover have "r \<noteq> Some (cand cs k)" using k new by (simp add: open_keys_def)
    ultimately show "key_entry ut (versions hs' k) k \<in> set (heaps hs' u)"
      using keep [of "key_entry ut (versions hs k) k"] by (auto simp: hs')
  next
    fix u e assume "e \<in> set (heaps hs' u)"
    then have e: "e \<in> set (heaps hs u)" using sub by (auto simp: hs' split: if_splits)
    note h = heap_inv_heap [OF inv e]
    show "he_key e \<in> set (order_keys cs)" "u \<in> set (selectorsOf lane (cand cs (he_key e)))" "he_neg e \<noteq> NaN"
      "he_version e \<le> versions hs' (he_key e)"
      using h by (simp_all add: hs')
    assume "he_version e = versions hs' (he_key e)" "he_scene e \<notin> selected'"
    then show "he_neg e = float_neg (ut (he_key e))" using h(5) that(1) by (auto simp: hs')
  qed
  show "case best_key lane cs varied ut selected s previous allow of
        None \<Rightarrow> heap_inv lane cs ut selected {} hs'
      | Some k \<Rightarrow> k \<in> set (open_keys cs selected) \<and> heap_inv lane cs ut (insert (fst k) selected) {} hs'"
  proof (cases "best_key lane cs varied ut selected s previous allow")
    case None
    with r step [of selected] show ?thesis by simp
  next
    case (Some k)
    then have k: "k \<in> set (open_keys cs selected)" unfolding best_key_def
      by (drule_tac first_by_in) (simp add: pool_keys_def)
    have "r \<noteq> Some (cand cs k')" if "k' \<in> set (open_keys cs (insert (fst k) selected))" for k'
      using r Some k that cand_inj [of k cs k'] by (auto simp: open_keys_def)
    with Some k step [of "insert (fst k) selected"] show ?thesis by auto
  qed
qed

text \<open>A push puts the current entry under the selectors of its candidate.\<close>

lemma push_heaps:
  assumes "k \<in> set (order_keys cs)"
  shows "set (heaps (push lane cs ps k hs) s) = set (heaps hs s) \<union>
      (if s \<in> set (selectorsOf lane (cand cs k)) then {key_entry (utilities ps) (versions hs k) k} else {})"
    and "versions (push lane cs ps k hs) = versions hs"
proof -
  let ?e = "\<lparr>he_neg = float_neg (utilities ps k), he_scene = cd_scene (cand cs k), he_lane = cd_lane (cand cs k),
    he_version = versions hs k\<rparr>"
  have e: "?e = key_entry (utilities ps) (versions hs k) k" using cand_key [OF assms] by (simp add: key_entry_def)
  have "set (heaps (fold (\<lambda>s hs. hs\<lparr>heaps := (heaps hs)(s := heap_push e (heaps hs s))\<rparr>) ss hs) s) =
      set (heaps hs s) \<union> (if s \<in> set ss then {e} else {}) \<and>
    versions (fold (\<lambda>s hs. hs\<lparr>heaps := (heaps hs)(s := heap_push e (heaps hs s))\<rparr>) ss hs) = versions hs" for ss e hs
    by (induction ss arbitrary: hs) (auto simp: heap_push_def)
  from this [of ?e "selectorsOf lane (cand cs k)" hs]
  show "set (heaps (push lane cs ps k hs) s) = set (heaps hs s) \<union>
      (if s \<in> set (selectorsOf lane (cand cs k)) then {key_entry (utilities ps) (versions hs k) k} else {})"
    and "versions (push lane cs ps k hs) = versions hs"
    unfolding push_def Let_def e by simp_all
qed

lemma start_heaps_inv:
  assumes nan: "\<And>k. utilities ps k \<noteq> NaN"
  shows "heap_inv lane cs (utilities ps) {} {} (start_heaps lane cs ps)"
proof -
  have fill: "set ks \<subseteq> set (order_keys cs) \<Longrightarrow>
    versions (fold (push lane cs ps) ks \<lparr>heaps = (\<lambda>s. []), versions = (\<lambda>k. 0)\<rparr>) = (\<lambda>k. 0) \<and>
    set (heaps (fold (push lane cs ps) ks \<lparr>heaps = (\<lambda>s. []), versions = (\<lambda>k. 0)\<rparr>) s) =
      key_entry (utilities ps) 0 ` {k \<in> set ks. s \<in> set (selectorsOf lane (cand cs k))}" for ks s
  proof (induction ks rule: rev_induct)
    case (snoc k ks)
    then have k: "k \<in> set (order_keys cs)" by simp
    from snoc push_heaps [OF k] show ?case by auto
  qed simp
  show ?thesis
    unfolding heap_inv_def start_heaps_def
    using fill [OF subset_refl] nan by auto
qed

text \<open>
  Repushing the changed keys one by one: the pending ones are exempt until they are pushed.
\<close>

lemma repush_inv:
  assumes "set ks \<subseteq> set (order_keys cs)" and "distinct ks" and nan: "\<And>k. utilities ps k \<noteq> NaN"
    and "heap_inv lane cs (utilities ps) selected (set ks) hs"
  shows "heap_inv lane cs (utilities ps) selected {}
    (fold (\<lambda>k hs. if cd_scene (cand cs k) \<in> selected then hs
        else push lane cs ps k (hs\<lparr>versions := (versions hs)(k := versions hs k + 1)\<rparr>)) ks hs)"
  using assms(1,2,4)
proof (induction ks arbitrary: hs)
  case (Cons k ks)
  let ?ut = "utilities ps"
  have k: "k \<in> set (order_keys cs)" and fresh: "k \<notin> set ks" using Cons.prems by auto
  have scene: "cd_scene (cand cs k) = fst k" using cand_key [OF k] by simp
  note inv = Cons.prems(3)
  show ?case
  proof (cases "fst k \<in> selected")
    case True
    have "heap_inv lane cs ?ut selected (set ks) hs"
      unfolding heap_inv_def
    proof (intro conjI allI ballI impI)
      fix k' s assume "k' \<in> set (order_keys cs) - set ks" "fst k' \<notin> selected" "s \<in> set (selectorsOf lane (cand cs k'))"
      moreover from this True have "k' \<noteq> k" by auto
      ultimately show "key_entry ?ut (versions hs k') k' \<in> set (heaps hs s)"
        by (intro heap_inv_entry [OF inv]) simp_all
    next
      fix s e assume e: "e \<in> set (heaps hs s)"
      note h = heap_inv_heap [OF inv e]
      show "he_key e \<in> set (order_keys cs)" "s \<in> set (selectorsOf lane (cand cs (he_key e)))" "he_neg e \<noteq> NaN"
        "he_version e \<le> versions hs (he_key e)" by (fact h)+
      assume "he_version e = versions hs (he_key e)" "he_scene e \<notin> selected" "he_key e \<notin> set ks"
      moreover from this True have "he_key e \<noteq> k" by (auto simp: he_key_def)
      ultimately show "he_neg e = float_neg (?ut (he_key e))" using h(5) by simp
    qed
    with Cons True scene show ?thesis by simp
  next
    case False
    let ?hs1 = "hs\<lparr>versions := (versions hs)(k := versions hs k + 1)\<rparr>"
    let ?hs2 = "push lane cs ps k ?hs1"
    note p = push_heaps [OF k, of lane ps ?hs1]
    have "heap_inv lane cs ?ut selected (set ks) ?hs2"
      unfolding heap_inv_def
    proof (intro conjI allI ballI impI)
      fix k' s assume k': "k' \<in> set (order_keys cs) - set ks" "fst k' \<notin> selected" "s \<in> set (selectorsOf lane (cand cs k'))"
      show "key_entry ?ut (versions ?hs2 k') k' \<in> set (heaps ?hs2 s)"
      proof (cases "k' = k")
        case True
        with p k' show ?thesis by simp
      next
        case False
        with k' heap_inv_entry [OF inv, of k' s] p show ?thesis by auto
      qed
    next
      fix s e assume e2: "e \<in> set (heaps ?hs2 s)"
      then consider "e = key_entry ?ut (versions hs k + 1) k" "s \<in> set (selectorsOf lane (cand cs k))" | "e \<in> set (heaps hs s)"
        using p by (auto split: if_splits)
      then have "he_key e \<in> set (order_keys cs) \<and> s \<in> set (selectorsOf lane (cand cs (he_key e))) \<and> he_neg e \<noteq> NaN \<and>
        he_version e \<le> versions ?hs2 (he_key e) \<and>
        (he_version e = versions ?hs2 (he_key e) \<longrightarrow> he_scene e \<notin> selected \<longrightarrow> he_key e \<notin> set ks \<longrightarrow>
           he_neg e = float_neg (?ut (he_key e)))"
      proof cases
        case 1
        with k nan p(2) show ?thesis by simp
      next
        case 2
        note h = heap_inv_heap [OF inv 2]
        show ?thesis
        proof (cases "he_key e = k")
          case True
          with h p(2) show ?thesis by simp
        next
          case False
          with h p(2) show ?thesis by auto
        qed
      qed
      then show "he_key e \<in> set (order_keys cs)" "s \<in> set (selectorsOf lane (cand cs (he_key e)))" "he_neg e \<noteq> NaN"
        "he_version e \<le> versions ?hs2 (he_key e)"
        "he_version e = versions ?hs2 (he_key e) \<Longrightarrow> he_scene e \<notin> selected \<Longrightarrow> he_key e \<notin> set ks \<Longrightarrow>
          he_neg e = float_neg (?ut (he_key e))" by blast+
    qed
    with Cons False scene show ?thesis by simp
  qed
qed simp

section \<open>Penalties\<close>

text \<open>
  What a selection changes: only the utilities of the keys it reports, all of them keys of
  candidates, and never to NaN while the costs are finite.
\<close>

definition finite_costs :: "greedyCandidate list \<Rightarrow> bool" where
  "finite_costs cs \<longleftrightarrow> (\<forall>c \<in> set cs. cd_value c \<noteq> NaN \<and>
     (\<forall>f share. feature_share c f = Some share \<longrightarrow> is_finite (content_cost share)))"

lemma finite_float_of_rat: "\<bar>x\<bar> \<le> 1 \<Longrightarrow> is_finite (float_of_rat x)"
  using round64_small(1) [of "\<bar>x\<bar>" 0 "x < 0"] by (simp add: float_of_rat_def pow2_def)

lemma finite_constants:
  "is_finite rankingPerformerRepeatPenalty" "is_finite rankingStudioPenalty" "is_finite rankingUncoveredContentBonus"
  by (simp_all add: rankingPerformerRepeatPenalty_def rankingStudioPenalty_def rankingUncoveredContentBonus_def
      finite_float_of_rat)

lemma round64_not_NaN [simp]: "round64 s m \<noteq> NaN"
  by (simp add: round64_def Let_def)

lemma float_ops_NaN:
  "x \<noteq> NaN \<Longrightarrow> is_finite y \<Longrightarrow> float_add x y \<noteq> NaN" "x \<noteq> NaN \<Longrightarrow> is_finite y \<Longrightarrow> float_sub x y \<noteq> NaN"
  by (cases x; cases y; simp add: float_sub_def Let_def)+

definition penalty_rel :: "greedyCandidate list \<Rightarrow> penalties \<times> ckey list \<Rightarrow> penalties \<times> ckey list \<Rightarrow> bool" where
  "penalty_rel cs = (\<lambda>(ps, changed) (ps', changed').
     set changed \<subseteq> set changed' \<and> set changed' \<subseteq> set changed \<union> set (order_keys cs) \<and>
     (\<forall>k. k \<notin> set changed' \<longrightarrow> utilities ps' k = utilities ps k) \<and>
     ((\<forall>k. utilities ps k \<noteq> NaN) \<longrightarrow> (\<forall>k. utilities ps' k \<noteq> NaN)))"

lemma penalty_rel_refl: "penalty_rel cs x x"
  by (cases x) (simp add: penalty_rel_def)

lemma penalty_rel_trans: "penalty_rel cs x y \<Longrightarrow> penalty_rel cs y z \<Longrightarrow> penalty_rel cs x z"
proof -
  assume xy: "penalty_rel cs x y" and yz: "penalty_rel cs y z"
  obtain ps ch ps1 ch1 ps2 ch2 where xyz: "x = (ps, ch)" "y = (ps1, ch1)" "z = (ps2, ch2)"
    by (cases x; cases y; cases z)
  note a = xy [unfolded xyz penalty_rel_def prod.case] and b = yz [unfolded xyz penalty_rel_def prod.case]
  from a b have "\<forall>k. k \<notin> set ch2 \<longrightarrow> utilities ps2 k = utilities ps k" by (metis subsetD)
  with a b show ?thesis unfolding xyz penalty_rel_def prod.case by blast
qed

lemma penalty_rel_fold:
  assumes "\<And>a x. a \<in> set as \<Longrightarrow> penalty_rel cs x (f a x)"
  shows "penalty_rel cs x (fold f as x)"
  using assms
proof (induction as arbitrary: x)
  case (Cons a as)
  then show ?case using penalty_rel_trans [of cs x "f a x"] by simp
qed (simp add: penalty_rel_refl)

lemma penalty_rel_lower:
  assumes "k \<in> set (order_keys cs)" and "is_finite x" and "utilities ps' = utilities ps"
  shows "penalty_rel cs (ps, changed) (lower k x ps', k # changed)"
  using assms float_ops_NaN(2) by (auto simp: penalty_rel_def lower_def)

lemma penalize_rel:
  assumes "finite_costs cs"
  shows "penalty_rel cs (ps, []) (penalize cs c ps)"
proof -
  have same: "penalty_rel cs (ps, ch) y \<longleftrightarrow> penalty_rel cs (ps', ch) y" if "utilities ps = utilities ps'" for ps ps' ch y
    using that by (cases y) (simp add: penalty_rel_def)
  have pk: "penalty_rel cs x (penalize_performer_of k x)" if "k \<in> set (order_keys cs)" for k x
    using penalty_rel_lower [OF that finite_constants(1)] penalty_rel_refl
    by (cases x) (auto simp: penalize_performer_of_def)
  have p: "penalty_rel cs x (penalize_performer cs q x)" for q x
  proof (cases x)
    case (Pair ps ch)
    have "penalty_rel cs (ps\<lparr>seenPerformers := insert q (seenPerformers ps)\<rparr>, ch)
        (fold penalize_performer_of (performerIndex cs q) (ps\<lparr>seenPerformers := insert q (seenPerformers ps)\<rparr>, ch))"
      by (rule penalty_rel_fold) (simp add: performerIndex_def pk)
    then have "q \<notin> seenPerformers ps \<Longrightarrow> ?thesis"
      using same [of ps "ps\<lparr>seenPerformers := insert q (seenPerformers ps)\<rparr>"] Pair
      by (simp add: penalize_performer_def)
    moreover have "q \<in> seenPerformers ps \<Longrightarrow> ?thesis" using Pair penalty_rel_refl by (simp add: penalize_performer_def)
    ultimately show ?thesis by blast
  qed
  have sk: "penalty_rel cs x (penalize_studio_of k x)" if "k \<in> set (order_keys cs)" for k x
    using penalty_rel_lower [OF that finite_constants(2)] penalty_rel_refl
    by (cases x) (auto simp: penalize_studio_of_def)
  have s: "penalty_rel cs x (penalize_studio cs q x)" for q x
  proof (cases x)
    case (Pair ps ch)
    have "penalty_rel cs (ps\<lparr>seenStudios := insert q (seenStudios ps)\<rparr>, ch)
        (fold penalize_studio_of (studioIndex cs q) (ps\<lparr>seenStudios := insert q (seenStudios ps)\<rparr>, ch))"
      by (rule penalty_rel_fold) (simp add: studioIndex_def sk)
    then have "\<not> (q = [] \<or> q \<in> seenStudios ps) \<Longrightarrow> ?thesis"
      using same [of ps "ps\<lparr>seenStudios := insert q (seenStudios ps)\<rparr>"] Pair by (simp add: penalize_studio_def)
    moreover have "q = [] \<or> q \<in> seenStudios ps \<Longrightarrow> ?thesis" using Pair penalty_rel_refl by (auto simp: penalize_studio_def)
    ultimately show ?thesis by blast
  qed
  have f: "penalty_rel cs x (cover_feature cs q x)" for q x
  proof (cases x)
    case (Pair ps ch)
    have "penalty_rel cs y (cover_feature_of item y)" if "item \<in> set (featureIndex cs q)" for item y
    proof -
      from that obtain k share where item: "item = (k, share)" "k \<in> set (order_keys cs)" "feature_share (cand cs k) q = Some share"
        by (auto simp: featureIndex_def map_filter_def)
      have "is_finite (content_cost share)"
        using assms item(3) cand_key [OF item(2)] by (auto simp: finite_costs_def)
      with item(1) penalty_rel_lower [OF item(2)] show ?thesis by (cases y) (simp add: cover_feature_of_def)
    qed
    then have "penalty_rel cs (ps\<lparr>coveredFeatures := insert q (coveredFeatures ps)\<rparr>, ch)
        (fold cover_feature_of (featureIndex cs q) (ps\<lparr>coveredFeatures := insert q (coveredFeatures ps)\<rparr>, ch))"
      by (rule penalty_rel_fold)
    then have "q \<notin> coveredFeatures ps \<Longrightarrow> ?thesis"
      using same [of ps "ps\<lparr>coveredFeatures := insert q (coveredFeatures ps)\<rparr>"] Pair by (simp add: cover_feature_def)
    moreover have "q \<in> coveredFeatures ps \<Longrightarrow> ?thesis" using Pair penalty_rel_refl by (simp add: cover_feature_def)
    ultimately show ?thesis by blast
  qed
  show ?thesis
    unfolding penalize_def
    using penalty_rel_trans [OF penalty_rel_fold [of _ cs "penalize_performer cs", OF p] penalty_rel_trans [OF s penalty_rel_fold [of _ cs "cover_feature cs", OF f]]]
    by blast
qed

section \<open>The loops agree\<close>

lemma heap_inv_change:
  assumes "heap_inv lane cs ut selected {} hs" and "\<And>k. k \<notin> A \<Longrightarrow> ut' k = ut k"
  shows "heap_inv lane cs ut' selected A hs"
  unfolding heap_inv_def
proof (intro conjI allI ballI impI)
  fix k s assume "k \<in> set (order_keys cs) - A" "fst k \<notin> selected" "s \<in> set (selectorsOf lane (cand cs k))"
  moreover from this have "key_entry ut' v k = key_entry ut v k" for v using assms(2) by (simp add: key_entry_def)
  ultimately show "key_entry ut' (versions hs k) k \<in> set (heaps hs s)" using heap_inv_entry [OF assms(1)] by simp
next
  fix s e assume e: "e \<in> set (heaps hs s)"
  note h = heap_inv_heap [OF assms(1) e]
  show "he_key e \<in> set (order_keys cs)" "s \<in> set (selectorsOf lane (cand cs (he_key e)))" "he_neg e \<noteq> NaN"
    "he_version e \<le> versions hs (he_key e)" by (fact h)+
  assume "he_version e = versions hs (he_key e)" "he_scene e \<notin> selected" "he_key e \<notin> A"
  with h(5) assms(2) show "he_neg e = float_neg (ut' (he_key e))" by simp
qed

lemma best_key_open: "best_key lane cs varied ut selected s previous allow = Some k \<Longrightarrow> k \<in> set (open_keys cs selected)"
  unfolding best_key_def by (drule first_by_in) (simp add: pool_keys_def)

lemma naive_choice_open: "naive_choice lane cs varied ut selected position previous = Some k \<Longrightarrow> k \<in> set (open_keys cs selected)"
  by (auto simp: naive_choice_def split: option.splits dest: best_key_open)

lemma choose_next_spec:
  assumes inv: "heap_inv lane cs ut selected {} hs" and nan: "\<And>k. ut k \<noteq> NaN"
    and choose: "choose_next lane cs varied selected position previous hs = (r, hs')"
  shows "r = map_option (cand cs) (naive_choice lane cs varied ut selected position previous)"
    and "naive_choice lane cs varied ut selected position previous = Some k \<Longrightarrow>
      heap_inv lane cs ut (insert (fst k) selected) {} hs'"
proof -
  obtain r1 h1 where p1: "pop cs varied selected (wanted lane cs varied position) previous False hs = (r1, h1)" by fastforce
  note s1 = pop_spec [OF inv nan p1]
  have "r = map_option (cand cs) (naive_choice lane cs varied ut selected position previous) \<and>
    (naive_choice lane cs varied ut selected position previous = Some k \<longrightarrow> heap_inv lane cs ut (insert (fst k) selected) {} hs')"
  proof (cases "best_key lane cs varied ut selected (wanted lane cs varied position) previous False")
    case (Some k1)
    with s1 p1 choose show ?thesis by (auto simp: choose_next_def naive_choice_def)
  next
    case None
    then have inv1: "heap_inv lane cs ut selected {} h1" and r1: "r1 = None" using s1 by simp_all
    obtain r2 h2 where p2: "pop cs varied selected all_selector previous False h1 = (r2, h2)" by fastforce
    note s2 = pop_spec [OF inv1 nan p2]
    show ?thesis
    proof (cases "best_key lane cs varied ut selected all_selector previous False")
      case (Some k2)
      with s2 p1 p2 r1 None choose show ?thesis by (auto simp: choose_next_def naive_choice_def)
    next
      case None2: None
      then have inv2: "heap_inv lane cs ut selected {} h2" and r2: "r2 = None" using s2 by simp_all
      have p3: "pop cs varied selected all_selector previous True h2 = (r, hs')"
        using choose p1 p2 r1 r2 by (simp add: choose_next_def)
      from pop_spec [OF inv2 nan p3] None None2 show ?thesis by (auto simp: naive_choice_def split: option.splits)
    qed
  qed
  then show "r = map_option (cand cs) (naive_choice lane cs varied ut selected position previous)"
    and "naive_choice lane cs varied ut selected position previous = Some k \<Longrightarrow>
      heap_inv lane cs ut (insert (fst k) selected) {} hs'" by blast+
qed

lemma selected_snoc: "k \<in> set (order_keys cs) \<Longrightarrow>
    selected_scenes (ordered @ [order_entry varied ps (cand cs k)]) = insert (fst k) (selected_scenes ordered)"
  using cand_key [of k cs] by (simp add: selected_scenes_def order_entry_def Let_def)

lemma loops_agree:
  assumes "heap_inv lane cs (utilities ps) (selected_scenes ordered) {} hs" and "\<And>k. utilities ps k \<noteq> NaN"
    and "finite_costs cs" and "card (selected_scenes ordered) + fuel = scene_count cs"
  shows "order_loop lane cs varied fuel (ps, hs, ordered) = naive_loop lane cs varied fuel (ps, ordered)"
  using assms
proof (induction fuel arbitrary: ps hs ordered)
  case (Suc fuel)
  let ?selected = "selected_scenes ordered"
  obtain r hs1 where choose: "choose_next lane cs varied ?selected (length ordered) (last_candidate ordered) hs = (r, hs1)"
    by fastforce
  note spec = choose_next_spec [OF Suc.prems(1,2) choose]
  have go: "card ?selected < scene_count cs" using Suc.prems(4) by simp
  show ?case
  proof (cases "naive_choice lane cs varied (utilities ps) ?selected (length ordered) (last_candidate ordered)")
    case None
    with spec(1) go choose show ?thesis by simp
  next
    case (Some k)
    let ?c = "cand cs k" let ?ordered = "ordered @ [order_entry varied ps ?c]"
    have r: "r = Some ?c" using spec(1) Some by simp
    have k: "k \<in> set (order_keys cs)" "fst k \<notin> ?selected" using naive_choice_open [OF Some] by (simp_all add: open_keys_def)
    have sel: "selected_scenes ?ordered = insert (fst k) ?selected" by (rule selected_snoc [OF k(1)])
    have inv: "heap_inv lane cs (utilities ps) (selected_scenes ?ordered) {} hs1"
      using spec(2) [OF Some] by (simp add: sel)
    have "finite ?selected" by (simp add: selected_scenes_def)
    then have fuel: "card (selected_scenes ?ordered) + fuel = scene_count cs" using k(2) Suc.prems(4) by (simp add: sel)
    show ?thesis
    proof (cases varied)
      case False
      with Suc.IH [OF inv Suc.prems(2,3) fuel] choose r Some go show ?thesis by simp
    next
      case True
      obtain ps' changed where pen: "penalize cs ?c ps = (ps', changed)" by fastforce
      have rel: "set changed \<subseteq> set (order_keys cs)" "\<And>k. k \<notin> set changed \<Longrightarrow> utilities ps' k = utilities ps k"
        "\<And>k. utilities ps' k \<noteq> NaN"
        using penalize_rel [OF Suc.prems(3), of ps ?c] Suc.prems(2) by (auto simp: penalty_rel_def pen)
      have "heap_inv lane cs (utilities ps') (selected_scenes ?ordered) (set (remdups changed)) hs1"
        using heap_inv_change [OF inv] rel(2) by simp
      then have inv': "heap_inv lane cs (utilities ps') (selected_scenes ?ordered) {}
          (repush lane cs (selected_scenes ?ordered) ps' changed hs1)"
        unfolding repush_def using rel by (intro repush_inv) simp_all
      from Suc.IH [OF inv' rel(3) Suc.prems(3) fuel] True choose r Some go pen show ?thesis by simp
    qed
  qed
qed simp

lemma start_utilities:
  assumes "finite_costs cs"
  shows "utilities (start_penalties cs varied) k \<noteq> NaN"
proof (cases "byKey cs k")
  case (Some c)
  then have "cd_value c \<noteq> NaN" using byKey_Some [OF Some] assms by (simp add: finite_costs_def)
  with Some finite_constants(3) float_ops_NaN(1) show ?thesis by (simp add: start_penalties_def start_utility_def)
qed (simp add: start_penalties_def)

section \<open>Properties\<close>

lemma buildOrdering_agrees:
  assumes "finite_costs cs"
  shows "buildOrdering lane cs varied = naive_ordering lane cs varied"
proof -
  have nan: "\<And>k. utilities (start_penalties cs varied) k \<noteq> NaN" by (rule start_utilities [OF assms])
  have "heap_inv lane cs (utilities (start_penalties cs varied)) (selected_scenes []) {}
      (start_heaps lane cs (start_penalties cs varied))"
    using start_heaps_inv [of "start_penalties cs varied" lane cs, OF nan] by (simp add: selected_scenes_def)
  then show ?thesis
    unfolding buildOrdering_def naive_ordering_def Let_def
    by (rule loops_agree [OF _ nan assms]) (simp add: selected_scenes_def)
qed

text \<open>
  C39. The heaps of a lane ordering find what a search would: the published order is the one
  that takes, at every position, the candidate with the highest current utility (then the
  smallest scene id, then the smallest lane) among the scenes not yet placed, first under
  the wanted rotation key or lane, then anywhere, then next to a shared performer. Stale
  heap entries never surface and no candidate is missed, for candidates with finite values.
\<close>

theorem buildOrdering_greedy:
  assumes "finite_costs cs"
  shows "buildOrdering lane cs varied = naive_ordering lane cs varied"
  by (rule buildOrdering_agrees [OF assms])

text \<open>
  What the loop keeps of the entries placed so far: their scenes are distinct scenes of the
  candidates, and of two neighbours with a performer in common no scene left could have
  avoided it.
\<close>

definition entry_scene :: "orderingEntry \<Rightarrow> string" where
  "entry_scene e = cd_scene (oe_candidate e)"

definition forced_neighbours :: "greedyCandidate list \<Rightarrow> orderingEntry list \<Rightarrow> bool" where
  "forced_neighbours cs xs \<longleftrightarrow>
     (\<forall>i. Suc i < length xs \<longrightarrow> shares_performer (oe_candidate (xs ! Suc i)) (oe_candidate (xs ! i)) \<longrightarrow>
        (\<forall>k \<in> set (order_keys cs). fst k \<notin> entry_scene ` set (take (Suc i) xs) \<longrightarrow>
           shares_performer (cand cs k) (oe_candidate (xs ! i))))"

definition placed :: "greedyCandidate list \<Rightarrow> bool \<Rightarrow> orderingEntry list \<Rightarrow> bool" where
  "placed cs varied xs \<longleftrightarrow> distinct (map entry_scene xs) \<and> set (map oe_candidate xs) \<subseteq> set cs \<and>
     (varied \<longrightarrow> forced_neighbours cs xs)"

lemma selected_scenes_image: "selected_scenes xs = entry_scene ` set xs"
  by (simp add: selected_scenes_def entry_scene_def)

lemma forced_snoc:
  assumes "forced_neighbours cs xs"
    and "xs \<noteq> [] \<Longrightarrow> shares_performer (oe_candidate x) (oe_candidate (last xs)) \<Longrightarrow>
      \<forall>k \<in> set (order_keys cs). fst k \<notin> entry_scene ` set xs \<longrightarrow> shares_performer (cand cs k) (oe_candidate (last xs))"
  shows "forced_neighbours cs (xs @ [x])"
  unfolding forced_neighbours_def
proof (intro allI impI)
  fix i assume i: "Suc i < length (xs @ [x])"
    and shared: "shares_performer (oe_candidate ((xs @ [x]) ! Suc i)) (oe_candidate ((xs @ [x]) ! i))"
  show "\<forall>k \<in> set (order_keys cs). fst k \<notin> entry_scene ` set (take (Suc i) (xs @ [x])) \<longrightarrow>
      shares_performer (cand cs k) (oe_candidate ((xs @ [x]) ! i))"
  proof (cases "Suc i < length xs")
    case True
    with assms(1) shared show ?thesis by (simp add: forced_neighbours_def nth_append)
  next
    case False
    with i have len: "length xs = Suc i" by simp
    then have "xs \<noteq> []" by auto
    with len have "last xs = xs ! i" by (simp add: last_conv_nth)
    with len shared assms(2) \<open>xs \<noteq> []\<close> show ?thesis by (simp add: nth_append)
  qed
qed

text \<open>The best under the neighbour rule is taken when there is one.\<close>

lemma naive_choice_adjacent:
  assumes "naive_choice lane cs True ut selected position (Some p) = Some k" and "shares_performer (cand cs k) p"
  shows "\<forall>k \<in> set (open_keys cs selected). shares_performer (cand cs k) p"
proof -
  have adj: "\<not> adjacent True (Some p) False (cand cs k')" if "best_key lane cs True ut selected s (Some p) False = Some k'" for k' s
    using that unfolding best_key_def by (drule_tac first_by_in) (simp add: pool_keys_def)
  have none: "best_key lane cs True ut selected all_selector (Some p) False = None"
    using assms adj by (auto simp: naive_choice_def adjacent_def split: option.splits)
  then have "pool_keys lane cs True selected all_selector (Some p) False = []"
    by (simp add: best_key_def first_by_None)
  then show ?thesis by (simp add: pool_keys_def filter_empty_conv adjacent_def)
qed

lemma placed_snoc:
  assumes "placed cs varied xs"
    and "naive_choice lane cs varied ut (selected_scenes xs) (length xs) (last_candidate xs) = Some k"
  shows "placed cs varied (xs @ [order_entry varied ps (cand cs k)])"
proof -
  have k: "k \<in> set (order_keys cs)" "fst k \<notin> selected_scenes xs"
    using naive_choice_open [OF assms(2)] by (simp_all add: open_keys_def)
  let ?x = "order_entry varied ps (cand cs k)"
  have x: "oe_candidate ?x = cand cs k" by (simp add: order_entry_def Let_def)
  have "entry_scene ?x = fst k" using cand_key [OF k(1)] x by (simp add: entry_scene_def)
  moreover have "forced_neighbours cs (xs @ [?x])" if varied
  proof (rule forced_snoc)
    show "forced_neighbours cs xs" using assms(1) that by (simp add: placed_def)
    show "\<forall>k \<in> set (order_keys cs). fst k \<notin> entry_scene ` set xs \<longrightarrow> shares_performer (cand cs k) (oe_candidate (last xs))"
      if "xs \<noteq> []" "shares_performer (oe_candidate ?x) (oe_candidate (last xs))"
      using naive_choice_adjacent [of lane cs ut "selected_scenes xs" "length xs" "oe_candidate (last xs)" k]
        assms(2) \<open>varied\<close> that x by (auto simp: last_candidate_def open_keys_def selected_scenes_image)
  qed
  ultimately show ?thesis
    using assms(1) k cand_key [OF k(1)] x by (auto simp: placed_def selected_scenes_image)
qed

lemma scenes_of_keys: "entry_scene ` set xs \<subseteq> cd_scene ` set cs \<Longrightarrow> card (entry_scene ` set xs) < scene_count cs \<Longrightarrow>
    open_keys cs (entry_scene ` set xs) \<noteq> []"
proof -
  assume sub: "entry_scene ` set xs \<subseteq> cd_scene ` set cs" and lt: "card (entry_scene ` set xs) < scene_count cs"
  have "scene_count cs = card (cd_scene ` set cs)" by (simp add: scene_count_def length_remdups_card_conv)
  with sub lt have "entry_scene ` set xs \<noteq> cd_scene ` set cs" by auto
  with sub obtain c where c: "c \<in> set cs" "cd_scene c \<notin> entry_scene ` set xs" by blast
  then have "cd_key c \<in> set (open_keys cs (entry_scene ` set xs))" by (simp add: open_keys_def order_keys_def cd_key_def)
  then show ?thesis by auto
qed

lemma naive_choice_exists:
  assumes "open_keys cs selected \<noteq> []"
  shows "naive_choice lane cs varied ut selected position previous \<noteq> None"
proof -
  have "pool_keys lane cs varied selected all_selector previous True = open_keys cs selected"
    by (simp add: pool_keys_def adjacent_def)
  then have "best_key lane cs varied ut selected all_selector previous True \<noteq> None"
    using assms by (simp add: best_key_def first_by_None)
  then show ?thesis by (auto simp: naive_choice_def split: option.splits)
qed

lemma naive_loop_places:
  assumes "placed cs varied ordered" and "length ordered + fuel = scene_count cs"
  shows "placed cs varied (naive_loop lane cs varied fuel (ps, ordered)) \<and>
    length (naive_loop lane cs varied fuel (ps, ordered)) = scene_count cs"
  using assms
proof (induction fuel arbitrary: ps ordered)
  case (Suc fuel)
  have sub: "entry_scene ` set ordered \<subseteq> cd_scene ` set cs"
    using Suc.prems(1) by (auto simp: placed_def entry_scene_def)
  have "card (entry_scene ` set ordered) = length ordered"
    using Suc.prems(1) distinct_card [of "map entry_scene ordered"] by (simp add: placed_def)
  then have "open_keys cs (selected_scenes ordered) \<noteq> []"
    using scenes_of_keys [OF sub] Suc.prems(2) by (simp add: selected_scenes_image)
  then obtain k where k: "naive_choice lane cs varied (utilities ps) (selected_scenes ordered) (length ordered)
      (last_candidate ordered) = Some k"
    using naive_choice_exists [of cs "selected_scenes ordered"] by blast
  from Suc.IH [OF placed_snoc [OF Suc.prems(1) k]] Suc.prems(2) k show ?case by simp
qed simp

text \<open>
  C40. The published order of a lane holds every scene of its candidates exactly once, and
  in the varied order two neighbours share a performer only where every scene still left
  shares one with the first of them.
\<close>

theorem buildOrdering_complete:
  assumes "finite_costs cs"
  shows "distinct (map entry_scene (buildOrdering lane cs varied)) \<and>
    set (map entry_scene (buildOrdering lane cs varied)) = cd_scene ` set cs \<and>
    set (map oe_candidate (buildOrdering lane cs varied)) \<subseteq> set cs \<and>
    (varied \<longrightarrow> forced_neighbours cs (buildOrdering lane cs varied))"
proof -
  let ?xs = "buildOrdering lane cs varied"
  have order: "?xs = naive_ordering lane cs varied" by (rule buildOrdering_agrees [OF assms])
  have "placed cs varied []" by (simp add: placed_def forced_neighbours_def)
  then have xs: "placed cs varied ?xs" "length ?xs = scene_count cs"
    using naive_loop_places [of cs varied "[]" "scene_count cs" lane "start_penalties cs varied"]
    unfolding order naive_ordering_def by simp_all
  have "entry_scene ` set ?xs \<subseteq> cd_scene ` set cs" using xs(1) by (auto simp: placed_def entry_scene_def)
  moreover have "card (entry_scene ` set ?xs) = card (cd_scene ` set cs)"
    using xs distinct_card [of "map entry_scene ?xs"]
    by (simp add: placed_def scene_count_def length_remdups_card_conv)
  ultimately have "entry_scene ` set ?xs = cd_scene ` set cs" by (intro card_subset_eq) simp_all
  with xs(1) show ?thesis by (simp add: placed_def)
qed

section \<open>Witnesses\<close>

definition sample_cand :: "string \<Rightarrow> string list \<Rightarrow> rat \<Rightarrow> greedyCandidate" where
  "sample_cand s ps v = \<lparr>cd_scene = s, cd_lane = ''best_bets'', cd_subtype = [], cd_value = Fin False v,
     cd_qualification = JObj [], cd_performers = ps, cd_studio = [], cd_content = []\<rparr>"

definition sample_cands :: "greedyCandidate list" where
  "sample_cands = [sample_cand ''1'' [''p''] (9/10), sample_cand ''2'' [''p''] (8/10), sample_cand ''3'' [''q''] (1/10)]"

lemma sample_finite: "finite_costs sample_cands"
  by (simp add: finite_costs_def sample_cands_def sample_cand_def feature_share_def)

theorem buildOrdering_greedy_witness:
  "finite_costs sample_cands \<and> buildOrdering ''best_bets'' sample_cands True = naive_ordering ''best_bets'' sample_cands True"
  using buildOrdering_greedy [OF sample_finite] sample_finite by simp

theorem buildOrdering_complete_witness:
  "set (map entry_scene (buildOrdering ''best_bets'' sample_cands True)) = {''1'', ''2'', ''3''} \<and>
   forced_neighbours sample_cands (buildOrdering ''best_bets'' sample_cands True)"
  using buildOrdering_complete [OF sample_finite, of "''best_bets''" True]
  by (simp add: sample_cands_def sample_cand_def)

end
