(* ===== verification/Spec2Isabelle.thy ===== *)
theory Spec2Isabelle
  imports Chunks Json_Text Settings Transactions Job_Queue Feedback Tag_Preferences Scene_Reasons Play_Events External_Entities Sync_Watermarks Scheduler Entity_Hooks Lane_Order
begin

text \<open>
  The core of stash-curator.
\<close>

section \<open>Properties across components\<close>

text \<open>
  C21. A client may send an accepted batch again: the second submission of feedback, tag
  answers, scene reasons, external scene reasons or player events accepts nothing, changes no row and requests no
  model update.
\<close>

theorem accepted_batch_retry:
  "(submitFeedbackBody payload now fdb = (fdb', Inr n) \<longrightarrow> submitFeedbackBody payload now' fdb' = (fdb', Inr 0)) \<and>
   (submitTagPreferencesBody payload now tdb = (tdb', Inr n) \<longrightarrow>
      submitTagPreferencesBody payload now' tdb' = (tdb', Inr 0)) \<and>
   (submitSceneReasonsBody payload now rdb = (rdb', Inr n) \<longrightarrow>
      submitSceneReasonsBody payload now' rdb' = (rdb', Inr 0)) \<and>
   (submitExternalSceneReasonsBody payload now rdb = (rdb', Inr n) \<longrightarrow>
      submitExternalSceneReasonsBody payload now' rdb' = (rdb', Inr 0)) \<and>
   (submitEventsBody parse mathExp payload now edb = (edb', Inr n) \<longrightarrow>
      submitEventsBody parse mathExp payload now' edb' = (edb', Inr 0))"
  by (intro conjI impI) (erule feedback_retry tag_answers_retry library_retry external_retry events_retry)+

theorem accepted_batch_retry_witness:
  "\<exists>db. submitSceneReasonsBody flip_payload 9 sample_reasons = (db, Inr 1) \<and>
     submitSceneReasonsBody flip_payload 20 db = (db, Inr 0)"
proof -
  obtain db where "submitSceneReasonsBody flip_payload 9 sample_reasons = (db, Inr 1)"
    using flip_submitted by blast
  with accepted_batch_retry [of flip_payload 9 _ _ 1 20 _ _ sample_reasons db] flip_submitted show ?thesis by simp
qed

end
